(* ===== verification/Rust_Prelude.thy ===== *)
theory Rust_Prelude
  imports Complex_Main "HOL-Library.Word" "HOL-Library.Sublist" "HOL-Library.FSet"
    "HOL-Library.List_Lexorder" "HOL-Library.Char_ord" "HOL-Library.AList"
    "HOL-Library.Code_Target_Nat"
begin

text \<open>
  The vocabulary every component shares: machine integers at Rust's widths with their checked
  and saturating operations, results and panics, and the operations of \<open>str\<close> the source calls
  (trimming, ASCII case, splitting, searching, decimal and hexadecimal printing).

  A Rust \<open>String\<close> or byte slice is a \<open>string\<close>, the list of its UTF-8 bytes, so \<open>length\<close> is
  Rust's \<open>len\<close>. Lengths and indices (\<open>usize\<close>) are \<open>nat\<close>: Rust bounds every allocation by
  \<open>isize::MAX\<close>, so \<open>as u64\<close> on a length never truncates. A \<open>BTreeSet\<close> is an \<open>fset\<close>, iterated
  in the order of its elements; a \<open>BTreeMap\<close> is an association list with distinct keys.
\<close>

named_theorems str_simps \<open>evaluation of the string operations\<close>
named_theorems result_simps \<open>results: unfolding of the propagation operator\<close>

section \<open>Machine integers\<close>

type_synonym u8 = "8 word"
type_synonym u16 = "16 word"
type_synonym u32 = "32 word"
type_synonym u64 = "64 word"
type_synonym u128 = "128 word"

definition checked_add :: "'l::len word \<Rightarrow> 'l word \<Rightarrow> 'l word option" where
  "checked_add a b = (if unat a + unat b < 2 ^ LENGTH('l) then Some (a + b) else None)"

definition saturating_add :: "'l::len word \<Rightarrow> 'l word \<Rightarrow> 'l word" where
  "saturating_add a b = (if unat a + unat b < 2 ^ LENGTH('l) then a + b else - 1)"

definition saturating_sub :: "'l::len word \<Rightarrow> 'l word \<Rightarrow> 'l word" where
  "saturating_sub a b = (if a \<le> b then 0 else a - b)"

lemma checked_add_SomeD: "checked_add a b = Some c \<Longrightarrow> unat c = unat a + unat b"
  by (auto simp: checked_add_def unat_word_ariths split: if_splits)

lemma checked_add_None: "checked_add (a :: 'l::len word) b = None \<longleftrightarrow> 2 ^ LENGTH('l) \<le> unat a + unat b"
  by (simp add: checked_add_def linorder_not_less)

lemma unat_minus_one_max: "unat (- 1 :: 'l::len word) = 2 ^ LENGTH('l) - 1"
  by (simp add: unsigned_minus_1_eq_mask mask_eq_exp_minus_1)

lemma unat_bounds:
  "unat (a :: u8) < 256" "unat (b :: u16) < 65536" "unat (c :: u32) < 4294967296"
  "unat (d :: u64) < 18446744073709551616"
  "unat (e :: u128) < 340282366920938463463374607431768211456"
  using unsigned_less [of a, where ?'a = nat] unsigned_less [of b, where ?'a = nat]
    unsigned_less [of c, where ?'a = nat] unsigned_less [of d, where ?'a = nat]
    unsigned_less [of e, where ?'a = nat]
  by (simp_all del: unsigned_less)

lemma unat_saturating_add:
  "unat (saturating_add a (b :: 'l::len word)) = min (unat a + unat b) (2 ^ LENGTH('l) - 1)"
  by (auto simp: saturating_add_def unat_word_ariths unat_minus_one_max)

lemma unat_saturating_sub: "unat (saturating_sub a b) = unat a - unat b"
  by (auto simp: saturating_sub_def word_le_nat_alt unat_sub_if_size linorder_not_le not_less)

lemma saturating_add_one:
  "a \<noteq> - 1 \<Longrightarrow> unat (saturating_add a (1 :: 'l::len word)) = Suc (unat a)"
proof -
  assume "a \<noteq> - 1"
  then have "unat a \<noteq> unat (- 1 :: 'l word)" by (simp add: word_unat_eq_iff)
  moreover have "unat a < 2 ^ LENGTH('l)" by (rule unsigned_less)
  ultimately have "unat a + 1 \<le> 2 ^ LENGTH('l) - 1"
    unfolding unat_minus_one_max by linarith
  then show ?thesis by (simp add: unat_saturating_add)
qed

section \<open>Results and panics\<close>

text \<open>
  \<open>Result<T, E>\<close> is \<open>'e + 'a\<close> with the error on the left; \<open>bind_r\<close> is the \<open>?\<close> operator. A call
  that may abort the thread returns a \<open>run\<close>.
\<close>

datatype 'a run = Panic | Ret 'a

definition bind_r :: "('e + 'a) \<Rightarrow> ('a \<Rightarrow> 'e + 'b) \<Rightarrow> 'e + 'b" where
  "bind_r r k = (case r of Inl e \<Rightarrow> Inl e | Inr x \<Rightarrow> k x)"

definition map_err :: "('e \<Rightarrow> 'f) \<Rightarrow> 'e + 'a \<Rightarrow> 'f + 'a" where
  "map_err f r = (case r of Inl e \<Rightarrow> Inl (f e) | Inr x \<Rightarrow> Inr x)"

definition ok_or :: "'a option \<Rightarrow> 'e \<Rightarrow> 'e + 'a" where
  "ok_or m e = (case m of None \<Rightarrow> Inl e | Some x \<Rightarrow> Inr x)"

text \<open>\<open>Iterator::collect\<close> into a \<open>Result\<close>: the first error wins.\<close>

fun collect_r :: "('e + 'a) list \<Rightarrow> 'e + 'a list" where
  "collect_r [] = Inr []"
| "collect_r (r # rs) = bind_r r (\<lambda>x. bind_r (collect_r rs) (\<lambda>xs. Inr (x # xs)))"

lemma bind_r_simps [simp, result_simps]:
  "bind_r (Inl e) k = Inl e" "bind_r (Inr x) k = k x"
  by (simp_all add: bind_r_def)

lemma bind_r_Inr [result_simps]: "bind_r r k = Inr y \<longleftrightarrow> (\<exists>x. r = Inr x \<and> k x = Inr y)"
  by (cases r) simp_all

lemma bind_r_Inl:
  "bind_r r k = Inl e \<longleftrightarrow> r = Inl e \<or> (\<exists>x. r = Inr x \<and> k x = Inl e)"
  by (cases r) auto

lemma map_err_simps [simp, result_simps]:
  "map_err f (Inl e) = Inl (f e)" "map_err f (Inr x) = Inr x"
  by (simp_all add: map_err_def)

lemma map_err_Inr [result_simps]: "map_err f r = Inr x \<longleftrightarrow> r = Inr x"
  by (cases r) simp_all

lemma ok_or_simps [simp, result_simps]:
  "ok_or None e = Inl e" "ok_or (Some x) e = Inr x"
  by (simp_all add: ok_or_def)

lemma ok_or_Inr [result_simps]: "ok_or m e = Inr x \<longleftrightarrow> m = Some x"
  by (cases m) simp_all

lemma collect_r_Inr: "collect_r rs = Inr xs \<longleftrightarrow> rs = map Inr xs"
  by (induction rs arbitrary: xs) (auto simp: result_simps)

lemma collect_r_map_Inr: "collect_r (map f ys) = Inr xs \<longleftrightarrow> map f ys = map Inr xs"
  by (rule collect_r_Inr)

lemma collect_r_map_total:
  "(\<And>y. y \<in> set ys \<Longrightarrow> f y = Inr (g y)) \<Longrightarrow> collect_r (map f ys) = Inr (map g ys)"
  by (induction ys) auto

section \<open>Bytes and strings\<close>

definition byte :: "char \<Rightarrow> nat" where
  "byte c = of_char c"

definition is_ascii_digit :: "char \<Rightarrow> bool" where
  "is_ascii_digit c \<longleftrightarrow> 48 \<le> byte c \<and> byte c \<le> 57"

definition is_ascii_uppercase :: "char \<Rightarrow> bool" where
  "is_ascii_uppercase c \<longleftrightarrow> 65 \<le> byte c \<and> byte c \<le> 90"

definition is_ascii_lowercase :: "char \<Rightarrow> bool" where
  "is_ascii_lowercase c \<longleftrightarrow> 97 \<le> byte c \<and> byte c \<le> 122"

definition is_ascii_alphanumeric :: "char \<Rightarrow> bool" where
  "is_ascii_alphanumeric c \<longleftrightarrow> is_ascii_digit c \<or> is_ascii_uppercase c \<or> is_ascii_lowercase c"

definition is_ascii_hexdigit :: "char \<Rightarrow> bool" where
  "is_ascii_hexdigit c \<longleftrightarrow> is_ascii_digit c \<or> (65 \<le> byte c \<and> byte c \<le> 70) \<or> (97 \<le> byte c \<and> byte c \<le> 102)"

definition is_ascii_control :: "char \<Rightarrow> bool" where
  "is_ascii_control c \<longleftrightarrow> byte c < 32 \<or> byte c = 127"

definition char_lower :: "char \<Rightarrow> char" where
  "char_lower c = (if is_ascii_uppercase c then char_of (byte c + 32) else c)"

definition char_upper :: "char \<Rightarrow> char" where
  "char_upper c = (if is_ascii_lowercase c then char_of (byte c - 32) else c)"

definition to_ascii_lowercase :: "string \<Rightarrow> string" where
  "to_ascii_lowercase s = map char_lower s"

definition to_ascii_uppercase :: "string \<Rightarrow> string" where
  "to_ascii_uppercase s = map char_upper s"

lemmas byte_class_defs = is_ascii_digit_def is_ascii_uppercase_def is_ascii_lowercase_def
  is_ascii_alphanumeric_def is_ascii_hexdigit_def is_ascii_control_def

lemma byte_less_256 [simp]: "byte c < 256"
  by (simp add: byte_def)

lemma byte_char_of [simp]: "byte (char_of n) = n mod 256"
  by (simp add: byte_def)

lemma byte_inject: "byte c = byte d \<longleftrightarrow> c = d"
  by (simp add: byte_def)

lemma byte_char_lower:
  "byte (char_lower c) = (if is_ascii_uppercase c then byte c + 32 else byte c)"
  by (auto simp: char_lower_def is_ascii_uppercase_def)

lemma char_lower_idem [simp]: "char_lower (char_lower c) = char_lower c"
  by (auto simp: char_lower_def is_ascii_uppercase_def)

lemma alphanumeric_char_lower [simp]:
  "is_ascii_alphanumeric (char_lower c) = is_ascii_alphanumeric c"
  by (auto simp: byte_class_defs byte_char_lower)

lemma char_lower_other: "\<not> is_ascii_uppercase c \<Longrightarrow> char_lower c = c"
  by (simp add: char_lower_def)

lemma char_lower_eq_other:
  "\<not> is_ascii_lowercase d \<Longrightarrow> \<not> is_ascii_uppercase d \<Longrightarrow> char_lower c = d \<longleftrightarrow> c = d"
  by (auto simp: char_lower_def byte_class_defs byte_inject [symmetric])

lemma to_ascii_lowercase_simps [simp, str_simps]:
  "to_ascii_lowercase [] = []"
  "to_ascii_lowercase (c # s) = char_lower c # to_ascii_lowercase s"
  "to_ascii_lowercase (s @ t) = to_ascii_lowercase s @ to_ascii_lowercase t"
  by (simp_all add: to_ascii_lowercase_def)

lemma length_to_ascii_lowercase [simp]: "length (to_ascii_lowercase s) = length s"
  by (simp add: to_ascii_lowercase_def)

lemma to_ascii_lowercase_idem [simp]:
  "to_ascii_lowercase (to_ascii_lowercase s) = to_ascii_lowercase s"
  by (simp add: to_ascii_lowercase_def)

lemma to_ascii_lowercase_Nil_iff [simp]: "to_ascii_lowercase s = [] \<longleftrightarrow> s = []"
  by (simp add: to_ascii_lowercase_def)

lemma set_to_ascii_lowercase: "set (to_ascii_lowercase s) = char_lower ` set s"
  by (simp add: to_ascii_lowercase_def)

text \<open>
  \<open>str::trim\<close> strips Unicode \<open>White_Space\<close>. On UTF-8 bytes these code points are one byte
  (tab to carriage return, space), two bytes (U+0085, U+00A0) or three bytes (U+1680,
  U+2000 to U+200A, U+2028, U+2029, U+202F, U+205F, U+3000).
\<close>

definition ws1 :: "char \<Rightarrow> bool" where
  "ws1 a \<longleftrightarrow> (9 \<le> byte a \<and> byte a \<le> 13) \<or> byte a = 32"

definition ws2 :: "char \<Rightarrow> char \<Rightarrow> bool" where
  "ws2 a b \<longleftrightarrow> byte a = 194 \<and> (byte b = 133 \<or> byte b = 160)"

definition ws3 :: "char \<Rightarrow> char \<Rightarrow> char \<Rightarrow> bool" where
  "ws3 a b c \<longleftrightarrow>
     (byte a = 225 \<and> byte b = 154 \<and> byte c = 128) \<or>
     (byte a = 226 \<and> byte b = 128 \<and> (128 \<le> byte c \<and> byte c \<le> 138 \<or> byte c = 168 \<or> byte c = 169 \<or> byte c = 175)) \<or>
     (byte a = 226 \<and> byte b = 129 \<and> byte c = 159) \<or>
     (byte a = 227 \<and> byte b = 128 \<and> byte c = 128)"

fun ws_front :: "string \<Rightarrow> nat" where
  "ws_front [] = 0"
| "ws_front [a] = (if ws1 a then 1 else 0)"
| "ws_front [a, b] = (if ws1 a then 1 else if ws2 a b then 2 else 0)"
| "ws_front (a # b # c # s) =
     (if ws1 a then 1 else if ws2 a b then 2 else if ws3 a b c then 3 else 0)"

fun ws_back :: "string \<Rightarrow> nat" where
  "ws_back [] = 0"
| "ws_back [a] = (if ws1 a then 1 else 0)"
| "ws_back [b, a] = (if ws1 b then 1 else if ws2 a b then 2 else 0)"
| "ws_back (c # b # a # s) =
     (if ws1 c then 1 else if ws2 b c then 2 else if ws3 a b c then 3 else 0)"

function trim_start :: "string \<Rightarrow> string" where
  "trim_start s = (if s = [] \<or> ws_front s = 0 then s else trim_start (drop (ws_front s) s))"
  by pat_completeness auto
termination
  by (relation "measure length") (auto simp: neq_Nil_conv)

text \<open>The same loop from the end, on the reversed bytes.\<close>

function trim_back :: "string \<Rightarrow> string" where
  "trim_back s = (if s = [] \<or> ws_back s = 0 then s else trim_back (drop (ws_back s) s))"
  by pat_completeness auto
termination
  by (relation "measure length") (auto simp: neq_Nil_conv)

declare trim_start.simps [simp del] trim_back.simps [simp del]

definition trim :: "string \<Rightarrow> string" where
  "trim s = rev (trim_back (rev (trim_start s)))"

text \<open>\<open>str::trim_end_matches\<close> for a character, \<open>str::split\<close> for a character, \<open>str::contains\<close> for a
  string.\<close>

definition trim_end_matches :: "char \<Rightarrow> string \<Rightarrow> string" where
  "trim_end_matches d s = rev (dropWhile (\<lambda>c. c = d) (rev s))"

fun split_on :: "char \<Rightarrow> string \<Rightarrow> string list" where
  "split_on d [] = [[]]"
| "split_on d (c # s) =
     (if c = d then [] # split_on d s
      else (case split_on d s of [] \<Rightarrow> [[c]] | p # ps \<Rightarrow> (c # p) # ps))"

fun contains_str :: "string \<Rightarrow> string \<Rightarrow> bool" where
  "contains_str p [] = (p = [])"
| "contains_str p (c # s) = (prefix p (c # s) \<or> contains_str p s)"

text \<open>Bytes that no trimming touches: the printable ASCII range without the space.\<close>

definition graphic :: "char \<Rightarrow> bool" where
  "graphic c \<longleftrightarrow> 33 \<le> byte c \<and> byte c \<le> 126"

lemma ws_front_graphic: "s \<noteq> [] \<Longrightarrow> graphic (hd s) \<Longrightarrow> ws_front s = 0"
  by (induction s rule: ws_front.induct) (auto simp: graphic_def ws1_def ws2_def ws3_def)

lemma ws_back_graphic: "s \<noteq> [] \<Longrightarrow> graphic (hd s) \<Longrightarrow> ws_back s = 0"
  by (induction s rule: ws_back.induct) (auto simp: graphic_def ws1_def ws2_def ws3_def)

lemma trim_Nil [simp]: "trim [] = []"
  by (simp add: trim_def trim_start.simps trim_back.simps)

lemma trim_graphic_ends:
  assumes "s \<noteq> []" "graphic (hd s)" "graphic (last s)"
  shows "trim s = s"
proof -
  have "trim_start s = s"
    using ws_front_graphic [of s] assms by (simp add: trim_start.simps)
  moreover have "trim_back (rev s) = rev s"
    using ws_back_graphic [of "rev s"] assms by (simp add: trim_back.simps hd_rev)
  ultimately show ?thesis by (simp add: trim_def)
qed

lemma trim_graphic: "(\<And>c. c \<in> set s \<Longrightarrow> graphic c) \<Longrightarrow> trim s = s"
  by (cases "s = []") (simp_all add: trim_graphic_ends)

lemma graphic_char_lower: "graphic c \<Longrightarrow> graphic (char_lower c)"
  by (auto simp: graphic_def byte_char_lower is_ascii_uppercase_def)

lemma graphic_alphanumeric: "is_ascii_alphanumeric c \<Longrightarrow> graphic c"
  by (auto simp: graphic_def byte_class_defs)

lemma trim_end_matches_id: "s = [] \<or> last s \<noteq> d \<Longrightarrow> trim_end_matches d s = s"
  by (cases s rule: rev_cases) (auto simp: trim_end_matches_def)

lemma set_trim_end_matches: "set (trim_end_matches d s) \<subseteq> set s"
  using set_dropWhileD [of _ "\<lambda>c. c = d" "rev s"] by (auto simp: trim_end_matches_def)

lemma last_trim_end_matches: "trim_end_matches d s \<noteq> [] \<Longrightarrow> last (trim_end_matches d s) \<noteq> d"
  using hd_dropWhile [of "\<lambda>c. c = d" "rev s"] by (auto simp: trim_end_matches_def last_rev)

lemma split_on_neq_Nil [simp]: "split_on d s \<noteq> []"
  by (induction s) (auto split: list.splits)

lemma set_split_on: "p \<in> set (split_on d s) \<Longrightarrow> set p \<subseteq> set s"
proof (induction s arbitrary: p)
  case (Cons c s)
  obtain q qs where "split_on d s = q # qs"
    by (cases "split_on d s") auto
  with Cons show ?case by (fastforce split: if_splits)
qed simp

lemma in_set_split_on: "c \<in> set s \<Longrightarrow> c \<noteq> d \<Longrightarrow> \<exists>p \<in> set (split_on d s). c \<in> set p"
proof (induction s)
  case (Cons x s)
  obtain q qs where "split_on d s = q # qs"
    by (cases "split_on d s") auto
  with Cons show ?case by auto
qed simp

lemma hd_split_on: "s \<noteq> [] \<Longrightarrow> hd (split_on d s) \<noteq> [] \<Longrightarrow> hd (hd (split_on d s)) = hd s"
  by (cases s) (auto split: list.splits if_splits)

lemma split_on_single_Nil: "split_on d s = [[]] \<Longrightarrow> s = []"
  by (cases s) (auto split: list.splits if_splits)

lemma last_split_on: "last (split_on d s) \<noteq> [] \<Longrightarrow> last (last (split_on d s)) = last s"
proof (induction s)
  case (Cons c s)
  obtain q qs where q: "split_on d s = q # qs"
    by (cases "split_on d s") auto
  show ?case
  proof (cases "s = []")
    case True
    with Cons.prems show ?thesis by (auto split: if_splits)
  next
    case False
    with Cons q split_on_single_Nil [of d s] show ?thesis by (auto split: if_splits)
  qed
qed simp

text \<open>\<open>set.iter().map(f).collect()\<close> into a result of a set.\<close>

definition collect_set :: "(string \<Rightarrow> 'e + string) \<Rightarrow> string fset \<Rightarrow> 'e + string fset" where
  "collect_set f s = bind_r (collect_r (map f (sorted_list_of_fset s))) (\<lambda>xs. Inr (fset_of_list xs))"

lemma collect_set_Inr:
  "collect_set f s = Inr t \<longleftrightarrow> (\<forall>x |\<in>| s. \<exists>y. f x = Inr y) \<and> t = (projr \<circ> f) |`| s"
proof -
  have "collect_set f s = Inr t \<longleftrightarrow> (\<exists>xs. map f (sorted_list_of_fset s) = map Inr xs \<and> t = fset_of_list xs)"
    by (auto simp: collect_set_def bind_r_Inr collect_r_Inr)
  also have "\<dots> \<longleftrightarrow> (\<forall>x |\<in>| s. \<exists>y. f x = Inr y) \<and> t = (projr \<circ> f) |`| s"
    (is "?l = ?r")
  proof
    assume ?l
    then obtain xs where xs: "map f (sorted_list_of_fset s) = map Inr xs" "t = fset_of_list xs" by blast
    then have "xs = map (projr \<circ> f) (sorted_list_of_fset s)"
      by (metis (no_types, lifting) map_map map_idI o_apply sum.sel(2))
    then have "t = (projr \<circ> f) |`| s" using xs(2) by (auto simp: fset_of_list_elem fimage_iff)
    moreover have "\<exists>y. f x = Inr y" if "x |\<in>| s" for x
      using xs(1) that by (metis (no_types, lifting) in_set_conv_nth length_map nth_map sorted_list_of_fset_simps(1))
    ultimately show ?r by auto
  next
    assume ?r
    then have "map f (sorted_list_of_fset s) = map Inr (map (projr \<circ> f) (sorted_list_of_fset s))
        \<and> t = fset_of_list (map (projr \<circ> f) (sorted_list_of_fset s))"
      by (auto simp: fset_of_list_elem)
    then show ?l by blast
  qed
  finally show ?thesis .
qed

section \<open>Printing and reading numbers\<close>

definition digit :: "nat \<Rightarrow> char" where
  "digit n = char_of (48 + n)"

definition digit_value :: "char \<Rightarrow> nat" where
  "digit_value c = byte c - 48"

text \<open>\<open>to_string\<close> of an unsigned integer, and \<open>{value:0w}\<close>.\<close>

fun decimal :: "nat \<Rightarrow> string" where
  "decimal n = (if n < 10 then [digit n] else decimal (n div 10) @ [digit (n mod 10)])"

declare decimal.simps [simp del]

definition decimal_pad :: "nat \<Rightarrow> nat \<Rightarrow> string" where
  "decimal_pad w n = replicate (w - length (decimal n)) (CHR ''0'') @ decimal n"

definition read_decimal :: "string \<Rightarrow> nat" where
  "read_decimal s = foldl (\<lambda>a c. 10 * a + digit_value c) 0 s"

text \<open>\<open>str::parse::<u64>\<close> on a non-empty string of ASCII digits.\<close>

definition parse_u64 :: "string \<Rightarrow> u64 option" where
  "parse_u64 s = (if read_decimal s < 2 ^ 64 then Some (of_nat (read_decimal s)) else None)"

definition hex_digit :: "nat \<Rightarrow> char" where
  "hex_digit n = (if n < 10 then char_of (48 + n) else char_of (87 + n))"

definition hex_value :: "char \<Rightarrow> nat" where
  "hex_value c =
     (if is_ascii_digit c then byte c - 48
      else if 97 \<le> byte c then byte c - 87 else byte c - 55)"

definition read_hex :: "string \<Rightarrow> nat" where
  "read_hex s = foldl (\<lambda>a c. 16 * a + hex_value c) 0 s"

fun to_lower_hex :: "string \<Rightarrow> string" where
  "to_lower_hex [] = []"
| "to_lower_hex (c # s) = hex_digit (byte c div 16) # hex_digit (byte c mod 16) # to_lower_hex s"

definition is_lower_hex_sha256 :: "string \<Rightarrow> bool" where
  "is_lower_hex_sha256 s \<longleftrightarrow>
     length s = 64 \<and> list_all (\<lambda>c. is_ascii_digit c \<or> (97 \<le> byte c \<and> byte c \<le> 102)) s"

lemma byte_digit: "n < 10 \<Longrightarrow> byte (digit n) = 48 + n"
  by (simp add: digit_def)

lemma digit_value_digit [simp]: "n < 10 \<Longrightarrow> digit_value (digit n) = n"
  by (simp add: digit_value_def byte_digit)

lemma digit_is_digit: "n < 10 \<Longrightarrow> is_ascii_digit (digit n)"
  by (simp add: is_ascii_digit_def byte_digit)

lemma read_decimal_snoc: "read_decimal (s @ [c]) = 10 * read_decimal s + digit_value c"
  by (simp add: read_decimal_def)

lemma read_decimal_decimal [simp]: "read_decimal (decimal n) = n"
proof (induction n rule: decimal.induct)
  case (1 n)
  then show ?case
    by (cases "n < 10")
      (simp_all add: decimal.simps [of n] read_decimal_snoc, simp add: read_decimal_def)
qed

lemma foldl_decimal_zeros:
  "foldl (\<lambda>a c. 10 * a + digit_value c) 0 (replicate k (CHR ''0'')) = 0"
  by (induction k) (simp_all add: digit_value_def byte_def)

lemma read_decimal_pad [simp]: "read_decimal (decimal_pad w n) = n"
  using read_decimal_decimal [of n]
  by (simp add: decimal_pad_def read_decimal_def foldl_decimal_zeros)

lemma decimal_pad_inject: "decimal_pad w m = decimal_pad w n \<longleftrightarrow> m = n"
  by (metis read_decimal_pad)

lemma decimal_digits: "c \<in> set (decimal n) \<Longrightarrow> is_ascii_digit c"
proof (induction n rule: decimal.induct)
  case (1 n)
  then show ?case
    by (cases "n < 10") (auto simp: decimal.simps [of n] digit_is_digit)
qed

lemma decimal_neq_Nil [simp]: "decimal n \<noteq> []"
  by (subst decimal.simps) simp

lemma digit_zero [simp]: "is_ascii_digit (CHR ''0'')"
  by (simp add: is_ascii_digit_def byte_def)

lemma decimal_pad_digits: "c \<in> set (decimal_pad w n) \<Longrightarrow> is_ascii_digit c"
  by (auto simp: decimal_pad_def decimal_digits)

lemma length_decimal: "k \<noteq> 0 \<Longrightarrow> n < 10 ^ k \<Longrightarrow> length (decimal n) \<le> k"
proof (induction k arbitrary: n)
  case (Suc k)
  show ?case
  proof (cases "n < 10")
    case True
    then show ?thesis by (simp add: decimal.simps [of n])
  next
    case False
    with Suc.prems have "k \<noteq> 0" by (cases k) auto
    moreover from Suc.prems have "n div 10 < 10 ^ k"
      by (simp add: div_less_iff_less_mult mult.commute)
    ultimately show ?thesis using False Suc.IH [of "n div 10"]
      by (simp add: decimal.simps [of n])
  qed
qed simp

lemma length_decimal_pad_20: "n < 2 ^ 64 \<Longrightarrow> length (decimal_pad 20 n) = 20"
  using length_decimal [of 20 n] by (simp add: decimal_pad_def)

lemma byte_hex_digit: "n < 16 \<Longrightarrow> byte (hex_digit n) = (if n < 10 then 48 + n else 87 + n)"
  by (simp add: hex_digit_def)

lemma length_to_lower_hex [simp]: "length (to_lower_hex s) = 2 * length s"
  by (induction s) simp_all

lemma to_lower_hex_digits:
  "list_all (\<lambda>c. is_ascii_digit c \<or> (97 \<le> byte c \<and> byte c \<le> 102)) (to_lower_hex s)"
proof (induction s)
  case (Cons c s)
  have "byte c div 16 < 16"
    using byte_less_256 [of c] by (simp add: div_less_iff_less_mult)
  moreover have "byte c mod 16 < 16" by simp
  ultimately show ?case using Cons by (auto simp: is_ascii_digit_def byte_hex_digit)
qed simp

lemma is_lower_hex_sha256_digest: "length d = 32 \<Longrightarrow> is_lower_hex_sha256 (to_lower_hex d)"
  using to_lower_hex_digits [of d] by (simp add: is_lower_hex_sha256_def)

lemma hex_digit_inject:
  assumes "m < 16" "n < 16"
  shows "hex_digit m = hex_digit n \<longleftrightarrow> m = n"
proof
  assume "hex_digit m = hex_digit n"
  then have "byte (hex_digit m) = byte (hex_digit n)" by simp
  with assms show "m = n" by (simp add: byte_hex_digit split: if_splits)
qed simp

lemma to_lower_hex_inject: "to_lower_hex s = to_lower_hex t \<longleftrightarrow> s = t"
proof (induction s arbitrary: t)
  case Nil
  then show ?case by (cases t) simp_all
next
  case (Cons c s)
  show ?case
  proof (cases t)
    case (Cons d u)
    have "byte c div 16 < 16" "byte d div 16 < 16"
      using byte_less_256 [of c] byte_less_256 [of d] by (simp_all add: div_less_iff_less_mult)
    moreover have "byte c = byte d" if "byte c div 16 = byte d div 16" "byte c mod 16 = byte d mod 16"
      using that by (metis div_mult_mod_eq)
    ultimately show ?thesis using Cons Cons.IH [of u]
      by (auto simp: hex_digit_inject byte_inject)
  qed simp
qed

section \<open>Signed integers\<close>

text \<open>An \<open>i64\<close> is an \<open>int\<close>; the arithmetic of the source on it saturates.\<close>

type_synonym i64 = int

definition saturating_add_i64 :: "i64 \<Rightarrow> i64 \<Rightarrow> i64" where
  "saturating_add_i64 a b = max (- (2 ^ 63)) (min (2 ^ 63 - 1) (a + b))"

definition i64_to_string :: "i64 \<Rightarrow> string" where
  "i64_to_string n = (if n < 0 then CHR ''-'' # decimal (nat (- n)) else decimal (nat n))"

end
