(* ===== verification/Identifiers.thy ===== *)
theory Identifiers
  imports Rust_Prelude
begin

text \<open>
  The identifier and host-name rules. The crates \<open>nxb-dns\<close>, \<open>nxb-transport\<close>, \<open>nxb-executor\<close>
  and \<open>nxb-stream\<close> carry textually equal private copies of the identifier functions; they are
  defined once here, from \<open>crates/nxb-dns/src/lib.rs\<close>. The host rule of \<open>nxb-transport\<close> names
  one more forbidden byte and is kept apart.
\<close>

definition is_identifier_byte :: "char \<Rightarrow> bool" where
  "is_identifier_byte c \<longleftrightarrow> is_ascii_alphanumeric c \<or> c \<in> set ''-_.:''"

definition normalize_identifier :: "string \<Rightarrow> string" where
  "normalize_identifier value = to_ascii_lowercase (trim value)"

definition is_valid_identifier :: "string \<Rightarrow> bool" where
  "is_valid_identifier value =
     (let v = trim value in v \<noteq> [] \<and> length v \<le> 128 \<and> list_all is_identifier_byte v)"

definition normalize_host :: "string \<Rightarrow> string" where
  "normalize_host value = to_ascii_lowercase (trim_end_matches (CHR ''.'') (trim value))"

text \<open>The closure over one label of a host name.\<close>

definition is_valid_label :: "string \<Rightarrow> bool" where
  "is_valid_label l \<longleftrightarrow>
     l \<noteq> [] \<and> length l \<le> 63 \<and> hd l \<noteq> CHR ''-'' \<and> last l \<noteq> CHR ''-'' \<and>
     list_all (\<lambda>c. is_ascii_alphanumeric c \<or> c = CHR ''-'') l"

definition is_valid_host :: "string \<Rightarrow> bool" where
  "is_valid_host value =
     (let host = normalize_host value in
      if host = [] \<or> length host > 253 \<or> CHR '':'' \<in> set host \<or> CHR ''/'' \<in> set host then False
      else list_all is_valid_label (split_on (CHR ''.'') host))"

definition transport_is_valid_host :: "string \<Rightarrow> bool" where
  "transport_is_valid_host value =
     (let host = normalize_host value in
      if host = [] \<or> length host > 253 \<or> CHR '':'' \<in> set host \<or> CHR ''/'' \<in> set host
        \<or> CHR 0x5C \<in> set host then False
      else list_all is_valid_label (split_on (CHR ''.'') host))"

text \<open>\<open>sanitized_dns_identifier\<close> of the gateway; \<open>sanitize_identifier\<close> of the pinned transport is
  its copy.\<close>

definition sanitized_dns_identifier :: "string \<Rightarrow> string" where
  "sanitized_dns_identifier value =
     (let v = trim value in
      if v = [] \<or> length v > 128 \<or> \<not> list_all is_identifier_byte v then ''[invalid]''
      else to_ascii_lowercase v)"

section \<open>Facts\<close>

lemma identifier_byte_graphic: "is_identifier_byte c \<Longrightarrow> graphic c"
  by (auto simp: is_identifier_byte_def graphic_alphanumeric) (simp_all add: graphic_def byte_def)

lemma identifier_byte_lower: "is_identifier_byte c \<Longrightarrow> is_identifier_byte (char_lower c)"
  by (auto simp: is_identifier_byte_def char_lower_def is_ascii_uppercase_def byte_class_defs byte_def)

lemma valid_identifier_bytes:
  assumes "is_valid_identifier v"
  shows "list_all is_identifier_byte (normalize_identifier v)"
    and "normalize_identifier v \<noteq> []"
    and "length (normalize_identifier v) \<le> 128"
  using assms
  by (auto simp: is_valid_identifier_def normalize_identifier_def Let_def list_all_iff
      set_to_ascii_lowercase identifier_byte_lower)

lemma trim_identifier: "list_all is_identifier_byte v \<Longrightarrow> trim v = v"
  by (rule trim_graphic) (auto simp: list_all_iff identifier_byte_graphic)

lemma identifier_bytes_valid:
  "list_all is_identifier_byte v \<Longrightarrow> v \<noteq> [] \<Longrightarrow> length v \<le> 128 \<Longrightarrow> is_valid_identifier v"
  by (simp add: is_valid_identifier_def trim_identifier)

lemma normalize_identifier_valid:
  "is_valid_identifier v \<Longrightarrow> is_valid_identifier (normalize_identifier v)"
  using valid_identifier_bytes [of v] by (simp add: identifier_bytes_valid)

lemma normalize_identifier_idem:
  "is_valid_identifier v \<Longrightarrow> normalize_identifier (normalize_identifier v) = normalize_identifier v"
  using valid_identifier_bytes(1) [of v]
  by (simp add: normalize_identifier_def [of "normalize_identifier v"] trim_identifier)
    (simp add: normalize_identifier_def)

definition is_host_byte :: "char \<Rightarrow> bool" where
  "is_host_byte c \<longleftrightarrow> is_ascii_alphanumeric c \<or> c = CHR ''-'' \<or> c = CHR ''.''"

lemma host_byte_graphic: "is_host_byte c \<Longrightarrow> graphic c"
  by (auto simp: is_host_byte_def graphic_alphanumeric) (simp_all add: graphic_def byte_def)

lemma labels_host_bytes:
  "list_all is_valid_label (split_on (CHR ''.'') h) \<Longrightarrow> c \<in> set h \<Longrightarrow> is_host_byte c"
  using in_set_split_on [of c h "CHR ''.''"]
  by (cases "c = CHR ''.''") (auto simp: is_host_byte_def is_valid_label_def list_all_iff)

lemma labels_last:
  assumes "list_all is_valid_label (split_on (CHR ''.'') h)"
  shows "h \<noteq> []" "last h \<noteq> CHR ''.''"
proof -
  have "is_valid_label (last (split_on (CHR ''.'') h))"
    using assms by (simp add: list_all_iff)
  then have l: "last (split_on (CHR ''.'') h) \<noteq> []"
    "is_ascii_alphanumeric (last (last (split_on (CHR ''.'') h)))"
    by (auto simp: is_valid_label_def list_all_iff)
  then show "h \<noteq> []" by auto
  from l last_split_on [of "CHR ''.''" h] show "last h \<noteq> CHR ''.''"
    by (auto simp: byte_class_defs byte_def)
qed

lemma valid_host_labels:
  "is_valid_host v \<Longrightarrow> list_all is_valid_label (split_on (CHR ''.'') (normalize_host v))"
  "transport_is_valid_host v \<Longrightarrow> list_all is_valid_label (split_on (CHR ''.'') (normalize_host v))"
  by (auto simp: is_valid_host_def transport_is_valid_host_def Let_def split: if_splits)

lemma normalize_host_fixed:
  assumes "list_all is_valid_label (split_on (CHR ''.'') h)"
  shows "normalize_host h = to_ascii_lowercase h"
proof -
  have "trim h = h"
    by (rule trim_graphic) (simp add: labels_host_bytes [OF assms] host_byte_graphic)
  then show ?thesis
    using labels_last [OF assms] by (simp add: normalize_host_def trim_end_matches_id)
qed

lemma normalize_host_idem:
  "list_all is_valid_label (split_on (CHR ''.'') (normalize_host v)) \<Longrightarrow>
     normalize_host (normalize_host v) = normalize_host v"
  using normalize_host_fixed [of "normalize_host v"] by (simp add: normalize_host_def [of v])

text \<open>The two host rules agree: a label never contains a backslash.\<close>

lemma transport_valid_host_eq: "transport_is_valid_host v \<longleftrightarrow> is_valid_host v"
proof
  assume v: "is_valid_host v"
  then have "CHR 0x5C \<notin> set (normalize_host v)"
    using labels_host_bytes [OF valid_host_labels(1) [OF v], of "CHR 0x5C"]
    by (auto simp: is_host_byte_def byte_class_defs byte_def)
  with v show "transport_is_valid_host v"
    by (simp add: is_valid_host_def transport_is_valid_host_def Let_def split: if_splits)
qed (simp add: is_valid_host_def transport_is_valid_host_def Let_def split: if_splits)

end
