(* ===== verification/Float64.thy ===== *)
theory Float64
  imports Rust_Prelude "HOL-Library.Log_Nat"
begin

text \<open>
  The part of \<open>f64\<close> and \<open>std::time::Duration\<close> the source uses. A double is a rational, an
  infinity or not-a-number; every arithmetic operation is the exact one followed by rounding to
  the nearest double, ties to even (53 significant bits, exponents from \<open>-1074\<close>, overflow at
  \<open>2^1024\<close>). The two zeros are one value: the only operation that tells them apart, a division
  by zero, is not reached by the source. A \<open>Duration\<close> is its number of nanoseconds.
\<close>

section \<open>Rounding\<close>

datatype f64 = NaN | PInf | NInf | Fin rat

text \<open>The exponent of the leading bit of a positive rational.\<close>

definition ilog2 :: "rat \<Rightarrow> int" where
  "ilog2 x =
     (case quotient_of x of (p, q) \<Rightarrow>
        let d = bitlen p - bitlen q in if 2 powi d \<le> x then d else d - 1)"

definition round_half_even :: "rat \<Rightarrow> int" where
  "round_half_even x =
     (let f = \<lfloor>x\<rfloor>; r = x - of_int f in
      if r < 1 / 2 then f else if r > 1 / 2 then f + 1 else if even f then f else f + 1)"

text \<open>The exponent of the last bit of the double next to a positive rational.\<close>

definition ulp_exp :: "rat \<Rightarrow> int" where
  "ulp_exp x = max (ilog2 x - 52) (- 1074)"

definition round_pos :: "rat \<Rightarrow> rat" where
  "round_pos x = of_int (round_half_even (x / 2 powi ulp_exp x)) * 2 powi ulp_exp x"

definition round64 :: "rat \<Rightarrow> f64" where
  "round64 x =
     (if x = 0 then Fin 0
      else let r = (if x > 0 then round_pos x else - round_pos (- x)) in
        if r \<ge> 2 ^ 1024 then PInf else if r \<le> - (2 ^ 1024) then NInf else Fin r)"

section \<open>Operations\<close>

fun f64_is_finite :: "f64 \<Rightarrow> bool" where
  "f64_is_finite (Fin _) = True"
| "f64_is_finite _ = False"

fun f64_le :: "f64 \<Rightarrow> f64 \<Rightarrow> bool" where
  "f64_le NaN b = False"
| "f64_le a NaN = False"
| "f64_le NInf b = True"
| "f64_le a PInf = True"
| "f64_le PInf b = False"
| "f64_le a NInf = False"
| "f64_le (Fin x) (Fin y) = (x \<le> y)"

fun f64_lt :: "f64 \<Rightarrow> f64 \<Rightarrow> bool" where
  "f64_lt NaN b = False"
| "f64_lt a NaN = False"
| "f64_lt PInf b = False"
| "f64_lt a NInf = False"
| "f64_lt NInf b = True"
| "f64_lt a PInf = True"
| "f64_lt (Fin x) (Fin y) = (x < y)"

definition f64_max :: "f64 \<Rightarrow> f64 \<Rightarrow> f64" where
  "f64_max a b = (if a = NaN then b else if b = NaN then a else if f64_le a b then b else a)"

definition f64_min :: "f64 \<Rightarrow> f64 \<Rightarrow> f64" where
  "f64_min a b = (if a = NaN then b else if b = NaN then a else if f64_le a b then a else b)"

fun f64_neg :: "f64 \<Rightarrow> f64" where
  "f64_neg NaN = NaN"
| "f64_neg PInf = NInf"
| "f64_neg NInf = PInf"
| "f64_neg (Fin x) = Fin (- x)"

fun f64_add :: "f64 \<Rightarrow> f64 \<Rightarrow> f64" where
  "f64_add (Fin x) (Fin y) = round64 (x + y)"
| "f64_add NaN b = NaN"
| "f64_add a NaN = NaN"
| "f64_add PInf NInf = NaN"
| "f64_add NInf PInf = NaN"
| "f64_add PInf b = PInf"
| "f64_add NInf b = NInf"
| "f64_add a PInf = PInf"
| "f64_add a NInf = NInf"

definition f64_sub :: "f64 \<Rightarrow> f64 \<Rightarrow> f64" where
  "f64_sub a b = f64_add a (f64_neg b)"

definition inf_of_sign :: "rat \<Rightarrow> f64" where
  "inf_of_sign s = (if s = 0 then NaN else if s > 0 then PInf else NInf)"

fun f64_sign :: "f64 \<Rightarrow> rat" where
  "f64_sign NaN = 0"
| "f64_sign PInf = 1"
| "f64_sign NInf = - 1"
| "f64_sign (Fin x) = sgn x"

fun f64_mul :: "f64 \<Rightarrow> f64 \<Rightarrow> f64" where
  "f64_mul (Fin x) (Fin y) = round64 (x * y)"
| "f64_mul NaN b = NaN"
| "f64_mul a NaN = NaN"
| "f64_mul a b = inf_of_sign (f64_sign a * f64_sign b)"

fun f64_div :: "f64 \<Rightarrow> f64 \<Rightarrow> f64" where
  "f64_div (Fin x) (Fin y) = (if y = 0 then inf_of_sign (sgn x) else round64 (x / y))"
| "f64_div NaN b = NaN"
| "f64_div a NaN = NaN"
| "f64_div (Fin x) b = Fin 0"
| "f64_div a (Fin y) = inf_of_sign (f64_sign a * (if y < 0 then - 1 else 1))"
| "f64_div a b = NaN"

text \<open>\<open>n as f64\<close> for an unsigned integer.\<close>

definition f64_of_nat :: "nat \<Rightarrow> f64" where
  "f64_of_nat n = round64 (of_nat n)"

section \<open>Durations\<close>

type_synonym duration = nat

definition nanos_per_sec :: nat where
  "nanos_per_sec = 1000000000"

definition duration_limit :: nat where
  "duration_limit = 2 ^ 64 * nanos_per_sec"

definition as_secs_f64 :: "duration \<Rightarrow> f64" where
  "as_secs_f64 d =
     f64_add (f64_of_nat (d div nanos_per_sec))
       (f64_div (f64_of_nat (d mod nanos_per_sec)) (f64_of_nat nanos_per_sec))"

text \<open>\<open>Duration::from_secs_f64\<close> panics on a negative, non-finite or too large argument.\<close>

fun from_secs_f64 :: "f64 \<Rightarrow> duration run" where
  "from_secs_f64 (Fin x) =
     (if x < 0 then Panic
      else let n = nat (round_half_even (x * of_nat nanos_per_sec)) in
        if n < duration_limit then Ret n else Panic)"
| "from_secs_f64 _ = Panic"

definition as_millis :: "duration \<Rightarrow> nat" where
  "as_millis d = d div 1000000"

text \<open>\<open>duration.as_millis().min(u64::MAX) as u64\<close>, the helper of the gateway and the transport.\<close>

definition duration_milliseconds_saturated :: "duration \<Rightarrow> u64" where
  "duration_milliseconds_saturated d = of_nat (min (as_millis d) (2 ^ 64 - 1))"

section \<open>Facts\<close>

lemma powi_pos [simp]: "0 < (2::rat) powi k"
  by simp

lemma powi_mono2: "a \<le> b \<Longrightarrow> (2::rat) powi a \<le> 2 powi b"
  by (simp add: power_int_increasing)

lemma powi_add2: "(2::rat) powi (a + b) = 2 powi a * 2 powi b"
  by (simp add: power_int_add)

lemma powi_nat_int: "0 \<le> k \<Longrightarrow> (2::rat) powi k = of_int (2 ^ nat k)"
  by (simp add: power_int_def)

lemma bitlen_rat_bounds:
  assumes "0 < (p::int)"
  shows "2 powi (bitlen p - 1) \<le> (of_int p :: rat)" "(of_int p :: rat) < 2 powi bitlen p"
proof -
  from bitlen_bounds [OF assms] have b: "2 ^ nat (bitlen p - 1) \<le> p" "p < 2 ^ nat (bitlen p)"
    by auto
  moreover have "0 \<le> bitlen p - 1"
    using assms bitlen_nonneg [of p] bitlen_eq_zero_iff [of p] by linarith
  ultimately show "2 powi (bitlen p - 1) \<le> (of_int p :: rat)" "(of_int p :: rat) < 2 powi bitlen p"
    by (simp_all add: powi_nat_int)
qed

lemma ilog2_bounds:
  assumes "0 < x"
  shows "2 powi ilog2 x \<le> x" "x < 2 powi (ilog2 x + 1)"
proof -
  obtain p q where pq: "quotient_of x = (p, q)" by fastforce
  have q: "0 < q" using quotient_of_denom_pos [OF pq] .
  have x: "x = of_int p / of_int q" using quotient_of_div [OF pq] .
  have p: "0 < p" using assms q x by (simp add: zero_less_divide_iff)
  define d where "d = bitlen p - bitlen q"
  note bp = bitlen_rat_bounds [OF p] and bq = bitlen_rat_bounds [OF q]
  have "of_int p < 2 powi (d + 1) * (2 powi (bitlen q - 1) :: rat)"
    using bp(2) by (simp add: powi_add2 [symmetric] d_def)
  also have "\<dots> \<le> 2 powi (d + 1) * of_int q"
    using bq(1) by (intro mult_left_mono) auto
  finally have hi: "x < 2 powi (d + 1)"
    using q by (simp add: x pos_divide_less_eq)
  have "2 powi (d - 1) * of_int q \<le> 2 powi (d - 1) * (2 powi bitlen q :: rat)"
    using bq(2) by (intro mult_left_mono) auto
  also have "\<dots> \<le> of_int p"
    using bp(1) by (simp add: powi_add2 [symmetric] d_def)
  finally have lo: "2 powi (d - 1) \<le> x"
    using q by (simp add: x pos_le_divide_eq)
  show "2 powi ilog2 x \<le> x" "x < 2 powi (ilog2 x + 1)"
    using lo hi by (auto simp: ilog2_def pq d_def [symmetric] Let_def not_le)
qed

lemma powi_less_iff: "(2::rat) powi a < 2 powi b \<longleftrightarrow> a < b"
  by (metis less_irrefl linorder_not_less not_less_iff_gr_or_eq power_int_strict_increasing powi_mono2 one_less_numeral_iff semiring_norm(76))

lemma ilog2_mono: "\<lbrakk>0 < x; x \<le> y\<rbrakk> \<Longrightarrow> ilog2 x \<le> ilog2 y"
proof -
  assume a: "0 < x" "x \<le> y"
  have "2 powi ilog2 x < (2::rat) powi (ilog2 y + 1)"
    using ilog2_bounds(1) [of x] ilog2_bounds(2) [of y] a by linarith
  then show ?thesis by (simp only: powi_less_iff)
qed

lemma ilog2_unique: "\<lbrakk>2 powi e \<le> x; x < 2 powi (e + 1)\<rbrakk> \<Longrightarrow> ilog2 x = e"
proof -
  assume a: "2 powi e \<le> x" "x < 2 powi (e + 1)"
  then have x: "0 < x" using powi_pos [of e] by linarith
  have "2 powi ilog2 x < (2::rat) powi (e + 1)" "2 powi e < (2::rat) powi (ilog2 x + 1)"
    using ilog2_bounds [OF x] a by linarith+
  then show ?thesis by (simp only: powi_less_iff)
qed

lemma round_half_even_of_int [simp]: "round_half_even (of_int n) = n"
  by (simp add: round_half_even_def)

lemma round_half_even_bounds: "\<lfloor>x\<rfloor> \<le> round_half_even x" "round_half_even x \<le> \<lceil>x\<rceil>"
proof -
  show "\<lfloor>x\<rfloor> \<le> round_half_even x" by (simp add: round_half_even_def Let_def)
  have "x = of_int \<lfloor>x\<rfloor> \<or> \<lceil>x\<rceil> = \<lfloor>x\<rfloor> + 1"
    by (metis ceiling_altdef)
  then show "round_half_even x \<le> \<lceil>x\<rceil>"
  proof
    assume "x = of_int \<lfloor>x\<rfloor>"
    then show ?thesis by (metis ceiling_of_int order_refl round_half_even_of_int)
  qed (simp add: round_half_even_def Let_def)
qed

lemma round_half_even_mono: "x \<le> y \<Longrightarrow> round_half_even x \<le> round_half_even y"
proof -
  assume le: "x \<le> y"
  then have "\<lfloor>x\<rfloor> \<le> \<lfloor>y\<rfloor>" by (rule floor_mono)
  then consider "\<lfloor>x\<rfloor> = \<lfloor>y\<rfloor>" | "\<lfloor>x\<rfloor> + 1 \<le> \<lfloor>y\<rfloor>" by linarith
  then show ?thesis
  proof cases
    case 1
    then show ?thesis using le by (auto simp: round_half_even_def Let_def)
  next
    case 2
    have "round_half_even x \<le> \<lfloor>x\<rfloor> + 1" by (simp add: round_half_even_def Let_def)
    with 2 round_half_even_bounds(1) [of y] show ?thesis by linarith
  qed
qed

text \<open>A positive rational that is a whole number of units in the last place is a double.\<close>

lemma round_pos_exact:
  assumes "x = of_int k * 2 powi u" "ulp_exp x \<le> u"
  shows "round_pos x = x"
proof -
  have "x / 2 powi ulp_exp x = of_int (k * 2 ^ nat (u - ulp_exp x))"
    using assms(2) powi_add2 [of "u - ulp_exp x" "ulp_exp x"] powi_nat_int [of "u - ulp_exp x"]
    by (subst assms(1)) (simp add: field_simps)
  then show ?thesis
    by (simp only: round_pos_def round_half_even_of_int) (metis nonzero_eq_divide_eq powi_pos less_numeral_extra(3))
qed

lemma scaled_int: "u' \<le> u \<Longrightarrow> of_int k * 2 powi u / 2 powi u' = (of_int (k * 2 ^ nat (u - u')) :: rat)"
  using powi_add2 [of "u - u'" u'] powi_nat_int [of "u - u'"] by (simp add: field_simps)

lemma round_pos_le:
  assumes "x \<le> of_int k * 2 powi u" "ulp_exp x \<le> u"
  shows "round_pos x \<le> of_int k * 2 powi u"
proof -
  have "x / 2 powi ulp_exp x \<le> of_int (k * 2 ^ nat (u - ulp_exp x))"
    unfolding scaled_int [OF assms(2), symmetric] using assms(1) by (intro divide_right_mono) auto
  then have "round_half_even (x / 2 powi ulp_exp x) \<le> k * 2 ^ nat (u - ulp_exp x)"
    using round_half_even_mono round_half_even_of_int by metis
  then have "of_int (round_half_even (x / 2 powi ulp_exp x)) \<le> of_int k * 2 powi u / (2 powi ulp_exp x :: rat)"
    unfolding scaled_int [OF assms(2)] by (simp only: of_int_le_iff)
  then show ?thesis by (simp add: round_pos_def pos_le_divide_eq)
qed

lemma round_pos_ge:
  assumes "of_int k * 2 powi u \<le> x" "ulp_exp x \<le> u"
  shows "of_int k * 2 powi u \<le> round_pos x"
proof -
  have "of_int (k * 2 ^ nat (u - ulp_exp x)) \<le> x / 2 powi ulp_exp x"
    unfolding scaled_int [OF assms(2), symmetric] using assms(1) by (intro divide_right_mono) auto
  then have "k * 2 ^ nat (u - ulp_exp x) \<le> round_half_even (x / 2 powi ulp_exp x)"
    using round_half_even_mono round_half_even_of_int by metis
  then have "of_int k * 2 powi u / (2 powi ulp_exp x :: rat) \<le> of_int (round_half_even (x / 2 powi ulp_exp x))"
    unfolding scaled_int [OF assms(2)] by (simp only: of_int_le_iff)
  then show ?thesis by (simp add: round_pos_def pos_divide_le_eq)
qed

lemma ulp_exp_mono: "\<lbrakk>0 < x; x \<le> y\<rbrakk> \<Longrightarrow> ulp_exp x \<le> ulp_exp y"
  using ilog2_mono [of x y] by (simp add: ulp_exp_def)

lemma round_pos_nonneg: "0 \<le> x \<Longrightarrow> 0 \<le> round_pos x"
  using round_pos_ge [of 0 "ulp_exp x" x] by simp

lemma round_pos_mono:
  assumes "0 < x" "x \<le> y"
  shows "round_pos x \<le> round_pos y"
proof (cases "ulp_exp x = ulp_exp y")
  case True
  have "x / 2 powi ulp_exp y \<le> y / 2 powi ulp_exp y"
    using assms by (intro divide_right_mono) auto
  then have "round_half_even (x / 2 powi ulp_exp y) \<le> round_half_even (y / 2 powi ulp_exp y)"
    by (rule round_half_even_mono)
  then show ?thesis by (simp add: round_pos_def True)
next
  case False
  let ?u = "ilog2 y"
  from False ulp_exp_mono [OF assms] have lt: "ilog2 x < ?u" "ulp_exp y = ?u - 52"
    by (auto simp: ulp_exp_def max_def split: if_splits)
  have "x \<le> of_int 1 * 2 powi ?u"
    using ilog2_bounds(2) [OF assms(1)] powi_mono2 [of "ilog2 x + 1" ?u] lt(1) by simp
  then have "round_pos x \<le> of_int 1 * 2 powi ?u"
    using ulp_exp_mono [OF assms] lt(2) by (intro round_pos_le) auto
  also have "\<dots> \<le> round_pos y"
    using ilog2_bounds(1) [of y] assms lt(2) by (intro round_pos_ge) auto
  finally show ?thesis .
qed

lemma round_pos_upper: "0 < x \<Longrightarrow> round_pos x \<le> 2 powi max (ilog2 x + 1) (ulp_exp x)"
  using round_pos_le [of x 1 "max (ilog2 x + 1) (ulp_exp x)"] ilog2_bounds(2) [of x]
    powi_mono2 [of "ilog2 x + 1" "max (ilog2 x + 1) (ulp_exp x)"] by simp

lemma round_pos_idem:
  assumes "0 < x" "0 < round_pos x"
  shows "round_pos (round_pos x) = round_pos x"
proof (cases "ulp_exp (round_pos x) \<le> ulp_exp x")
  case True
  then show ?thesis
    by (intro round_pos_exact [where u = "ulp_exp x"]) (simp add: round_pos_def, simp)
next
  case False
  let ?m = "max (ilog2 x + 1) (ulp_exp x)"
  have "2 powi ilog2 (round_pos x) \<le> (2::rat) powi ?m"
    using ilog2_bounds(1) [OF assms(2)] round_pos_upper [OF assms(1)] by linarith
  then have "ilog2 (round_pos x) \<le> ?m"
    using powi_less_iff [of ?m] by (simp add: not_less [symmetric])
  with False have m: "ilog2 (round_pos x) = ?m" and u: "ulp_exp (round_pos x) \<le> ?m"
    by (auto simp: ulp_exp_def)
  from ilog2_bounds(1) [OF assms(2)] round_pos_upper [OF assms(1)] have "round_pos x = of_int 1 * 2 powi ?m"
    by (simp add: m)
  then show ?thesis using u by (rule round_pos_exact)
qed

lemmas f64_cmp_simps = f64_le.simps f64_lt.simps

lemma round64_zero [simp]: "round64 0 = Fin 0"
  by (simp add: round64_def)

lemma round64_pos: "0 < x \<Longrightarrow> round64 x = (if 2 ^ 1024 \<le> round_pos x then PInf else Fin (round_pos x))"
  using round_pos_nonneg [of x] power_increasing [of 0 1024 "2::rat"] by (auto simp: round64_def Let_def)

lemma round64_nonneg: "0 \<le> x \<Longrightarrow> round64 x = PInf \<or> (\<exists>r\<ge>0. round64 x = Fin r)"
  using round_pos_nonneg [of x] by (cases "x = 0") (auto simp: round64_pos)

lemma round64_mono:
  assumes "0 \<le> x" "x \<le> y" "round64 y = Fin s"
  shows "\<exists>r. round64 x = Fin r \<and> 0 \<le> r \<and> r \<le> s"
proof (cases "x = 0")
  case True
  then show ?thesis using round64_nonneg [of y] assms by auto
next
  case False
  then have x: "0 < x" "0 < y" using assms by auto
  then show ?thesis
    using assms round_pos_mono [of x y] round_pos_nonneg [of x] by (auto simp: round64_pos split: if_splits)
qed

lemma round64_idem: "\<lbrakk>0 \<le> x; round64 x = Fin r\<rbrakk> \<Longrightarrow> round64 r = Fin r"
  using round_pos_idem [of x] round_pos_nonneg [of x]
  by (cases "x = 0"; cases "r = 0") (auto simp: round64_pos split: if_splits)

text \<open>The values the type \<open>f64\<close> has: a rational that is not its own rounding is none of them.\<close>

fun is_f64 :: "f64 \<Rightarrow> bool" where
  "is_f64 (Fin x) = (round64 x = Fin x)"
| "is_f64 _ = True"

text \<open>Subtracting one from a double in \<open>[1, 2^53)\<close> is exact.\<close>

lemma round64_minus_one:
  assumes "round64 t = Fin t" "1 \<le> t" "t < 2 ^ 53"
  shows "round64 (t - 1) = Fin (t - 1)"
proof (cases "t = 1")
  case False
  define u where "u = ulp_exp t"
  have e: "0 \<le> ilog2 t" "ilog2 t \<le> 52"
    using ilog2_bounds [of t] assms powi_less_iff [of 0 "ilog2 t + 1"] powi_less_iff [of "ilog2 t" 53]
    by (auto simp: power_int_def)
  then have u: "u \<le> 0" by (simp add: u_def ulp_exp_def)
  from assms have "round_pos t = t" by (simp add: round64_pos split: if_splits)
  then obtain m where m: "t = of_int m * 2 powi u"
    unfolding round_pos_def u_def by metis
  have "1 = (of_int (2 ^ nat (- u)) :: rat) * 2 powi u"
    using powi_add2 [of "- u" u] powi_nat_int [of "- u"] u by simp
  with m have "t - 1 = of_int (m - 2 ^ nat (- u)) * 2 powi u"
    by (simp add: algebra_simps)
  moreover have "ulp_exp (t - 1) \<le> u"
    using assms False by (auto simp: u_def intro!: ulp_exp_mono)
  ultimately have "round_pos (t - 1) = t - 1" by (rule round_pos_exact)
  moreover have "t - 1 < 2 ^ 1024"
    using assms(3) power_increasing [of 53 1024 "2::rat"] by simp
  ultimately show ?thesis using assms False by (simp add: round64_pos)
qed simp

end
