(* ===== verification/Policy.thy ===== *)
theory Policy
  imports Identifiers Float64
begin

text \<open>
  The crate \<open>nxb-policy\<close>: the operator's policy, its validation and compilation, the tests the
  gateway asks of a compiled policy, and the derivation of a narrower child policy. A
  \<open>DateTime<Utc>\<close> is an integer instant. The TOML parser is not under \<open>src/\<close>; policies are taken
  as parsed. A \<open>Url\<close> of the crate \<open>url\<close> is the record of what its accessors return.
\<close>

section \<open>Data\<close>

record url =
  url_scheme :: string
  url_username :: string
  url_password :: "string option"
  url_host_str :: "string option"
  url_port_or_known_default :: "u16 option"
  url_path :: string
  url_query :: "string option"
  url_fragment :: "string option"

record program_policy =
  program_name :: string
  program_platform :: string
  program_policy_url :: "string option"

record scope_policy =
  scope_include_hosts :: "string fset"
  scope_exclude_hosts :: "string fset"
  scope_allowed_schemes :: "string fset"
  scope_allowed_methods :: "string fset"
  scope_allow_subdomains :: bool

record automation_policy =
  active_testing :: bool
  credential_bruteforce :: bool
  destructive_testing :: bool
  oob_callbacks :: bool
  auto_max_requests_per_second :: f64
  auto_max_concurrency :: u16
  auto_max_total_requests :: u64

record authorization_policy =
  auth_confirmed :: bool
  auth_researcher :: string
  auth_policy_snapshot_sha256 :: string
  auth_expires_at :: int

record target_policy =
  schema_version :: u32
  program :: program_policy
  scope :: scope_policy
  automation :: automation_policy
  authorization :: authorization_policy

record child_policy =
  child_include_hosts :: "string fset option"
  child_exclude_hosts :: "string fset"
  child_allowed_schemes :: "string fset option"
  child_allowed_methods :: "string fset option"
  child_allow_subdomains :: "bool option"
  child_active_testing :: "bool option"
  child_oob_callbacks :: "bool option"
  child_max_requests_per_second :: "f64 option"
  child_max_concurrency :: "u16 option"
  child_max_total_requests :: "u64 option"
  child_expires_at :: "int option"

text \<open>\<open>ChildPolicy::default()\<close>\<close>

definition child_policy_default :: child_policy where
  "child_policy_default =
     \<lparr>child_include_hosts = None, child_exclude_hosts = {||}, child_allowed_schemes = None,
      child_allowed_methods = None, child_allow_subdomains = None, child_active_testing = None,
      child_oob_callbacks = None, child_max_requests_per_second = None,
      child_max_concurrency = None, child_max_total_requests = None, child_expires_at = None\<rparr>"

record compiled_policy =
  inner :: target_policy
  include_hosts :: "string fset"
  exclude_hosts :: "string fset"
  allowed_schemes :: "string fset"
  allowed_methods :: "string fset"

datatype policy_error = PolicyParse string | PolicyInvalid string | PolicyBroadening string

definition policy_schema_version :: u32 where "policy_schema_version = 1"
definition max_requests_per_second_cap :: f64 where "max_requests_per_second_cap = Fin 5"
definition max_concurrency_cap :: u16 where "max_concurrency_cap = 8"
definition max_total_requests_cap :: u64 where "max_total_requests_cap = 100000"

definition allowed_methods_const :: "string list" where
  "allowed_methods_const =
     [''GET'', ''HEAD'', ''OPTIONS'', ''POST'', ''PUT'', ''PATCH'', ''DELETE'']"

section \<open>Validation\<close>

definition require_finite_positive :: "string \<Rightarrow> f64 \<Rightarrow> policy_error + unit" where
  "require_finite_positive field v =
     (if \<not> f64_is_finite v \<or> f64_le v (Fin 0)
      then Inl (PolicyInvalid (field @ '' must be finite and greater than zero''))
      else Inr ())"

definition require_subset :: "string \<Rightarrow> string fset \<Rightarrow> string fset \<Rightarrow> policy_error + unit" where
  "require_subset field_name child parent =
     (case find (\<lambda>v. v |\<notin>| parent) (sorted_list_of_fset child) of
        Some v \<Rightarrow>
          Inl (PolicyBroadening (''child '' @ field_name @ '' '' @ v @ '' is not permitted by the parent''))
      | None \<Rightarrow> Inr ())"

text \<open>The loop over the labels of a host.\<close>

fun check_labels :: "string \<Rightarrow> string \<Rightarrow> string list \<Rightarrow> policy_error + unit" where
  "check_labels host field_name [] = Inr ()"
| "check_labels host field_name (label # labels) =
     (if \<not> is_valid_label label
      then Inl (PolicyInvalid (field_name @ '' contains an invalid DNS label in host: '' @ host))
      else check_labels host field_name labels)"

definition normalize_dns_host :: "string \<Rightarrow> string \<Rightarrow> policy_error + string" where
  "normalize_dns_host host field_name =
     (let normalized = normalize_host host in
      if normalized = [] \<or> length normalized > 253 \<or> contains_str ''://'' normalized
        \<or> CHR ''/'' \<in> set normalized \<or> CHR 0x5C \<in> set normalized
        \<or> CHR ''*'' \<in> set normalized \<or> CHR '':'' \<in> set normalized
      then Inl (PolicyInvalid (field_name @ '' contains an invalid DNS host: '' @ host))
      else bind_r (check_labels host field_name (split_on (CHR ''.'') normalized))
             (\<lambda>_. Inr normalized))"

definition normalize_host_set :: "string fset \<Rightarrow> string \<Rightarrow> policy_error + string fset" where
  "normalize_host_set hosts field_name = collect_set (\<lambda>h. normalize_dns_host h field_name) hosts"

definition normalize_scheme :: "string \<Rightarrow> policy_error + string" where
  "normalize_scheme s =
     (let normalized = to_ascii_lowercase (trim s) in
      if normalized \<noteq> ''http'' \<and> normalized \<noteq> ''https''
      then Inl (PolicyInvalid (''unsupported scheme: '' @ s)) else Inr normalized)"

definition normalize_schemes :: "string fset \<Rightarrow> policy_error + string fset" where
  "normalize_schemes schemes =
     (if schemes = {||} then Inl (PolicyInvalid ''allowed_schemes must not be empty'')
      else collect_set normalize_scheme schemes)"

definition normalize_method :: "string \<Rightarrow> policy_error + string" where
  "normalize_method m =
     (let normalized = to_ascii_uppercase (trim m) in
      if normalized \<notin> set allowed_methods_const
      then Inl (PolicyInvalid (''unsupported HTTP method: '' @ m)) else Inr normalized)"

definition normalize_methods :: "string fset \<Rightarrow> policy_error + string fset" where
  "normalize_methods methods =
     (if methods = {||} then Inl (PolicyInvalid ''allowed_methods must not be empty'')
      else collect_set normalize_method methods)"

definition validate_top_level :: "target_policy \<Rightarrow> int \<Rightarrow> policy_error + unit" where
  "validate_top_level p now =
     (let a = automation p; z = authorization p in
      if schema_version p \<noteq> policy_schema_version then
        Inl (PolicyInvalid (''unsupported schema_version '' @ decimal (unat (schema_version p)) @ ''; expected 1''))
      else if trim (program_name (program p)) = [] \<or> trim (program_platform (program p)) = [] then
        Inl (PolicyInvalid ''program name and platform must be non-empty'')
      else if scope_include_hosts (scope p) = {||} then
        Inl (PolicyInvalid ''at least one include host is required'')
      else if \<not> auth_confirmed z then
        Inl (PolicyInvalid ''explicit authorization confirmation is required'')
      else if trim (auth_researcher z) = [] then
        Inl (PolicyInvalid ''authorization researcher must be non-empty'')
      else if auth_expires_at z \<le> now then
        Inl (PolicyInvalid ''authorization has expired or is not in the future'')
      else if \<not> is_lower_hex_sha256 (auth_policy_snapshot_sha256 z) then
        Inl (PolicyInvalid ''policy_snapshot_sha256 must be exactly 64 lowercase hexadecimal characters'')
      else if credential_bruteforce a then Inl (PolicyInvalid ''credential brute force is hard-denied'')
      else if destructive_testing a then Inl (PolicyInvalid ''destructive testing is hard-denied'')
      else bind_r (require_finite_positive ''max_requests_per_second'' (auto_max_requests_per_second a)) (\<lambda>_.
        if f64_lt max_requests_per_second_cap (auto_max_requests_per_second a) then
          Inl (PolicyInvalid ''max_requests_per_second must be at most 5'')
        else if auto_max_concurrency a = 0 \<or> auto_max_concurrency a > max_concurrency_cap then
          Inl (PolicyInvalid ''max_concurrency must be between 1 and 8'')
        else if auto_max_total_requests a = 0 \<or> auto_max_total_requests a > max_total_requests_cap then
          Inl (PolicyInvalid ''max_total_requests must be between 1 and 100000'')
        else Inr ()))"

section \<open>Compilation and the questions asked of a policy\<close>

definition compile :: "target_policy \<Rightarrow> int \<Rightarrow> policy_error + compiled_policy" where
  "compile p now =
     bind_r (validate_top_level p now) (\<lambda>_.
     bind_r (normalize_host_set (scope_include_hosts (scope p)) ''include_hosts'') (\<lambda>inc.
     bind_r (normalize_host_set (scope_exclude_hosts (scope p)) ''exclude_hosts'') (\<lambda>exc.
     bind_r (normalize_schemes (scope_allowed_schemes (scope p))) (\<lambda>schemes.
     bind_r (normalize_methods (scope_allowed_methods (scope p))) (\<lambda>methods.
       if \<exists>host |\<in>| inc. host |\<in>| exc
       then Inl (PolicyInvalid ''a host cannot be present in both include_hosts and exclude_hosts'')
       else Inr \<lparr>inner = p, include_hosts = inc, exclude_hosts = exc,
                 allowed_schemes = schemes, allowed_methods = methods\<rparr>)))))"

abbreviation maximum_requests_per_second :: "compiled_policy \<Rightarrow> f64" where
  "maximum_requests_per_second c \<equiv> auto_max_requests_per_second (automation (inner c))"

abbreviation maximum_concurrency :: "compiled_policy \<Rightarrow> u16" where
  "maximum_concurrency c \<equiv> auto_max_concurrency (automation (inner c))"

abbreviation maximum_total_requests :: "compiled_policy \<Rightarrow> u64" where
  "maximum_total_requests c \<equiv> auto_max_total_requests (automation (inner c))"

abbreviation authorization_expires_at :: "compiled_policy \<Rightarrow> int" where
  "authorization_expires_at c \<equiv> auth_expires_at (authorization (inner c))"

abbreviation policy_snapshot_sha256 :: "compiled_policy \<Rightarrow> string" where
  "policy_snapshot_sha256 c \<equiv> auth_policy_snapshot_sha256 (authorization (inner c))"

text \<open>The closure of \<open>matches_host_set\<close> on one host.\<close>

definition matches_host :: "string \<Rightarrow> bool \<Rightarrow> string \<Rightarrow> bool" where
  "matches_host candidate allow_subdomains host =
     (candidate = host
      \<or> (allow_subdomains \<and> length candidate > length host
         \<and> drop (length candidate - length host) candidate = host
         \<and> candidate ! (length candidate - length host - 1) = CHR ''.''))"

definition matches_host_set :: "string \<Rightarrow> string fset \<Rightarrow> bool \<Rightarrow> bool" where
  "matches_host_set candidate hosts allow_subdomains =
     fBex hosts (matches_host candidate allow_subdomains)"

definition allows_host :: "compiled_policy \<Rightarrow> string \<Rightarrow> bool" where
  "allows_host c candidate0 =
     (let candidate = normalize_host candidate0 in
      if matches_host_set candidate (exclude_hosts c) True then False
      else matches_host_set candidate (include_hosts c) (scope_allow_subdomains (scope (inner c))))"

definition allows_request :: "compiled_policy \<Rightarrow> url \<Rightarrow> string \<Rightarrow> bool" where
  "allows_request c u m =
     (if url_username u \<noteq> [] \<or> url_password u \<noteq> None then False
      else case url_host_str u of
        None \<Rightarrow> False
      | Some host \<Rightarrow>
          url_scheme u |\<in>| allowed_schemes c \<and> to_ascii_uppercase m |\<in>| allowed_methods c
          \<and> allows_host c host)"

section \<open>Narrowing\<close>

text \<open>The blocks of \<open>narrow\<close>, one per field of the child, in their order.\<close>

definition narrow_include_hosts ::
  "compiled_policy \<Rightarrow> child_policy \<Rightarrow> target_policy \<Rightarrow> policy_error + target_policy" where
  "narrow_include_hosts c child n =
     (case child_include_hosts child of
        None \<Rightarrow> Inr n
      | Some hosts \<Rightarrow>
          if hosts = {||} then Inl (PolicyInvalid ''child include_hosts must not be empty when supplied'')
          else bind_r (normalize_host_set hosts ''child include_hosts'') (\<lambda>normalized.
            case find (\<lambda>host. \<not> allows_host c host) (sorted_list_of_fset normalized) of
              Some host \<Rightarrow> Inl (PolicyBroadening (''host '' @ host @ '' is not permitted by the parent''))
            | None \<Rightarrow> Inr (n\<lparr>scope := (scope n)\<lparr>scope_include_hosts := normalized\<rparr>\<rparr>)))"

definition narrow_exclude_hosts :: "child_policy \<Rightarrow> target_policy \<Rightarrow> policy_error + target_policy" where
  "narrow_exclude_hosts child n =
     (if child_exclude_hosts child = {||} then Inr n
      else bind_r (normalize_host_set (child_exclude_hosts child) ''child exclude_hosts'') (\<lambda>exclusions.
        Inr (n\<lparr>scope := (scope n)\<lparr>scope_exclude_hosts := scope_exclude_hosts (scope n) |\<union>| exclusions\<rparr>\<rparr>)))"

definition narrow_schemes ::
  "compiled_policy \<Rightarrow> child_policy \<Rightarrow> target_policy \<Rightarrow> policy_error + target_policy" where
  "narrow_schemes c child n =
     (case child_allowed_schemes child of
        None \<Rightarrow> Inr n
      | Some schemes \<Rightarrow>
          bind_r (normalize_schemes schemes) (\<lambda>normalized.
          bind_r (require_subset ''scheme'' normalized (allowed_schemes c)) (\<lambda>_.
            Inr (n\<lparr>scope := (scope n)\<lparr>scope_allowed_schemes := normalized\<rparr>\<rparr>))))"

definition narrow_methods ::
  "compiled_policy \<Rightarrow> child_policy \<Rightarrow> target_policy \<Rightarrow> policy_error + target_policy" where
  "narrow_methods c child n =
     (case child_allowed_methods child of
        None \<Rightarrow> Inr n
      | Some methods \<Rightarrow>
          bind_r (normalize_methods methods) (\<lambda>normalized.
          bind_r (require_subset ''HTTP method'' normalized (allowed_methods c)) (\<lambda>_.
            Inr (n\<lparr>scope := (scope n)\<lparr>scope_allowed_methods := normalized\<rparr>\<rparr>))))"

definition narrow_flags ::
  "compiled_policy \<Rightarrow> child_policy \<Rightarrow> target_policy \<Rightarrow> policy_error + target_policy" where
  "narrow_flags c child n0 =
     bind_r (case child_allow_subdomains child of
        None \<Rightarrow> Inr n0
      | Some v \<Rightarrow>
          if v \<and> \<not> scope_allow_subdomains (scope (inner c))
          then Inl (PolicyBroadening ''child cannot enable subdomains when the parent disables them'')
          else Inr (n0\<lparr>scope := (scope n0)\<lparr>scope_allow_subdomains := v\<rparr>\<rparr>)) (\<lambda>n1.
     bind_r (case child_active_testing child of
        None \<Rightarrow> Inr n1
      | Some v \<Rightarrow>
          if v \<and> \<not> active_testing (automation (inner c))
          then Inl (PolicyBroadening ''child cannot enable active testing'')
          else Inr (n1\<lparr>automation := (automation n1)\<lparr>active_testing := v\<rparr>\<rparr>)) (\<lambda>n2.
     case child_oob_callbacks child of
        None \<Rightarrow> Inr n2
      | Some v \<Rightarrow>
          if v \<and> \<not> oob_callbacks (automation (inner c))
          then Inl (PolicyBroadening ''child cannot enable out-of-band callbacks'')
          else Inr (n2\<lparr>automation := (automation n2)\<lparr>oob_callbacks := v\<rparr>\<rparr>)))"

definition narrow_limits ::
  "compiled_policy \<Rightarrow> child_policy \<Rightarrow> target_policy \<Rightarrow> policy_error + target_policy" where
  "narrow_limits c child n0 =
     bind_r (case child_max_requests_per_second child of
        None \<Rightarrow> Inr n0
      | Some v \<Rightarrow>
          bind_r (require_finite_positive ''max_requests_per_second'' v) (\<lambda>_.
            if f64_lt (maximum_requests_per_second c) v
            then Inl (PolicyBroadening ''child request rate exceeds the parent'')
            else Inr (n0\<lparr>automation := (automation n0)\<lparr>auto_max_requests_per_second := v\<rparr>\<rparr>))) (\<lambda>n1.
     bind_r (case child_max_concurrency child of
        None \<Rightarrow> Inr n1
      | Some v \<Rightarrow>
          if v = 0 then Inl (PolicyInvalid ''child max_concurrency must be greater than zero'')
          else if v > maximum_concurrency c
            then Inl (PolicyBroadening ''child concurrency exceeds the parent'')
          else Inr (n1\<lparr>automation := (automation n1)\<lparr>auto_max_concurrency := v\<rparr>\<rparr>)) (\<lambda>n2.
     case child_max_total_requests child of
        None \<Rightarrow> Inr n2
      | Some v \<Rightarrow>
          if v = 0 then Inl (PolicyInvalid ''child max_total_requests must be greater than zero'')
          else if v > maximum_total_requests c
            then Inl (PolicyBroadening ''child request budget exceeds the parent'')
          else Inr (n2\<lparr>automation := (automation n2)\<lparr>auto_max_total_requests := v\<rparr>\<rparr>)))"

definition narrow_expiry ::
  "compiled_policy \<Rightarrow> child_policy \<Rightarrow> int \<Rightarrow> target_policy \<Rightarrow> policy_error + target_policy" where
  "narrow_expiry c child now n =
     (case child_expires_at child of
        None \<Rightarrow> Inr n
      | Some v \<Rightarrow>
          if v \<le> now then Inl (PolicyInvalid ''child authorization has expired or is not in the future'')
          else if v > authorization_expires_at c
            then Inl (PolicyBroadening ''child authorization outlives the parent'')
          else Inr (n\<lparr>authorization := (authorization n)\<lparr>auth_expires_at := v\<rparr>\<rparr>))"

definition narrow :: "compiled_policy \<Rightarrow> child_policy \<Rightarrow> int \<Rightarrow> policy_error + compiled_policy" where
  "narrow c child now =
     bind_r (narrow_include_hosts c child (inner c)) (\<lambda>n.
     bind_r (narrow_exclude_hosts child n) (\<lambda>n.
     bind_r (narrow_schemes c child n) (\<lambda>n.
     bind_r (narrow_methods c child n) (\<lambda>n.
     bind_r (narrow_flags c child n) (\<lambda>n.
     bind_r (narrow_limits c child n) (\<lambda>n.
     bind_r (narrow_expiry c child now n) (\<lambda>n.
       compile n now)))))))"

section \<open>Facts on the normalisations\<close>

lemma check_labels_Inr: "check_labels host f ls = Inr u \<longleftrightarrow> list_all is_valid_label ls"
  by (induction ls) auto

lemma contains_str_set: "contains_str p t \<Longrightarrow> set p \<subseteq> set t"
proof (induction t)
  case (Cons c t)
  then show ?case using set_mono_prefix [of p "c # t"] by auto
qed simp

lemma normalize_dns_host_Inr:
  "normalize_dns_host h f = Inr n \<longleftrightarrow>
     n = normalize_host h \<and> length n \<le> 253 \<and> list_all is_valid_label (split_on (CHR ''.'') n)"
proof
  assume "normalize_dns_host h f = Inr n"
  then show "n = normalize_host h \<and> length n \<le> 253 \<and> list_all is_valid_label (split_on (CHR ''.'') n)"
    by (auto simp: normalize_dns_host_def Let_def bind_r_Inr check_labels_Inr split: if_splits)
next
  assume n: "n = normalize_host h \<and> length n \<le> 253 \<and> list_all is_valid_label (split_on (CHR ''.'') n)"
  then have "list_all is_host_byte n"
    using labels_host_bytes by (auto simp: list_all_iff)
  then have bad: "c \<notin> set n" if "c \<in> {CHR ''/'', CHR 0x5C, CHR ''*'', CHR '':''}" for c
    using that by (auto simp: list_all_iff is_host_byte_def byte_class_defs byte_def)
  then have "\<not> contains_str ''://'' n" using contains_str_set [of "''://''" n] by auto
  moreover have "check_labels h f (split_on (CHR ''.'') n) = Inr ()" "n \<noteq> []" "normalize_host h = n"
      "length n \<le> 253"
    using n labels_last(1) [of n] unfolding check_labels_Inr by blast+
  ultimately show "normalize_dns_host h f = Inr n"
    using bad by (simp add: normalize_dns_host_def)
qed

lemma normalize_host_set_Inr:
  "normalize_host_set s f = Inr t \<longleftrightarrow>
     t = normalize_host |`| s
     \<and> (\<forall>h |\<in>| t. length h \<le> 253 \<and> list_all is_valid_label (split_on (CHR ''.'') h))"
proof -
  define ok where "ok h \<longleftrightarrow> length h \<le> 253 \<and> list_all is_valid_label (split_on (CHR ''.'') h)" for h
  have nd: "normalize_dns_host h f = Inr y \<longleftrightarrow> y = normalize_host h \<and> ok (normalize_host h)" for h y
    by (auto simp: normalize_dns_host_Inr ok_def)
  have "(projr \<circ> (\<lambda>h. normalize_dns_host h f)) |`| s = normalize_host |`| s"
    if "\<forall>h |\<in>| s. ok (normalize_host h)"
    using that by (intro fset.map_cong) (auto simp: nd [THEN iffD2])
  then have "normalize_host_set s f = Inr t \<longleftrightarrow>
      (\<forall>h |\<in>| s. ok (normalize_host h)) \<and> t = normalize_host |`| s"
    by (auto simp only: normalize_host_set_def collect_set_Inr nd)
  then show ?thesis by (auto simp: ok_def [symmetric])
qed

lemma normalize_host_set_fixed:
  "\<lbrakk>normalize_host_set s f = Inr t; h |\<in>| t\<rbrakk> \<Longrightarrow> normalize_host h = h"
  unfolding normalize_host_set_Inr using normalize_host_idem by blast

lemma normalize_host_set_again:
  assumes "normalize_host_set s f = Inr t"
  shows "normalize_host_set t g = Inr t"
proof -
  have "normalize_host |`| t = t"
    using normalize_host_set_fixed [OF assms] by (auto simp: fimage_iff)
  then show ?thesis using assms by (simp add: normalize_host_set_Inr)
qed

lemma normalize_scheme_Inr:
  "normalize_scheme x = Inr n \<longleftrightarrow> n = to_ascii_lowercase (trim x) \<and> n \<in> {''http'', ''https''}"
  by (auto simp: normalize_scheme_def Let_def)

lemma normalize_method_Inr:
  "normalize_method x = Inr n \<longleftrightarrow> n = to_ascii_uppercase (trim x) \<and> n \<in> set allowed_methods_const"
  by (auto simp: normalize_method_def Let_def)

lemma normalize_scheme_fixed: "n \<in> {''http'', ''https''} \<Longrightarrow> normalize_scheme n = Inr n"
proof -
  have "normalize_scheme ''http'' = Inr ''http''" "normalize_scheme ''https'' = Inr ''https''"
    by code_simp+
  then show "n \<in> {''http'', ''https''} \<Longrightarrow> normalize_scheme n = Inr n" by blast
qed

lemma normalize_method_fixed: "n \<in> set allowed_methods_const \<Longrightarrow> normalize_method n = Inr n"
proof -
  have "list_all (\<lambda>m. normalize_method m = Inr m) allowed_methods_const" by code_simp
  then show "n \<in> set allowed_methods_const \<Longrightarrow> normalize_method n = Inr n" by (simp add: list_all_iff)
qed

lemma collect_set_again:
  assumes "collect_set f s = Inr t" "\<And>x y. f x = Inr y \<Longrightarrow> f y = Inr y"
  shows "collect_set f t = Inr t"
proof -
  have fixed: "f y = Inr y" if "y |\<in>| t" for y
    using assms that by (auto simp: collect_set_Inr)
  then have "(projr \<circ> f) |`| t = t" by (auto simp: fimage_iff)
  with fixed show ?thesis by (auto simp: collect_set_Inr)
qed

lemma normalize_schemes_Inr:
  assumes "normalize_schemes s = Inr t"
  shows "t \<noteq> {||}" "fset t \<subseteq> {''http'', ''https''}" "normalize_schemes t = Inr t"
proof -
  have c: "collect_set normalize_scheme s = Inr t" and ne: "s \<noteq> {||}"
    using assms by (auto simp: normalize_schemes_def split: if_splits)
  show t: "t \<noteq> {||}" using c ne by (auto simp: collect_set_Inr)
  show "fset t \<subseteq> {''http'', ''https''}"
    using c by (auto simp: collect_set_Inr) (metis normalize_scheme_Inr sum.sel(2) insertE emptyE)
  show "normalize_schemes t = Inr t"
    using collect_set_again [OF c] t normalize_scheme_fixed normalize_scheme_Inr
    by (simp add: normalize_schemes_def)
qed

lemma normalize_methods_Inr:
  assumes "normalize_methods s = Inr t"
  shows "t \<noteq> {||}" "fset t \<subseteq> set allowed_methods_const" "normalize_methods t = Inr t"
proof -
  have c: "collect_set normalize_method s = Inr t" and ne: "s \<noteq> {||}"
    using assms by (auto simp: normalize_methods_def split: if_splits)
  show t: "t \<noteq> {||}" using c ne by (auto simp: collect_set_Inr)
  show "fset t \<subseteq> set allowed_methods_const"
    using c by (auto simp: collect_set_Inr) (metis normalize_method_Inr sum.sel(2))
  show "normalize_methods t = Inr t"
    using collect_set_again [OF c] t normalize_method_fixed normalize_method_Inr
    by (simp add: normalize_methods_def)
qed

lemma require_subset_Inr: "require_subset f a b = Inr u \<longleftrightarrow> a |\<subseteq>| b"
proof -
  have "find (\<lambda>v. v |\<notin>| b) (sorted_list_of_fset a) = None \<longleftrightarrow> a |\<subseteq>| b"
    by (auto simp: find_None_iff)
  then show ?thesis by (cases "find (\<lambda>v. v |\<notin>| b) (sorted_list_of_fset a)") (simp_all add: require_subset_def)
qed

section \<open>Host matching by labels\<close>

abbreviation labels :: "string \<Rightarrow> string list" where
  "labels \<equiv> split_on (CHR ''.'')"

fun join_labels :: "string list \<Rightarrow> string" where
  "join_labels [] = []"
| "join_labels [l] = l"
| "join_labels (l # ls) = l @ CHR ''.'' # join_labels ls"

lemma join_labels_append:
  "xs \<noteq> [] \<Longrightarrow> ys \<noteq> [] \<Longrightarrow> join_labels (xs @ ys) = join_labels xs @ CHR ''.'' # join_labels ys"
proof (induction xs rule: join_labels.induct)
  case (2 l)
  then show ?case by (cases ys) auto
qed auto

lemma join_labels_split: "join_labels (labels h) = h"
proof (induction h)
  case (Cons c h)
  obtain q qs where "labels h = q # qs" by (cases "labels h") auto
  with Cons show ?case by (cases qs) auto
qed simp

lemma labels_append: "labels (p @ CHR ''.'' # h) = labels p @ labels h"
proof (induction p)
  case (Cons c p)
  obtain q qs where "labels p = q # qs" by (cases "labels p") auto
  with Cons show ?case by auto
qed simp

lemma matches_host_conv: "matches_host c sub h \<longleftrightarrow> c = h \<or> (sub \<and> (\<exists>p. c = p @ CHR ''.'' # h))"
proof -
  have "(length c > length h \<and> drop (length c - length h) c = h \<and> c ! (length c - length h - 1) = CHR ''.'')
      \<longleftrightarrow> (\<exists>p. c = p @ CHR ''.'' # h)" (is "?l \<longleftrightarrow> ?r")
  proof
    assume l: ?l
    let ?n = "length c - length h - 1"
    have n: "?n < length c" "Suc ?n = length c - length h" using l by linarith+
    then have e: "c = take ?n c @ c ! ?n # drop (Suc ?n) c" by (intro id_take_nth_drop)
    have A: "c ! ?n = CHR ''.''" and B: "drop (Suc ?n) c = h" using l unfolding n(2) by auto
    show ?r using e unfolding A B by (rule exI)
  qed (auto simp: nth_append)
  then show ?thesis by (auto simp: matches_host_def)
qed

lemma matches_host_labels:
  "matches_host c sub h \<longleftrightarrow> (if sub then suffix (labels h) (labels c) else labels h = labels c)"
proof -
  have eq: "labels h = labels c \<longleftrightarrow> c = h" by (metis join_labels_split)
  have "suffix (labels h) (labels c) \<longleftrightarrow> c = h \<or> (\<exists>p. c = p @ CHR ''.'' # h)"
  proof
    assume "suffix (labels h) (labels c)"
    then obtain zs where zs: "labels c = zs @ labels h" by (auto simp: suffix_def)
    then have "join_labels (zs @ labels h) = c" by (metis join_labels_split)
    then show "c = h \<or> (\<exists>p. c = p @ CHR ''.'' # h)"
      by (cases "zs = []") (auto simp: join_labels_append join_labels_split)
  qed (auto simp: labels_append suffix_def)
  then show ?thesis by (auto simp: matches_host_conv eq)
qed

lemma matches_host_trans:
  "\<lbrakk>matches_host c s1 h; matches_host h s2 g; s1 \<longrightarrow> s2\<rbrakk> \<Longrightarrow> matches_host c s2 g"
  by (auto simp: matches_host_conv)

section \<open>What compilation guarantees\<close>

lemma validate_top_level_Inr:
  assumes "validate_top_level p now = Inr u"
  shows "auth_confirmed (authorization p)" "now < auth_expires_at (authorization p)"
    "is_lower_hex_sha256 (auth_policy_snapshot_sha256 (authorization p))"
    "\<not> credential_bruteforce (automation p)" "\<not> destructive_testing (automation p)"
    "\<exists>r. auto_max_requests_per_second (automation p) = Fin r \<and> 0 < r \<and> r \<le> 5"
    "1 \<le> auto_max_concurrency (automation p)" "auto_max_concurrency (automation p) \<le> 8"
    "1 \<le> auto_max_total_requests (automation p)" "auto_max_total_requests (automation p) \<le> 100000"
    "scope_include_hosts (scope p) \<noteq> {||}"
proof -
  have a: "auth_confirmed (authorization p) \<and> now < auth_expires_at (authorization p)
      \<and> is_lower_hex_sha256 (auth_policy_snapshot_sha256 (authorization p))
      \<and> \<not> credential_bruteforce (automation p) \<and> \<not> destructive_testing (automation p)
      \<and> require_finite_positive ''max_requests_per_second'' (auto_max_requests_per_second (automation p)) = Inr ()
      \<and> \<not> f64_lt max_requests_per_second_cap (auto_max_requests_per_second (automation p))
      \<and> auto_max_concurrency (automation p) \<noteq> 0 \<and> auto_max_concurrency (automation p) \<le> max_concurrency_cap
      \<and> auto_max_total_requests (automation p) \<noteq> 0 \<and> auto_max_total_requests (automation p) \<le> max_total_requests_cap
      \<and> scope_include_hosts (scope p) \<noteq> {||}"
    using assms by (simp add: validate_top_level_def Let_def bind_r_Inr not_le not_less split: if_split_asm)
  then show "\<exists>r. auto_max_requests_per_second (automation p) = Fin r \<and> 0 < r \<and> r \<le> 5"
    by (cases "auto_max_requests_per_second (automation p)")
      (auto simp: require_finite_positive_def max_requests_per_second_cap_def split: if_split_asm)
  show "1 \<le> auto_max_concurrency (automation p)" "1 \<le> auto_max_total_requests (automation p)"
    using a by (simp_all add: word_le_nat_alt Suc_le_eq unat_gt_0)
  show "auth_confirmed (authorization p)" "now < auth_expires_at (authorization p)"
    "is_lower_hex_sha256 (auth_policy_snapshot_sha256 (authorization p))"
    "\<not> credential_bruteforce (automation p)" "\<not> destructive_testing (automation p)"
    "auto_max_concurrency (automation p) \<le> 8" "auto_max_total_requests (automation p) \<le> 100000"
    "scope_include_hosts (scope p) \<noteq> {||}"
    using a by (simp_all add: max_concurrency_cap_def max_total_requests_cap_def)
qed

lemma compile_Inr:
  "compile p now = Inr c \<longleftrightarrow>
     inner c = p \<and> validate_top_level p now = Inr ()
     \<and> normalize_host_set (scope_include_hosts (scope p)) ''include_hosts'' = Inr (include_hosts c)
     \<and> normalize_host_set (scope_exclude_hosts (scope p)) ''exclude_hosts'' = Inr (exclude_hosts c)
     \<and> normalize_schemes (scope_allowed_schemes (scope p)) = Inr (allowed_schemes c)
     \<and> normalize_methods (scope_allowed_methods (scope p)) = Inr (allowed_methods c)
     \<and> include_hosts c |\<inter>| exclude_hosts c = {||}"
proof -
  have disj: "(\<exists>h |\<in>| a. h |\<in>| b) \<longleftrightarrow> a |\<inter>| b \<noteq> {||}" for a b :: "string fset" by auto
  show ?thesis
    by (cases c) (auto simp: compile_def bind_r_Inr disj split: if_split_asm)
qed

lemma compile_parts:
  assumes "compile p now = Inr c"
  shows "inner c = p" "include_hosts c = normalize_host |`| scope_include_hosts (scope p)"
    "exclude_hosts c = normalize_host |`| scope_exclude_hosts (scope p)"
    "\<And>h. h |\<in>| include_hosts c \<Longrightarrow> normalize_host h = h"
    "\<And>h. h |\<in>| include_hosts c \<Longrightarrow> length h \<le> 253 \<and> list_all is_valid_label (labels h)"
proof -
  note c = assms [unfolded compile_Inr]
  have inc: "normalize_host_set (scope_include_hosts (scope p)) ''include_hosts'' = Inr (include_hosts c)"
    and exc: "normalize_host_set (scope_exclude_hosts (scope p)) ''exclude_hosts'' = Inr (exclude_hosts c)"
    using c by blast+
  show "inner c = p" using c by blast
  show "include_hosts c = normalize_host |`| scope_include_hosts (scope p)"
    "\<And>h. h |\<in>| include_hosts c \<Longrightarrow> length h \<le> 253 \<and> list_all is_valid_label (labels h)"
    using inc unfolding normalize_host_set_Inr by blast+
  show "exclude_hosts c = normalize_host |`| scope_exclude_hosts (scope p)"
    using exc unfolding normalize_host_set_Inr by blast
  show "\<And>h. h |\<in>| include_hosts c \<Longrightarrow> normalize_host h = h"
    by (rule normalize_host_set_fixed [OF inc])
qed

section \<open>What narrowing guarantees\<close>

lemma f64_not_lt_le: "\<lbrakk>f64_is_finite a; f64_is_finite b; \<not> f64_lt b a\<rbrakk> \<Longrightarrow> f64_le a b"
  by (cases a; cases b) auto

lemma require_finite_positive_finite: "require_finite_positive f v = Inr u \<Longrightarrow> f64_is_finite v"
  by (auto simp: require_finite_positive_def split: if_splits)

lemma narrow_include_hosts_Inr:
  assumes "narrow_include_hosts c child n = Inr n'"
  shows "\<exists>s. n' = n\<lparr>scope := (scope n)\<lparr>scope_include_hosts := s\<rparr>\<rparr>
    \<and> (s = scope_include_hosts (scope n) \<or> (\<forall>h |\<in>| s. normalize_host h = h \<and> allows_host c h))"
proof (cases "child_include_hosts child")
  case None
  then show ?thesis using assms by (intro exI [of _ "scope_include_hosts (scope n)"]) (simp add: narrow_include_hosts_def)
next
  case (Some hosts)
  with assms obtain s where s: "normalize_host_set hosts ''child include_hosts'' = Inr s"
    "find (\<lambda>host. \<not> allows_host c host) (sorted_list_of_fset s) = None"
    "n' = n\<lparr>scope := (scope n)\<lparr>scope_include_hosts := s\<rparr>\<rparr>"
    by (auto simp: narrow_include_hosts_def bind_r_Inr split: if_split_asm option.splits)
  then show ?thesis
    using normalize_host_set_fixed [OF s(1)] by (intro exI [of _ s]) (simp add: find_None_iff)
qed

lemma narrow_exclude_hosts_Inr:
  assumes "narrow_exclude_hosts child n = Inr n'"
  shows "\<exists>s. n' = n\<lparr>scope := (scope n)\<lparr>scope_exclude_hosts := s\<rparr>\<rparr> \<and> scope_exclude_hosts (scope n) |\<subseteq>| s"
proof (cases "child_exclude_hosts child = {||}")
  case True
  then have "n' = n" using assms by (simp add: narrow_exclude_hosts_def)
  then show ?thesis by (intro exI [of _ "scope_exclude_hosts (scope n)"]) simp
next
  case False
  then obtain e where "n' = n\<lparr>scope := (scope n)\<lparr>scope_exclude_hosts := scope_exclude_hosts (scope n) |\<union>| e\<rparr>\<rparr>"
    using assms by (auto simp: narrow_exclude_hosts_def bind_r_Inr)
  then show ?thesis by (intro exI [of _ "scope_exclude_hosts (scope n) |\<union>| e"]) simp
qed

lemma narrow_schemes_Inr:
  assumes "narrow_schemes c child n = Inr n'"
  shows "\<exists>s. n' = n\<lparr>scope := (scope n)\<lparr>scope_allowed_schemes := s\<rparr>\<rparr>
    \<and> (s = scope_allowed_schemes (scope n) \<or> (s |\<subseteq>| allowed_schemes c \<and> normalize_schemes s = Inr s))"
proof (cases "child_allowed_schemes child")
  case None
  then have "n' = n" using assms by (simp add: narrow_schemes_def)
  then show ?thesis by (intro exI [of _ "scope_allowed_schemes (scope n)"]) simp
next
  case (Some v)
  with assms obtain s where "normalize_schemes v = Inr s" "s |\<subseteq>| allowed_schemes c"
    "n' = n\<lparr>scope := (scope n)\<lparr>scope_allowed_schemes := s\<rparr>\<rparr>"
    by (auto simp: narrow_schemes_def bind_r_Inr require_subset_Inr)
  then show ?thesis using normalize_schemes_Inr(3) by (intro exI [of _ s]) simp
qed

lemma narrow_methods_Inr:
  assumes "narrow_methods c child n = Inr n'"
  shows "\<exists>s. n' = n\<lparr>scope := (scope n)\<lparr>scope_allowed_methods := s\<rparr>\<rparr>
    \<and> (s = scope_allowed_methods (scope n) \<or> (s |\<subseteq>| allowed_methods c \<and> normalize_methods s = Inr s))"
proof (cases "child_allowed_methods child")
  case None
  then have "n' = n" using assms by (simp add: narrow_methods_def)
  then show ?thesis by (intro exI [of _ "scope_allowed_methods (scope n)"]) simp
next
  case (Some v)
  with assms obtain s where "normalize_methods v = Inr s" "s |\<subseteq>| allowed_methods c"
    "n' = n\<lparr>scope := (scope n)\<lparr>scope_allowed_methods := s\<rparr>\<rparr>"
    by (auto simp: narrow_methods_def bind_r_Inr require_subset_Inr)
  then show ?thesis using normalize_methods_Inr(3) by (intro exI [of _ s]) simp
qed

text \<open>An optional field of the child is inherited, or taken after its check.\<close>

lemma optional_field:
  assumes "(case opt of None \<Rightarrow> Inr n | Some v \<Rightarrow> g v) = Inr n'"
    and "\<And>v. g v = Inr n' \<Longrightarrow> n' = f v \<and> P v" and "f old = n"
  obtains v where "n' = f v" "v = old \<or> P v"
  using assms by (cases opt) auto

lemma narrow_flags_Inr:
  assumes "narrow_flags c child n = Inr n'"
  obtains a b d where "n' = n\<lparr>scope := (scope n)\<lparr>scope_allow_subdomains := a\<rparr>,
      automation := (automation n)\<lparr>active_testing := b, oob_callbacks := d\<rparr>\<rparr>"
    "a = scope_allow_subdomains (scope n) \<or> (a \<longrightarrow> scope_allow_subdomains (scope (inner c)))"
    "b = active_testing (automation n) \<or> (b \<longrightarrow> active_testing (automation (inner c)))"
    "d = oob_callbacks (automation n) \<or> (d \<longrightarrow> oob_callbacks (automation (inner c)))"
proof -
  note [split] = if_split_asm
  from assms obtain n1 n2 where n:
    "(case child_allow_subdomains child of None \<Rightarrow> Inr n | Some v \<Rightarrow>
        if v \<and> \<not> scope_allow_subdomains (scope (inner c))
        then Inl (PolicyBroadening ''child cannot enable subdomains when the parent disables them'')
        else Inr (n\<lparr>scope := (scope n)\<lparr>scope_allow_subdomains := v\<rparr>\<rparr>)) = Inr n1"
    "(case child_active_testing child of None \<Rightarrow> Inr n1 | Some v \<Rightarrow>
        if v \<and> \<not> active_testing (automation (inner c))
        then Inl (PolicyBroadening ''child cannot enable active testing'')
        else Inr (n1\<lparr>automation := (automation n1)\<lparr>active_testing := v\<rparr>\<rparr>)) = Inr n2"
    "(case child_oob_callbacks child of None \<Rightarrow> Inr n2 | Some v \<Rightarrow>
        if v \<and> \<not> oob_callbacks (automation (inner c))
        then Inl (PolicyBroadening ''child cannot enable out-of-band callbacks'')
        else Inr (n2\<lparr>automation := (automation n2)\<lparr>oob_callbacks := v\<rparr>\<rparr>)) = Inr n'"
    unfolding narrow_flags_def bind_r_Inr by blast
  obtain a where a: "n1 = n\<lparr>scope := (scope n)\<lparr>scope_allow_subdomains := a\<rparr>\<rparr>"
    "a = scope_allow_subdomains (scope n) \<or> (a \<longrightarrow> scope_allow_subdomains (scope (inner c)))"
    by (rule optional_field [OF n(1), where f = "\<lambda>v. n\<lparr>scope := (scope n)\<lparr>scope_allow_subdomains := v\<rparr>\<rparr>" and P = "\<lambda>v. v \<longrightarrow> scope_allow_subdomains (scope (inner c))"
          and old = "scope_allow_subdomains (scope n)"]) auto
  obtain b where b: "n2 = n1\<lparr>automation := (automation n1)\<lparr>active_testing := b\<rparr>\<rparr>"
    "b = active_testing (automation n1) \<or> (b \<longrightarrow> active_testing (automation (inner c)))"
    by (rule optional_field [OF n(2), where f = "\<lambda>v. n1\<lparr>automation := (automation n1)\<lparr>active_testing := v\<rparr>\<rparr>" and P = "\<lambda>v. v \<longrightarrow> active_testing (automation (inner c))"
          and old = "active_testing (automation n1)"]) auto
  obtain d where d: "n' = n2\<lparr>automation := (automation n2)\<lparr>oob_callbacks := d\<rparr>\<rparr>"
    "d = oob_callbacks (automation n2) \<or> (d \<longrightarrow> oob_callbacks (automation (inner c)))"
    by (rule optional_field [OF n(3), where f = "\<lambda>v. n2\<lparr>automation := (automation n2)\<lparr>oob_callbacks := v\<rparr>\<rparr>" and P = "\<lambda>v. v \<longrightarrow> oob_callbacks (automation (inner c))"
          and old = "oob_callbacks (automation n2)"]) auto
  show thesis using a b d by (intro that [where a = a and b = b and d = d]) simp_all
qed

lemma narrow_limits_Inr:
  assumes "narrow_limits c child n = Inr n'"
  obtains r k t where "n' = n\<lparr>automation := (automation n)\<lparr>auto_max_requests_per_second := r,
        auto_max_concurrency := k, auto_max_total_requests := t\<rparr>\<rparr>"
    "r = auto_max_requests_per_second (automation n) \<or> \<not> f64_lt (maximum_requests_per_second c) r"
    "k = auto_max_concurrency (automation n) \<or> k \<le> maximum_concurrency c"
    "t = auto_max_total_requests (automation n) \<or> t \<le> maximum_total_requests c"
proof -
  note [split] = if_split_asm
  from assms obtain n1 n2 where n:
    "(case child_max_requests_per_second child of None \<Rightarrow> Inr n | Some v \<Rightarrow>
        bind_r (require_finite_positive ''max_requests_per_second'' v) (\<lambda>_.
          if f64_lt (maximum_requests_per_second c) v
          then Inl (PolicyBroadening ''child request rate exceeds the parent'')
          else Inr (n\<lparr>automation := (automation n)\<lparr>auto_max_requests_per_second := v\<rparr>\<rparr>))) = Inr n1"
    "(case child_max_concurrency child of None \<Rightarrow> Inr n1 | Some v \<Rightarrow>
        if v = 0 then Inl (PolicyInvalid ''child max_concurrency must be greater than zero'')
        else if v > maximum_concurrency c
          then Inl (PolicyBroadening ''child concurrency exceeds the parent'')
        else Inr (n1\<lparr>automation := (automation n1)\<lparr>auto_max_concurrency := v\<rparr>\<rparr>)) = Inr n2"
    "(case child_max_total_requests child of None \<Rightarrow> Inr n2 | Some v \<Rightarrow>
        if v = 0 then Inl (PolicyInvalid ''child max_total_requests must be greater than zero'')
        else if v > maximum_total_requests c
          then Inl (PolicyBroadening ''child request budget exceeds the parent'')
        else Inr (n2\<lparr>automation := (automation n2)\<lparr>auto_max_total_requests := v\<rparr>\<rparr>)) = Inr n'"
    unfolding narrow_limits_def bind_r_Inr by blast
  obtain r where r: "n1 = n\<lparr>automation := (automation n)\<lparr>auto_max_requests_per_second := r\<rparr>\<rparr>"
    "r = auto_max_requests_per_second (automation n) \<or> \<not> f64_lt (maximum_requests_per_second c) r"
    by (rule optional_field [OF n(1), where f = "\<lambda>v. n\<lparr>automation := (automation n)\<lparr>auto_max_requests_per_second := v\<rparr>\<rparr>" and P = "\<lambda>v. \<not> f64_lt (maximum_requests_per_second c) v"
          and old = "auto_max_requests_per_second (automation n)"]) (auto simp: bind_r_Inr)
  obtain k where k: "n2 = n1\<lparr>automation := (automation n1)\<lparr>auto_max_concurrency := k\<rparr>\<rparr>"
    "k = auto_max_concurrency (automation n1) \<or> k \<le> maximum_concurrency c"
    by (rule optional_field [OF n(2), where f = "\<lambda>v. n1\<lparr>automation := (automation n1)\<lparr>auto_max_concurrency := v\<rparr>\<rparr>" and P = "\<lambda>v. v \<le> maximum_concurrency c"
          and old = "auto_max_concurrency (automation n1)"]) (auto simp: not_less)
  obtain t where t: "n' = n2\<lparr>automation := (automation n2)\<lparr>auto_max_total_requests := t\<rparr>\<rparr>"
    "t = auto_max_total_requests (automation n2) \<or> t \<le> maximum_total_requests c"
    by (rule optional_field [OF n(3), where f = "\<lambda>v. n2\<lparr>automation := (automation n2)\<lparr>auto_max_total_requests := v\<rparr>\<rparr>" and P = "\<lambda>v. v \<le> maximum_total_requests c"
          and old = "auto_max_total_requests (automation n2)"]) (auto simp: not_less)
  show thesis using r k t by (intro that [where r = r and k = k and t = t]) simp_all
qed

lemma narrow_expiry_Inr:
  assumes "narrow_expiry c child now n = Inr n'"
  obtains x where "n' = n\<lparr>authorization := (authorization n)\<lparr>auth_expires_at := x\<rparr>\<rparr>"
    "x = auth_expires_at (authorization n) \<or> x \<le> authorization_expires_at c"
  by (rule optional_field [OF assms [unfolded narrow_expiry_def],
        where f = "\<lambda>v. n\<lparr>authorization := (authorization n)\<lparr>auth_expires_at := v\<rparr>\<rparr>"
          and P = "\<lambda>v. v \<le> authorization_expires_at c" and old = "auth_expires_at (authorization n)"])
    (auto simp: not_less split: if_split_asm)

text \<open>Field by field, the narrowed policy against its parent.\<close>

lemma narrow_Inr:
  assumes "narrow c child now = Inr c'"
  shows "compile (inner c') now = Inr c'"
    and "scope_include_hosts (scope (inner c')) = scope_include_hosts (scope (inner c))
      \<or> (\<forall>h |\<in>| scope_include_hosts (scope (inner c')). normalize_host h = h \<and> allows_host c h)"
    and "scope_exclude_hosts (scope (inner c)) |\<subseteq>| scope_exclude_hosts (scope (inner c'))"
    and "scope_allowed_schemes (scope (inner c')) = scope_allowed_schemes (scope (inner c))
      \<or> (scope_allowed_schemes (scope (inner c')) |\<subseteq>| allowed_schemes c
        \<and> normalize_schemes (scope_allowed_schemes (scope (inner c'))) = Inr (scope_allowed_schemes (scope (inner c'))))"
    and "scope_allowed_methods (scope (inner c')) = scope_allowed_methods (scope (inner c))
      \<or> (scope_allowed_methods (scope (inner c')) |\<subseteq>| allowed_methods c
        \<and> normalize_methods (scope_allowed_methods (scope (inner c'))) = Inr (scope_allowed_methods (scope (inner c'))))"
    and "scope_allow_subdomains (scope (inner c')) \<Longrightarrow> scope_allow_subdomains (scope (inner c))"
    and "active_testing (automation (inner c')) \<Longrightarrow> active_testing (automation (inner c))"
    and "oob_callbacks (automation (inner c')) \<Longrightarrow> oob_callbacks (automation (inner c))"
    and "maximum_requests_per_second c' = maximum_requests_per_second c
      \<or> \<not> f64_lt (maximum_requests_per_second c) (maximum_requests_per_second c')"
    and "maximum_concurrency c' \<le> maximum_concurrency c"
    and "maximum_total_requests c' \<le> maximum_total_requests c"
    and "authorization_expires_at c' \<le> authorization_expires_at c"
    and "program (inner c') = program (inner c)"
    and "policy_snapshot_sha256 c' = policy_snapshot_sha256 c"
proof -
  from assms obtain n1 n2 n3 n4 n5 n6 n where
    n: "narrow_include_hosts c child (inner c) = Inr n1" "narrow_exclude_hosts child n1 = Inr n2"
    "narrow_schemes c child n2 = Inr n3" "narrow_methods c child n3 = Inr n4"
    "narrow_flags c child n4 = Inr n5" "narrow_limits c child n5 = Inr n6"
    "narrow_expiry c child now n6 = Inr n" "compile n now = Inr c'"
    by (auto simp: narrow_def bind_r_Inr)
  obtain s1 where s1: "n1 = (inner c)\<lparr>scope := (scope (inner c))\<lparr>scope_include_hosts := s1\<rparr>\<rparr>"
    "s1 = scope_include_hosts (scope (inner c)) \<or> (\<forall>h |\<in>| s1. normalize_host h = h \<and> allows_host c h)"
    using narrow_include_hosts_Inr [OF n(1)] by blast
  obtain s2 where s2: "n2 = n1\<lparr>scope := (scope n1)\<lparr>scope_exclude_hosts := s2\<rparr>\<rparr>"
    "scope_exclude_hosts (scope n1) |\<subseteq>| s2"
    using narrow_exclude_hosts_Inr [OF n(2)] by blast
  obtain s3 where s3: "n3 = n2\<lparr>scope := (scope n2)\<lparr>scope_allowed_schemes := s3\<rparr>\<rparr>"
    "s3 = scope_allowed_schemes (scope n2) \<or> (s3 |\<subseteq>| allowed_schemes c \<and> normalize_schemes s3 = Inr s3)"
    using narrow_schemes_Inr [OF n(3)] by blast
  obtain s4 where s4: "n4 = n3\<lparr>scope := (scope n3)\<lparr>scope_allowed_methods := s4\<rparr>\<rparr>"
    "s4 = scope_allowed_methods (scope n3) \<or> (s4 |\<subseteq>| allowed_methods c \<and> normalize_methods s4 = Inr s4)"
    using narrow_methods_Inr [OF n(4)] by blast
  obtain z1 z2 z3 where z: "n5 = n4\<lparr>scope := (scope n4)\<lparr>scope_allow_subdomains := z1\<rparr>,
      automation := (automation n4)\<lparr>active_testing := z2, oob_callbacks := z3\<rparr>\<rparr>"
    and f: "z1 = scope_allow_subdomains (scope n4) \<or> (z1 \<longrightarrow> scope_allow_subdomains (scope (inner c)))"
    "z2 = active_testing (automation n4) \<or> (z2 \<longrightarrow> active_testing (automation (inner c)))"
    "z3 = oob_callbacks (automation n4) \<or> (z3 \<longrightarrow> oob_callbacks (automation (inner c)))"
    by (rule narrow_flags_Inr [OF n(5)])
  obtain y1 y2 y3 where y: "n6 = n5\<lparr>automation := (automation n5)\<lparr>auto_max_requests_per_second := y1,
      auto_max_concurrency := y2, auto_max_total_requests := y3\<rparr>\<rparr>"
    and l: "y1 = auto_max_requests_per_second (automation n5) \<or> \<not> f64_lt (maximum_requests_per_second c) y1"
    "y2 = auto_max_concurrency (automation n5) \<or> y2 \<le> maximum_concurrency c"
    "y3 = auto_max_total_requests (automation n5) \<or> y3 \<le> maximum_total_requests c"
    by (rule narrow_limits_Inr [OF n(6)])
  obtain x where x: "n = n6\<lparr>authorization := (authorization n6)\<lparr>auth_expires_at := x\<rparr>\<rparr>"
    and e: "x = auth_expires_at (authorization n6) \<or> x \<le> authorization_expires_at c"
    by (rule narrow_expiry_Inr [OF n(7)])
  have i: "inner c' = n" using n(8) by (simp add: compile_Inr)
  note all = i x y z s4(1) s3(1) s2(1) s1(1)
  show "compile (inner c') now = Inr c'" using n(8) i by simp
  show "scope_include_hosts (scope (inner c')) = scope_include_hosts (scope (inner c))
      \<or> (\<forall>h |\<in>| scope_include_hosts (scope (inner c')). normalize_host h = h \<and> allows_host c h)"
    using s1(2) by (simp add: all)
  show "scope_exclude_hosts (scope (inner c)) |\<subseteq>| scope_exclude_hosts (scope (inner c'))"
    using s2(2) by (simp add: all)
  show "scope_allowed_schemes (scope (inner c')) = scope_allowed_schemes (scope (inner c))
      \<or> (scope_allowed_schemes (scope (inner c')) |\<subseteq>| allowed_schemes c
        \<and> normalize_schemes (scope_allowed_schemes (scope (inner c'))) = Inr (scope_allowed_schemes (scope (inner c'))))"
    using s3(2) by (simp add: all)
  show "scope_allowed_methods (scope (inner c')) = scope_allowed_methods (scope (inner c))
      \<or> (scope_allowed_methods (scope (inner c')) |\<subseteq>| allowed_methods c
        \<and> normalize_methods (scope_allowed_methods (scope (inner c'))) = Inr (scope_allowed_methods (scope (inner c'))))"
    using s4(2) by (simp add: all)
  show "scope_allow_subdomains (scope (inner c')) \<Longrightarrow> scope_allow_subdomains (scope (inner c))"
    "active_testing (automation (inner c')) \<Longrightarrow> active_testing (automation (inner c))"
    "oob_callbacks (automation (inner c')) \<Longrightarrow> oob_callbacks (automation (inner c))"
    using f by (auto simp: all)
  show "maximum_requests_per_second c' = maximum_requests_per_second c
      \<or> \<not> f64_lt (maximum_requests_per_second c) (maximum_requests_per_second c')"
    "maximum_concurrency c' \<le> maximum_concurrency c" "maximum_total_requests c' \<le> maximum_total_requests c"
    using l by (auto simp: all)
  show "authorization_expires_at c' \<le> authorization_expires_at c" using e by (auto simp: all)
  show "program (inner c') = program (inner c)" "policy_snapshot_sha256 c' = policy_snapshot_sha256 c"
    by (simp_all add: all)
qed

lemma matches_host_set_mono:
  "\<lbrakk>matches_host_set x a s; a |\<subseteq>| b\<rbrakk> \<Longrightarrow> matches_host_set x b s"
  by (auto simp: matches_host_set_def)

lemma narrow_hosts:
  assumes "compile p t = Inr c" "narrow c child now = Inr c'" "allows_host c' h"
  shows "allows_host c h"
proof -
  note n = narrow_Inr [OF assms(2)] and k = compile_parts [OF assms(1)]
  note k' = compile_parts [OF n(1)]
  let ?x = "normalize_host h"
  have "exclude_hosts c |\<subseteq>| exclude_hosts c'"
    unfolding k(3) k'(3) using n(3) k(1) by (simp add: fimage_mono)
  then have ex: "\<not> matches_host_set ?x (exclude_hosts c) True"
    using assms(3) matches_host_set_mono [of ?x "exclude_hosts c" True]
    by (auto simp: allows_host_def Let_def split: if_split_asm)
  from assms(3) obtain g where g: "g |\<in>| include_hosts c'"
    "matches_host ?x (scope_allow_subdomains (scope (inner c'))) g"
    by (auto simp: allows_host_def Let_def matches_host_set_def split: if_split_asm)
  have "\<exists>i. i |\<in>| include_hosts c \<and> matches_host g (scope_allow_subdomains (scope (inner c))) i"
  proof (cases "scope_include_hosts (scope (inner c')) = scope_include_hosts (scope (inner c))")
    case True
    then have "g |\<in>| include_hosts c" using g(1) k(1) unfolding k(2) k'(2) by simp
    then show ?thesis by (auto simp: matches_host_def)
  next
    case False
    with n(2) g(1) k'(2) have "normalize_host g = g" "allows_host c g" by (auto simp: fimage_iff)
    then show ?thesis by (auto simp: allows_host_def matches_host_set_def split: if_split_asm)
  qed
  then obtain i where "i |\<in>| include_hosts c" "matches_host g (scope_allow_subdomains (scope (inner c))) i"
    by blast
  moreover have "matches_host ?x (scope_allow_subdomains (scope (inner c))) i"
    using matches_host_trans [OF g(2) calculation(2)] n(6) by blast
  ultimately show ?thesis
    using ex by (auto simp: allows_host_def matches_host_set_def)
qed

lemma narrow_sets:
  assumes "compile p t = Inr c" "narrow c child now = Inr c'"
  shows "allowed_schemes c' |\<subseteq>| allowed_schemes c" "allowed_methods c' |\<subseteq>| allowed_methods c"
  using narrow_Inr(4,5) [OF assms(2)] narrow_Inr(1) [OF assms(2), unfolded compile_Inr]
    assms(1) [unfolded compile_Inr] by auto

text \<open>The ways a policy may be compared with another: it permits nothing more.\<close>

definition no_broader :: "compiled_policy \<Rightarrow> compiled_policy \<Rightarrow> bool" where
  "no_broader c' c \<longleftrightarrow>
     (\<forall>u m. allows_request c' u m \<longrightarrow> allows_request c u m)
     \<and> f64_le (maximum_requests_per_second c') (maximum_requests_per_second c)
     \<and> maximum_concurrency c' \<le> maximum_concurrency c
     \<and> maximum_total_requests c' \<le> maximum_total_requests c
     \<and> authorization_expires_at c' \<le> authorization_expires_at c
     \<and> (active_testing (automation (inner c')) \<longrightarrow> active_testing (automation (inner c)))
     \<and> (oob_callbacks (automation (inner c')) \<longrightarrow> oob_callbacks (automation (inner c)))
     \<and> policy_snapshot_sha256 c' = policy_snapshot_sha256 c"

lemma compiled_rate:
  assumes "compile p t = Inr c"
  shows "\<exists>r. maximum_requests_per_second c = Fin r \<and> 0 < r \<and> r \<le> 5"
  using assms validate_top_level_Inr(6) by (auto simp: compile_Inr)

lemma narrow_no_broader:
  assumes "compile p t = Inr c" "narrow c child now = Inr c'"
  shows "no_broader c' c"
proof -
  note n = narrow_Inr [OF assms(2)]
  have "f64_le (maximum_requests_per_second c') (maximum_requests_per_second c)"
    using n(9) compiled_rate [OF assms(1)] compiled_rate [OF n(1)] by auto
  moreover have "allows_request c u m" if "allows_request c' u m" for u m
    using that narrow_hosts [OF assms] narrow_sets [OF assms]
    by (auto simp: allows_request_def split: if_split_asm option.splits)
  ultimately show ?thesis using n(7,8,10-12,14) by (auto simp: no_broader_def)
qed

lemma f64_le_trans: "\<lbrakk>f64_le a b; f64_le b c\<rbrakk> \<Longrightarrow> f64_le a c"
  by (cases a; cases b; cases c) auto

lemma no_broader_trans: "\<lbrakk>no_broader a b; no_broader b c\<rbrakk> \<Longrightarrow> no_broader a c"
  by (auto simp: no_broader_def intro: f64_le_trans order.trans)

text \<open>A chain of narrowings, each child at its own instant.\<close>

fun narrow_chain :: "compiled_policy \<Rightarrow> (child_policy \<times> int) list \<Rightarrow> policy_error + compiled_policy" where
  "narrow_chain c [] = Inr c"
| "narrow_chain c ((child, now) # rest) = bind_r (narrow c child now) (\<lambda>c'. narrow_chain c' rest)"

section \<open>Properties\<close>

text \<open>
  C3: Narrowing never broadens. However many child policies are derived from a compiled policy,
  one from the other, the last one permits no request the first does not permit, has no larger
  rate, concurrency, request total or lifetime, enables neither active testing nor out-of-band
  callbacks unless the first does, and keeps its policy snapshot.
\<close>

theorem narrow_chain_never_broadens:
  assumes "compile p t = Inr c" "narrow_chain c children = Inr c'"
  shows "no_broader c' c"
  using assms
proof (induction c children arbitrary: p t rule: narrow_chain.induct)
  case (1 c)
  then show ?case using compiled_rate [OF "1.prems"(1)] by (auto simp: no_broader_def)
next
  case (2 c child now rest)
  then obtain c1 where c1: "narrow c child now = Inr c1" "narrow_chain c1 rest = Inr c'"
    by (auto simp: bind_r_Inr)
  have "no_broader c' c1" using "2.IH" narrow_Inr(1) [OF c1(1)] c1(2) by blast
  then show ?case using no_broader_trans narrow_no_broader [OF "2.prems"(1) c1(1)] by blast
qed

text \<open>
  C29: What a compiled policy guarantees at the instant it is compiled: authorization is confirmed
  and has not expired, credential brute force and destructive testing are off, the rate is
  positive and at most five requests per second, at most eight requests run at once and at most
  100000 in total, only http and https and the seven known methods are allowed, and no included
  host, all of them valid normalised names, is excluded as well.
\<close>

theorem compile_guarantees:
  assumes "compile p now = Inr c"
  shows "auth_confirmed (authorization (inner c)) \<and> now < authorization_expires_at c
    \<and> \<not> credential_bruteforce (automation (inner c)) \<and> \<not> destructive_testing (automation (inner c))
    \<and> (\<exists>r. maximum_requests_per_second c = Fin r \<and> 0 < r \<and> r \<le> 5)
    \<and> 1 \<le> maximum_concurrency c \<and> maximum_concurrency c \<le> 8
    \<and> 1 \<le> maximum_total_requests c \<and> maximum_total_requests c \<le> 100000
    \<and> fset (allowed_schemes c) \<subseteq> {''http'', ''https''} \<and> allowed_schemes c \<noteq> {||}
    \<and> fset (allowed_methods c) \<subseteq> set allowed_methods_const \<and> allowed_methods c \<noteq> {||}
    \<and> include_hosts c \<noteq> {||} \<and> include_hosts c |\<inter>| exclude_hosts c = {||}
    \<and> (\<forall>h. h |\<in>| include_hosts c \<longrightarrow> is_valid_host h \<and> normalize_host h = h)"
proof -
  note c = assms [unfolded compile_Inr]
  have i: "inner c = p" and v: "validate_top_level p now = Inr ()"
    and sc: "normalize_schemes (scope_allowed_schemes (scope p)) = Inr (allowed_schemes c)"
    and me: "normalize_methods (scope_allowed_methods (scope p)) = Inr (allowed_methods c)"
    and d: "include_hosts c |\<inter>| exclude_hosts c = {||}" using c by blast+
  note k = compile_parts [OF assms]
  have "is_valid_host h" if "h |\<in>| include_hosts c" for h
    using k(4,5) [OF that] labels_last(1) [of h] labels_host_bytes [of h "CHR '':''"] labels_host_bytes [of h "CHR ''/''"]
    by (auto simp: is_valid_host_def is_host_byte_def byte_class_defs byte_def)
  moreover have "include_hosts c \<noteq> {||}"
    unfolding k(2) using validate_top_level_Inr(11) [OF v] by simp
  ultimately show ?thesis
    using validate_top_level_Inr(1,2,4-10) [OF v] normalize_schemes_Inr(1,2) [OF sc]
      normalize_methods_Inr(1,2) [OF me] d k(4) unfolding i by blast
qed

text \<open>
  Host matching works on whole DNS labels. A policy allows a host exactly when the labels of
  no excluded host are a suffix of its labels, and the labels of some included host are equal to
  its labels or, when subdomains are allowed, a suffix of them.
\<close>

theorem allows_host_by_labels:
  "allows_host c h \<longleftrightarrow>
     \<not> (\<exists>e. e |\<in>| exclude_hosts c \<and> suffix (labels e) (labels (normalize_host h)))
     \<and> (\<exists>i. i |\<in>| include_hosts c \<and>
          (if scope_allow_subdomains (scope (inner c)) then suffix (labels i) (labels (normalize_host h))
           else labels i = labels (normalize_host h)))"
  by (auto simp: allows_host_def Let_def matches_host_set_def matches_host_labels)

text \<open>
  Narrowing by the empty child policy before the authorization expires succeeds and changes
  nothing: compilation is idempotent.
\<close>

theorem narrow_default_identity:
  assumes "compile p t = Inr c" "now < authorization_expires_at c"
  shows "narrow c child_policy_default now = Inr c"
proof -
  have i: "inner c = p" using assms(1) by (simp add: compile_Inr)
  have v: "validate_top_level p t = Inr ()" using assms(1) by (simp add: compile_Inr)
  have "\<not> auth_expires_at (authorization p) \<le> t" "\<not> auth_expires_at (authorization p) \<le> now"
    using validate_top_level_Inr(2) [OF v] assms(2) i by auto
  then have "validate_top_level p now = validate_top_level p t"
    by (simp add: validate_top_level_def Let_def)
  then have "validate_top_level p now = Inr ()" using v by simp
  then have "compile (inner c) now = Inr c" using assms(1) i by (simp add: compile_Inr)
  then show ?thesis
    by (simp add: narrow_def child_policy_default_def narrow_include_hosts_def narrow_exclude_hosts_def
        narrow_schemes_def narrow_methods_def narrow_flags_def narrow_limits_def narrow_expiry_def)
qed

text \<open>A concrete policy and child policy, as in the crate's tests.\<close>

definition sample_policy :: target_policy where
  "sample_policy =
     \<lparr>schema_version = 1,
      program = \<lparr>program_name = ''E'', program_platform = ''t'', program_policy_url = None\<rparr>,
      scope = \<lparr>scope_include_hosts = {|''A.io.''|}, scope_exclude_hosts = {|''x.a.io''|},
        scope_allowed_schemes = {|''https''|}, scope_allowed_methods = {|''get''|},
        scope_allow_subdomains = True\<rparr>,
      automation = \<lparr>active_testing = False, credential_bruteforce = False, destructive_testing = False,
        oob_callbacks = False, auto_max_requests_per_second = Fin 2, auto_max_concurrency = 2,
        auto_max_total_requests = 100\<rparr>,
      authorization = \<lparr>auth_confirmed = True, auth_researcher = ''r'',
        auth_policy_snapshot_sha256 = replicate 64 CHR ''0'', auth_expires_at = 100\<rparr>\<rparr>"

definition sample_child :: child_policy where
  "sample_child =
     child_policy_default\<lparr>child_include_hosts := Some {|''b.a.io''|},
       child_allowed_methods := Some {|''GET''|}, child_max_total_requests := Some 10\<rparr>"

definition sample_compiled :: compiled_policy where
  "sample_compiled =
     \<lparr>inner = sample_policy, include_hosts = {|''a.io''|},
      exclude_hosts = {|''x.a.io''|}, allowed_schemes = {|''https''|},
      allowed_methods = {|''GET''|}\<rparr>"

lemma sample_compile: "compile sample_policy 5 = Inr sample_compiled"
  by code_simp

lemma sample_narrow:
  "narrow_chain sample_compiled [(sample_child, 6)] = Inr (projr (narrow_chain sample_compiled [(sample_child, 6)]))"
proof -
  have "\<not> isl (narrow_chain sample_compiled [(sample_child, 6)])" by code_simp
  then show ?thesis by simp
qed

theorem narrow_chain_never_broadens_witness:
  "no_broader (projr (narrow_chain sample_compiled [(sample_child, 6)])) sample_compiled"
  by (rule narrow_chain_never_broadens [OF sample_compile sample_narrow])

theorem compile_guarantees_witness: "(5::int) < authorization_expires_at sample_compiled"
  using compile_guarantees [OF sample_compile] by blast

theorem narrow_default_identity_witness:
  "narrow sample_compiled child_policy_default 7 = Inr sample_compiled"
  by (rule narrow_default_identity [OF sample_compile]) code_simp

end
