(* ===== verification/Ip_Addr.thy ===== *)
theory Ip_Addr
  imports Rust_Prelude
begin

text \<open>
  The part of \<open>std::net\<close> the source uses: \<open>Ipv4Addr\<close> and \<open>Ipv6Addr\<close> as 32-bit and 128-bit
  words, \<open>IpAddr\<close> with its derived order (every IPv4 address below every IPv6 address, as the
  enumeration declares them), the predicates of the library and the textual form.
\<close>

unbundle bit_operations_syntax

datatype ip_addr = V4 u32 | V6 u128

instantiation ip_addr :: linorder
begin

fun less_eq_ip_addr :: "ip_addr \<Rightarrow> ip_addr \<Rightarrow> bool" where
  "less_eq_ip_addr (V4 a) (V4 b) = (a \<le> b)"
| "less_eq_ip_addr (V4 a) (V6 b) = True"
| "less_eq_ip_addr (V6 a) (V4 b) = False"
| "less_eq_ip_addr (V6 a) (V6 b) = (a \<le> b)"

definition less_ip_addr :: "ip_addr \<Rightarrow> ip_addr \<Rightarrow> bool" where
  "less_ip_addr a b = (a \<le> b \<and> \<not> b \<le> a)"

instance
proof
  fix x y z :: ip_addr
  show "(x < y) = (x \<le> y \<and> \<not> y \<le> x)" by (rule less_ip_addr_def)
  show "x \<le> x" by (cases x) simp_all
  show "x \<le> y \<or> y \<le> x" by (cases x; cases y) auto
  show "x = y" if "x \<le> y" "y \<le> x" using that by (cases x; cases y) simp_all
  show "x \<le> z" if "x \<le> y" "y \<le> z" using that by (cases x; cases y; cases z) auto
qed

end

section \<open>IPv4\<close>

definition ipv4_new :: "nat \<Rightarrow> nat \<Rightarrow> nat \<Rightarrow> nat \<Rightarrow> u32" where
  "ipv4_new a b c d = of_nat (((a * 256 + b) * 256 + c) * 256 + d)"

definition octet :: "nat \<Rightarrow> u32 \<Rightarrow> nat" where
  "octet i ip = unat ip div 256 ^ (3 - i) mod 256"

definition ipv4_is_loopback :: "u32 \<Rightarrow> bool" where
  "ipv4_is_loopback ip \<longleftrightarrow> octet 0 ip = 127"

definition ipv4_is_private :: "u32 \<Rightarrow> bool" where
  "ipv4_is_private ip \<longleftrightarrow>
     octet 0 ip = 10 \<or>
     (octet 0 ip = 172 \<and> 16 \<le> octet 1 ip \<and> octet 1 ip \<le> 31) \<or>
     (octet 0 ip = 192 \<and> octet 1 ip = 168)"

definition ipv4_is_link_local :: "u32 \<Rightarrow> bool" where
  "ipv4_is_link_local ip \<longleftrightarrow> octet 0 ip = 169 \<and> octet 1 ip = 254"

definition ipv4_is_multicast :: "u32 \<Rightarrow> bool" where
  "ipv4_is_multicast ip \<longleftrightarrow> 224 \<le> octet 0 ip \<and> octet 0 ip \<le> 239"

definition ipv4_is_broadcast :: "u32 \<Rightarrow> bool" where
  "ipv4_is_broadcast ip \<longleftrightarrow> ip = ipv4_new 255 255 255 255"

definition ipv4_is_unspecified :: "u32 \<Rightarrow> bool" where
  "ipv4_is_unspecified ip \<longleftrightarrow> ip = 0"

definition ipv4_is_documentation :: "u32 \<Rightarrow> bool" where
  "ipv4_is_documentation ip \<longleftrightarrow>
     (octet 0 ip = 192 \<and> octet 1 ip = 0 \<and> octet 2 ip = 2) \<or>
     (octet 0 ip = 198 \<and> octet 1 ip = 51 \<and> octet 2 ip = 100) \<or>
     (octet 0 ip = 203 \<and> octet 1 ip = 0 \<and> octet 2 ip = 113)"

section \<open>IPv6\<close>

definition segment :: "nat \<Rightarrow> u128 \<Rightarrow> nat" where
  "segment i ip = unat ip div 65536 ^ (7 - i) mod 65536"

definition segments :: "u128 \<Rightarrow> nat list" where
  "segments ip = map (\<lambda>i. segment i ip) [0, 1, 2, 3, 4, 5, 6, 7]"

definition ipv6_new :: "nat list \<Rightarrow> u128" where
  "ipv6_new ss = of_nat (foldl (\<lambda>a s. a * 65536 + s) 0 ss)"

definition ipv6_is_unspecified :: "u128 \<Rightarrow> bool" where
  "ipv6_is_unspecified ip \<longleftrightarrow> ip = 0"

definition ipv6_is_loopback :: "u128 \<Rightarrow> bool" where
  "ipv6_is_loopback ip \<longleftrightarrow> ip = 1"

definition ipv6_is_multicast :: "u128 \<Rightarrow> bool" where
  "ipv6_is_multicast ip \<longleftrightarrow> (of_nat (segment 0 ip) :: u16) AND 0xff00 = 0xff00"

definition to_ipv4_mapped :: "u128 \<Rightarrow> u32 option" where
  "to_ipv4_mapped ip =
     (if unat ip div 2 ^ 32 = 0xffff then Some (of_nat (unat ip mod 2 ^ 32)) else None)"

definition ipv4_mapped :: "u32 \<Rightarrow> u128" where
  "ipv4_mapped ip = of_nat (0xffff * 2 ^ 32 + unat ip)"

section \<open>Textual form\<close>

definition ipv4_to_string :: "u32 \<Rightarrow> string" where
  "ipv4_to_string ip =
     decimal (octet 0 ip) @ ''.'' @ decimal (octet 1 ip) @ ''.'' @
     decimal (octet 2 ip) @ ''.'' @ decimal (octet 3 ip)"

fun hex_string :: "nat \<Rightarrow> string" where
  "hex_string n = (if n < 16 then [hex_digit n] else hex_string (n div 16) @ [hex_digit (n mod 16)])"

declare hex_string.simps [simp del]

fun join_with :: "string \<Rightarrow> string list \<Rightarrow> string" where
  "join_with d [] = []"
| "join_with d [x] = x"
| "join_with d (x # y # xs) = x @ d @ join_with d (y # xs)"

text \<open>The longest run of zero segments (the first one among equals), as the library's loop finds
  it: the state is the current and the longest \<open>(start, len)\<close>.\<close>

fun zero_span :: "nat \<Rightarrow> nat list \<Rightarrow> nat \<times> nat \<Rightarrow> nat \<times> nat \<Rightarrow> nat \<times> nat" where
  "zero_span i [] cur best = best"
| "zero_span i (s # ss) cur best =
     (if s = 0 then
        (let cur' = (if snd cur = 0 then i else fst cur, snd cur + 1) in
         zero_span (i + 1) ss cur' (if snd cur' > snd best then cur' else best))
      else zero_span (i + 1) ss (0, 0) best)"

definition ipv6_to_string :: "u128 \<Rightarrow> string" where
  "ipv6_to_string ip =
     (case to_ipv4_mapped ip of
        Some v4 \<Rightarrow> ''::ffff:'' @ ipv4_to_string v4
      | None \<Rightarrow>
          (let ss = segments ip; z = zero_span 0 ss (0, 0) (0, 0) in
           if snd z > 1 then
             join_with '':'' (map hex_string (take (fst z) ss)) @ ''::'' @
             join_with '':'' (map hex_string (drop (fst z + snd z) ss))
           else join_with '':'' (map hex_string ss)))"

fun ip_to_string :: "ip_addr \<Rightarrow> string" where
  "ip_to_string (V4 ip) = ipv4_to_string ip"
| "ip_to_string (V6 ip) = ipv6_to_string ip"

section \<open>Facts\<close>

lemmas ipv4_defs = ipv4_new_def octet_def ipv4_is_loopback_def ipv4_is_private_def
  ipv4_is_link_local_def ipv4_is_multicast_def ipv4_is_broadcast_def ipv4_is_unspecified_def
  ipv4_is_documentation_def

lemma unat_of_nat_small: "n < 2 ^ LENGTH('l) \<Longrightarrow> unat (of_nat n :: 'l::len word) = n"
  by (simp add: unat_of_nat)

lemma to_ipv4_mapped_mapped [simp]: "to_ipv4_mapped (ipv4_mapped ip) = Some ip"
proof -
  have "unat ip < 2 ^ 32" using unat_bounds(3) [of ip] by simp
  then have u: "unat (ipv4_mapped ip) = 281470681743360 + unat ip"
    unfolding ipv4_mapped_def by (subst unat_of_nat_small) simp_all
  have "(65535 * 4294967296 + unat ip) div 4294967296 = 65535 + unat ip div 4294967296"
    by (rule div_mult_self3) simp
  moreover have "(65535 * 4294967296 + unat ip) mod 4294967296 = unat ip mod 4294967296"
    by (rule mod_mult_self3)
  ultimately show ?thesis using \<open>unat ip < 2 ^ 32\<close> by (simp add: to_ipv4_mapped_def u)
qed

lemma octet_0_eq: "octet 0 ip = unat ip div 2 ^ 24"
  using unat_bounds(3) [of ip] by (simp add: octet_def div_less_iff_less_mult)

lemma octet_less: "octet i ip < 256"
  by (simp add: octet_def)

end
