(* ===== verification/Dns.thy ===== *)
theory Dns
  imports Identifiers Ip_Addr "HOL-Library.AList" "HOL-Library.FSet"
begin

text \<open>
  The crate \<open>nxb-dns\<close>: the pins that fix the address set and the resolver of a host within a
  context. A pin set is the association list of its \<open>BTreeMap\<close>, keyed by the normalised context
  and host. The locale \<open>pin_store\<close> states what a client of a pin set relies on.
\<close>

section \<open>Data\<close>

record dns_observation =
  obs_context_id :: string
  obs_host :: string
  obs_addresses :: "ip_addr fset"
  obs_resolver_id :: string
  obs_ttl_seconds :: u32
  obs_observed_at :: u64

datatype dns_pin_status = Pinned | Matched

fun dns_pin_status_code :: "dns_pin_status \<Rightarrow> string" where
  "dns_pin_status_code Pinned = ''pinned''"
| "dns_pin_status_code Matched = ''matched''"

record dns_pin =
  pin_context_id :: string
  pin_host :: string
  pin_addresses :: "ip_addr fset"
  pin_resolver_id :: string
  pin_first_observed_at :: u64
  pin_last_observed_at :: u64
  pin_initial_ttl :: u32
  pin_latest_ttl :: u32

type_synonym dns_pin_set = "((string \<times> string) \<times> dns_pin) list"

datatype dns_pin_error =
  DnsInvalidContextId
| DnsInvalidResolverId
| DnsInvalidHost
| DnsEmptyAddressSet
| DnsClockRegression
| DnsResolverChanged string string
| DnsRebindingDetected string "ip_addr fset" "ip_addr fset"

section \<open>Operations\<close>

definition dns_pin_set_new :: dns_pin_set where
  "dns_pin_set_new = []"

definition validate_observation :: "dns_observation \<Rightarrow> dns_pin_error + unit" where
  "validate_observation obs =
     (if \<not> is_valid_identifier (obs_context_id obs) then Inl DnsInvalidContextId
      else if \<not> is_valid_identifier (obs_resolver_id obs) then Inl DnsInvalidResolverId
      else if \<not> is_valid_host (obs_host obs) then Inl DnsInvalidHost
      else if obs_addresses obs = {||} then Inl DnsEmptyAddressSet
      else Inr ())"

text \<open>The key of the map: the normalised context and host.\<close>

definition observation_key :: "dns_observation \<Rightarrow> string \<times> string" where
  "observation_key obs = (normalize_identifier (obs_context_id obs), normalize_host (obs_host obs))"

definition pin_or_validate ::
  "dns_pin_set \<Rightarrow> dns_observation \<Rightarrow> dns_pin_set \<times> (dns_pin_error + dns_pin_status)" where
  "pin_or_validate pins obs =
     (case validate_observation obs of
        Inl e \<Rightarrow> (pins, Inl e)
      | Inr _ \<Rightarrow>
          let resolver_id = normalize_identifier (obs_resolver_id obs);
              key = observation_key obs in
          (case map_of pins key of
             Some pin \<Rightarrow>
               if obs_observed_at obs < pin_last_observed_at pin then (pins, Inl DnsClockRegression)
               else if resolver_id \<noteq> pin_resolver_id pin
                 then (pins, Inl (DnsResolverChanged (pin_resolver_id pin) resolver_id))
               else if obs_addresses obs \<noteq> pin_addresses pin
                 then (pins, Inl (DnsRebindingDetected (snd key) (pin_addresses pin) (obs_addresses obs)))
               else (AList.update key
                       (pin\<lparr>pin_last_observed_at := obs_observed_at obs,
                            pin_latest_ttl := obs_ttl_seconds obs\<rparr>) pins,
                     Inr Matched)
           | None \<Rightarrow>
               (AList.update key
                  \<lparr>pin_context_id = fst key, pin_host = snd key,
                   pin_addresses = obs_addresses obs, pin_resolver_id = resolver_id,
                   pin_first_observed_at = obs_observed_at obs,
                   pin_last_observed_at = obs_observed_at obs,
                   pin_initial_ttl = obs_ttl_seconds obs,
                   pin_latest_ttl = obs_ttl_seconds obs\<rparr> pins,
                Inr Pinned)))"

definition dns_get :: "dns_pin_set \<Rightarrow> string \<Rightarrow> string \<Rightarrow> dns_pin option" where
  "dns_get pins context_id host =
     map_of pins (normalize_identifier context_id, normalize_host host)"

definition release_context :: "dns_pin_set \<Rightarrow> string \<Rightarrow> dns_pin_set \<times> nat" where
  "release_context pins context_id =
     (let normalized = normalize_identifier context_id;
          pins' = filter (\<lambda>((stored_context, _), _). stored_context \<noteq> normalized) pins in
      (pins', length pins - length pins'))"

definition dns_len :: "dns_pin_set \<Rightarrow> nat" where
  "dns_len pins = length pins"

definition dns_is_empty :: "dns_pin_set \<Rightarrow> bool" where
  "dns_is_empty pins = (pins = [])"

section \<open>The contract of a pin set\<close>

text \<open>
  A client hands observations to \<open>pin\<close> and reads pins with \<open>lookup\<close>. \<open>seen\<close> is the part of an
  observation a pin fixes, \<open>fixed\<close> that part of a pin, \<open>stamp\<close> and \<open>clock\<close> their times.
\<close>

locale pin_store =
  fixes lookup :: "'s \<Rightarrow> 'k \<Rightarrow> 'p option"
    and pin :: "'s \<Rightarrow> 'o \<Rightarrow> 's \<times> ('e + 'r)"
    and drop :: "'s \<Rightarrow> 'c \<Rightarrow> 's"
    and owner :: "'c \<Rightarrow> 'k \<Rightarrow> bool"
    and key :: "'o \<Rightarrow> 'k"
    and seen :: "'o \<Rightarrow> 'v"
    and fixed :: "'p \<Rightarrow> 'v"
    and stamp :: "'o \<Rightarrow> 't::linorder"
    and clock :: "'p \<Rightarrow> 't"
  assumes pin_ok: "pin s x = (s', Inr r) \<Longrightarrow>
      \<exists>p. lookup s' (key x) = Some p \<and> fixed p = seen x \<and> clock p = stamp x"
    and pin_again: "\<lbrakk>pin s x = (s', Inr r); lookup s (key x) = Some p\<rbrakk> \<Longrightarrow>
      seen x = fixed p \<and> clock p \<le> stamp x"
    and pin_err: "pin s x = (s', Inl e) \<Longrightarrow> s' = s"
    and pin_other: "k \<noteq> key x \<Longrightarrow> lookup (fst (pin s x)) k = lookup s k"
    and drop_other: "\<not> owner c k \<Longrightarrow> lookup (drop s c) k = lookup s k"
begin

lemma pin_keeps:
  assumes "lookup s k = Some p"
  shows "\<exists>p'. lookup (fst (pin s x)) k = Some p' \<and> fixed p' = fixed p \<and> clock p \<le> clock p'"
proof (cases "k = key x")
  case False
  then show ?thesis using assms by (simp add: pin_other)
next
  case True
  obtain s' r where s': "pin s x = (s', r)" by fastforce
  show ?thesis
  proof (cases r)
    case (Inl e)
    then show ?thesis using pin_err [of s x s' e] s' assms by simp
  next
    case (Inr a)
    then show ?thesis using pin_ok [of s x s' a] pin_again [of s x s' a p] s' assms True by auto
  qed
qed

text \<open>One operation of a run: \<open>Inl\<close> an observation, \<open>Inr\<close> a release.\<close>

abbreviation one_op :: "'o + 'c \<Rightarrow> 's \<Rightarrow> 's" where
  "one_op a s \<equiv> case a of Inl x \<Rightarrow> fst (pin s x) | Inr c \<Rightarrow> drop s c"

lemma one_op_keeps:
  assumes "lookup s k = Some p" "\<forall>c. a = Inr c \<longrightarrow> \<not> owner c k"
  shows "\<exists>p'. lookup (one_op a s) k = Some p' \<and> fixed p' = fixed p \<and> clock p \<le> clock p'"
  using pin_keeps assms by (cases a) (auto simp: drop_other)

lemma run_keeps:
  assumes "lookup s k = Some p" "\<forall>c. Inr c \<in> set as \<longrightarrow> \<not> owner c k"
  shows "\<exists>p'. lookup (fold one_op as s) k = Some p' \<and> fixed p' = fixed p \<and> clock p \<le> clock p'"
  using assms
proof (induction as arbitrary: s p)
  case (Cons a as)
  obtain p' where "lookup (one_op a s) k = Some p'" "fixed p' = fixed p" "clock p \<le> clock p'"
    using one_op_keeps [of s k p a] Cons.prems by auto
  then show ?case using Cons.IH [of "one_op a s" p'] Cons.prems(2) by fastforce
qed auto

lemma accepted_agree:
  assumes "pin s x = (s1, Inr r)" "\<forall>c. Inr c \<in> set as \<longrightarrow> \<not> owner c (key x)"
    and "pin (fold one_op as s1) y = (s2, Inr r')" "key y = key x"
  shows "seen y = seen x \<and> stamp x \<le> stamp y"
proof -
  from pin_ok [OF assms(1)] obtain p where p: "lookup s1 (key x) = Some p" "fixed p = seen x" "clock p = stamp x"
    by blast
  from run_keeps [OF p(1) assms(2)] obtain p' where
    "lookup (fold one_op as s1) (key y) = Some p'" "fixed p' = fixed p" "clock p \<le> clock p'"
    using assms(4) by auto
  then show ?thesis using pin_again [OF assms(3)] p by auto
qed

end

section \<open>The model keeps the contract\<close>

lemma pin_or_validate_Inr:
  assumes "pin_or_validate pins obs = (pins', Inr st)"
  shows "validate_observation obs = Inr ()"
    and "map_of pins' = (map_of pins)(observation_key obs \<mapsto> the (map_of pins' (observation_key obs)))"
    and "\<exists>p. map_of pins' (observation_key obs) = Some p \<and> pin_addresses p = obs_addresses obs
           \<and> pin_resolver_id p = normalize_identifier (obs_resolver_id obs)
           \<and> pin_last_observed_at p = obs_observed_at obs"
    and "map_of pins (observation_key obs) = Some q \<Longrightarrow> st = Matched
           \<and> pin_addresses q = obs_addresses obs \<and> pin_resolver_id q = normalize_identifier (obs_resolver_id obs)
           \<and> pin_last_observed_at q \<le> obs_observed_at obs"
    and "map_of pins (observation_key obs) = None \<Longrightarrow> st = Pinned"
  using assms
  by (auto simp: pin_or_validate_def Let_def update_conv' split: sum.splits option.splits if_splits)

lemma pin_or_validate_Inl: "pin_or_validate pins obs = (pins', Inl e) \<Longrightarrow> pins' = pins"
  by (auto simp: pin_or_validate_def Let_def split: sum.splits option.splits if_splits)

lemma pin_or_validate_other:
  "k \<noteq> observation_key obs \<Longrightarrow> map_of (fst (pin_or_validate pins obs)) k = map_of pins k"
  by (auto simp: pin_or_validate_def Let_def update_conv' split: sum.splits option.splits)

lemma map_of_release:
  "map_of (fst (release_context pins c)) k = (if fst k = normalize_identifier c then None else map_of pins k)"
  by (induction pins) (auto simp: release_context_def Let_def)

interpretation dns: pin_store map_of pin_or_validate "\<lambda>pins c. fst (release_context pins c)"
  "\<lambda>c k. fst k = normalize_identifier c" observation_key
  "\<lambda>obs. (obs_addresses obs, normalize_identifier (obs_resolver_id obs))"
  "\<lambda>p. (pin_addresses p, pin_resolver_id p)" obs_observed_at pin_last_observed_at
proof unfold_locales
  show "\<exists>p. map_of s' (observation_key x) = Some p
      \<and> (pin_addresses p, pin_resolver_id p) = (obs_addresses x, normalize_identifier (obs_resolver_id x))
      \<and> pin_last_observed_at p = obs_observed_at x"
    if "pin_or_validate s x = (s', Inr r)" for s x s' r
    using pin_or_validate_Inr(3) [OF that] by auto
  show "(obs_addresses x, normalize_identifier (obs_resolver_id x)) = (pin_addresses p, pin_resolver_id p)
      \<and> pin_last_observed_at p \<le> obs_observed_at x"
    if "pin_or_validate s x = (s', Inr r)" "map_of s (observation_key x) = Some p" for s x s' r p
    using pin_or_validate_Inr(4) [OF that] by auto
qed (auto simp: pin_or_validate_Inl pin_or_validate_other map_of_release)

section \<open>Well-formed pin sets\<close>

text \<open>
  Every pin sits under its own normalised key, holds at least one address and was last seen no
  earlier than it was first seen; no key occurs twice.
\<close>

definition pin_wf :: "(string \<times> string) \<times> dns_pin \<Rightarrow> bool" where
  "pin_wf kp =
     (let k = fst kp; p = snd kp in
      k = (pin_context_id p, pin_host p) \<and> normalize_identifier (fst k) = fst k
      \<and> is_valid_identifier (fst k) \<and> normalize_host (snd k) = snd k \<and> is_valid_host (snd k)
      \<and> is_valid_identifier (pin_resolver_id p)
      \<and> pin_addresses p \<noteq> {||} \<and> pin_first_observed_at p \<le> pin_last_observed_at p)"

definition pins_wf :: "dns_pin_set \<Rightarrow> bool" where
  "pins_wf pins = (distinct (map fst pins) \<and> list_all pin_wf pins)"

lemma validated_observation:
  assumes "validate_observation obs = Inr ()"
  shows "is_valid_identifier (fst (observation_key obs))"
    and "normalize_identifier (fst (observation_key obs)) = fst (observation_key obs)"
    and "is_valid_host (snd (observation_key obs))"
    and "normalize_host (snd (observation_key obs)) = snd (observation_key obs)"
    and "is_valid_identifier (normalize_identifier (obs_resolver_id obs))"
    and "obs_addresses obs \<noteq> {||}"
proof -
  have v: "is_valid_identifier (obs_context_id obs)" "is_valid_identifier (obs_resolver_id obs)"
    "is_valid_host (obs_host obs)" "obs_addresses obs \<noteq> {||}"
    using assms by (auto simp: validate_observation_def split: if_splits)
  then show "is_valid_identifier (fst (observation_key obs))"
    "normalize_identifier (fst (observation_key obs)) = fst (observation_key obs)"
    "is_valid_identifier (normalize_identifier (obs_resolver_id obs))" "obs_addresses obs \<noteq> {||}"
    by (simp_all add: observation_key_def normalize_identifier_valid normalize_identifier_idem)
  have idem: "normalize_host (normalize_host (obs_host obs)) = normalize_host (obs_host obs)"
    using v(3) by (intro normalize_host_idem valid_host_labels)
  then show "normalize_host (snd (observation_key obs)) = snd (observation_key obs)"
    by (simp add: observation_key_def)
  show "is_valid_host (snd (observation_key obs))"
    using v(3) idem by (simp add: observation_key_def is_valid_host_def)
qed

lemma list_all_update:
  "\<lbrakk>list_all P xs; P (k, v)\<rbrakk> \<Longrightarrow> list_all P (AList.update k v xs)"
  by (induction xs) auto

lemma pin_or_validate_wf:
  assumes "pins_wf pins"
  shows "pins_wf (fst (pin_or_validate pins obs))"
proof (cases "validate_observation obs")
  case (Inr u)
  then have val: "validate_observation obs = Inr ()" by simp
  note ok = validated_observation [OF val]
  have old: "pin_wf (observation_key obs, p)" if "map_of pins (observation_key obs) = Some p" for p
    using assms map_of_SomeD [OF that] by (auto simp: pins_wf_def list_all_iff)
  have later: "pin_first_observed_at p \<le> obs_observed_at obs"
    if "map_of pins (observation_key obs) = Some p" "\<not> obs_observed_at obs < pin_last_observed_at p" for p
    using old [OF that(1)] that(2) by (auto simp: pin_wf_def Let_def)
  show ?thesis
    using assms ok old later Inr
    by (auto simp: pin_or_validate_def Let_def pins_wf_def distinct_update pin_wf_def
        intro!: list_all_update split: option.splits)
qed (use assms in \<open>simp add: pin_or_validate_def\<close>)

lemma release_context_wf: "pins_wf pins \<Longrightarrow> pins_wf (fst (release_context pins c))"
  by (auto simp: pins_wf_def release_context_def Let_def list_all_iff distinct_map_filter)

section \<open>Properties\<close>

text \<open>A history of a pin set is a list of observations (\<open>Inl\<close>) and context releases (\<open>Inr\<close>).\<close>

definition dns_step :: "dns_observation + string \<Rightarrow> dns_pin_set \<Rightarrow> dns_pin_set" where
  "dns_step a pins =
     (case a of Inl obs \<Rightarrow> fst (pin_or_validate pins obs) | Inr c \<Rightarrow> fst (release_context pins c))"

text \<open>
  After any history of a fresh pin set, no (context, host) key occurs twice and every pin is
  stored under its own valid, normalised context and host, has a valid resolver and a non-empty
  address set, and was last observed no earlier than first observed.
\<close>

theorem dns_history_wf: "pins_wf (fold dns_step ops dns_pin_set_new)"
proof -
  have "pins_wf pins \<Longrightarrow> pins_wf (fold dns_step ops pins)" for pins
    by (induction ops arbitrary: pins)
      (auto simp: dns_step_def pin_or_validate_wf release_context_wf split: sum.splits)
  then show ?thesis by (simp add: pins_wf_def dns_pin_set_new_def)
qed

text \<open>
  DNS rebinding is blocked. Once an observation has been accepted, every later accepted
  observation of the same context and host, whatever was observed and whatever other contexts
  were released in between, has the same address set, the same resolver and a timestamp that
  did not move backwards.
\<close>

theorem dns_rebinding_blocked:
  assumes "pin_or_validate pins x = (pins1, Inr st)"
    and "\<forall>c. Inr c \<in> set ops \<longrightarrow> normalize_identifier c \<noteq> normalize_identifier (obs_context_id x)"
    and "pin_or_validate (fold dns_step ops pins1) y = (pins2, Inr st')"
    and "observation_key y = observation_key x"
  shows "obs_addresses y = obs_addresses x
    \<and> normalize_identifier (obs_resolver_id y) = normalize_identifier (obs_resolver_id x)
    \<and> obs_observed_at x \<le> obs_observed_at y"
  using dns.accepted_agree [OF assms(1) _ _ assms(4), of ops] assms(2,3)
  by (fastforce simp: observation_key_def dns_step_def [abs_def])

text \<open>A concrete observation of the tests: one public address of \<open>A.io.\<close>.\<close>

definition sample_observation :: "string \<Rightarrow> nat \<Rightarrow> dns_observation" where
  "sample_observation host t =
     \<lparr>obs_context_id = '' Run-1'', obs_host = host, obs_addresses = {|V4 0x01010101|},
      obs_resolver_id = ''system'', obs_ttl_seconds = 60, obs_observed_at = of_nat t\<rparr>"

theorem dns_rebinding_blocked_witness:
  "obs_addresses (sample_observation ''a.io'' 7)
     = obs_addresses (sample_observation ''A.io.'' 5)
   \<and> normalize_identifier (obs_resolver_id (sample_observation ''a.io'' 7))
     = normalize_identifier (obs_resolver_id (sample_observation ''A.io.'' 5))
   \<and> obs_observed_at (sample_observation ''A.io.'' 5)
     \<le> obs_observed_at (sample_observation ''a.io'' 7)"
proof -
  let ?x = "sample_observation ''A.io.'' 5" and ?y = "sample_observation ''a.io'' 7"
  let ?p1 = "fst (pin_or_validate [] ?x)"
  have a: "pin_or_validate [] ?x = (?p1, Inr Pinned)" by code_simp
  have b: "pin_or_validate (fold dns_step [Inr ''other''] ?p1) ?y
      = (fst (pin_or_validate (fold dns_step [Inr ''other''] ?p1) ?y), Inr Matched)" by code_simp
  have c: "\<forall>c. Inr c \<in> set [Inr ''other'' :: dns_observation + string] \<longrightarrow>
      normalize_identifier c \<noteq> normalize_identifier (obs_context_id ?x)" by simp code_simp
  have d: "observation_key ?y = observation_key ?x" by code_simp
  show ?thesis by (rule dns_rebinding_blocked [OF a c b d])
qed

text \<open>
  Releasing a context removes exactly its own pins: a lookup in that context finds nothing
  afterwards, a lookup in any other context is unchanged, and the returned count is the number
  of pins the context had.
\<close>

theorem release_context_exact:
  "dns_get (fst (release_context pins c)) c' h =
     (if normalize_identifier c' = normalize_identifier c then None else dns_get pins c' h)
   \<and> snd (release_context pins c) = length (filter (\<lambda>kp. fst (fst kp) = normalize_identifier c) pins)"
proof -
  have "length pins - length (filter (\<lambda>((a, _), _). a \<noteq> n) pins)
      = length (filter (\<lambda>kp. fst (fst kp) = n) pins)" for n
    using sum_length_filter_compl [of "\<lambda>kp. fst (fst kp) = n" pins]
    by (simp add: case_prod_unfold)
  then show ?thesis by (intro conjI) (simp add: dns_get_def map_of_release, simp add: release_context_def Let_def)
qed

end
