(* ===== verification/Budget.thy ===== *)
theory Budget
  imports Float64
begin

text \<open>
  The crate \<open>nxb-budget\<close>: the total, concurrency and rate limits of a run, a token bucket over
  doubles. \<open>try_start\<close> is a \<open>run\<close> because \<open>Duration::from_secs_f64\<close> may panic.
\<close>

section \<open>Data and operations\<close>

record request_budget =
  remaining :: u64
  max_concurrency :: u16
  in_flight :: u16
  tokens :: f64
  token_capacity :: f64
  refill_per_second :: f64
  last_refill :: duration

datatype budget_error =
  Exhausted
| ConcurrencyExceeded
| RateLimited (retry_after: duration)
| InvalidConfiguration string

definition budget_new :: "u64 \<Rightarrow> u16 \<Rightarrow> f64 \<Rightarrow> budget_error + request_budget" where
  "budget_new maximum_total_requests maximum_concurrency requests_per_second =
     (if maximum_total_requests = 0
        then Inl (InvalidConfiguration ''maximum_total_requests must be greater than zero'')
      else if maximum_concurrency = 0
        then Inl (InvalidConfiguration ''maximum_concurrency must be greater than zero'')
      else if \<not> f64_is_finite requests_per_second \<or> f64_le requests_per_second (Fin 0)
        then Inl (InvalidConfiguration ''requests_per_second must be finite and greater than zero'')
      else
        let capacity = f64_max requests_per_second (Fin 1) in
        Inr \<lparr>remaining = maximum_total_requests, max_concurrency = maximum_concurrency,
             in_flight = 0, tokens = capacity, token_capacity = capacity,
             refill_per_second = requests_per_second, last_refill = 0\<rparr>)"

definition refill :: "request_budget \<Rightarrow> duration \<Rightarrow> request_budget" where
  "refill b elapsed =
     (if elapsed \<le> last_refill b then b
      else
        let delta = elapsed - last_refill b in
        b\<lparr>tokens :=
             f64_min (f64_add (tokens b) (f64_mul (as_secs_f64 delta) (refill_per_second b)))
               (token_capacity b),
           last_refill := elapsed\<rparr>)"

definition try_start ::
  "request_budget \<Rightarrow> duration \<Rightarrow> (request_budget \<times> (budget_error + unit)) run" where
  "try_start b0 elapsed =
     (let b = refill b0 elapsed in
      if remaining b = 0 then Ret (b, Inl Exhausted)
      else if in_flight b \<ge> max_concurrency b then Ret (b, Inl ConcurrencyExceeded)
      else if f64_lt (tokens b) (Fin 1) then
        let missing = f64_sub (Fin 1) (tokens b);
            retry_seconds = f64_div missing (refill_per_second b) in
        (case from_secs_f64 retry_seconds of
           Panic \<Rightarrow> Panic
         | Ret d \<Rightarrow> Ret (b, Inl (RateLimited d)))
      else
        Ret (b\<lparr>tokens := f64_sub (tokens b) (Fin 1),
                remaining := remaining b - 1,
                in_flight := in_flight b + 1\<rparr>, Inr ()))"

definition budget_finish :: "request_budget \<Rightarrow> request_budget" where
  "budget_finish b = b\<lparr>in_flight := saturating_sub (in_flight b) 1\<rparr>"

section \<open>Invariant\<close>

text \<open>
  The rate is a positive double, the capacity is the larger of the rate and one, and the bucket
  holds between nothing and its capacity; no more requests run than the limit allows.
\<close>

definition budget_wf :: "request_budget \<Rightarrow> bool" where
  "budget_wf b =
     (in_flight b \<le> max_concurrency b \<and> max_concurrency b \<noteq> 0
      \<and> (case (tokens b, token_capacity b, refill_per_second b) of
           (Fin t, Fin c, Fin r) \<Rightarrow>
             round64 t = Fin t \<and> round64 c = Fin c \<and> 0 \<le> t \<and> t \<le> c \<and> 0 < r \<and> c = max r 1
         | _ \<Rightarrow> False))"

lemma budget_wfE:
  assumes "budget_wf b"
  obtains t c r where "tokens b = Fin t" "token_capacity b = Fin c" "refill_per_second b = Fin r"
    "round64 t = Fin t" "round64 c = Fin c" "0 \<le> t" "t \<le> c" "0 < r" "c = max r 1"
    "in_flight b \<le> max_concurrency b" "max_concurrency b \<noteq> 0"
  using assms by (auto simp: budget_wf_def split: f64.splits)

lemma round64_one [simp]: "round64 1 = Fin 1"
proof -
  have "ilog2 1 = 0" by (rule ilog2_unique) auto
  then have "round_pos 1 = 1" by (intro round_pos_exact [of 1 1 0]) (auto simp: ulp_exp_def)
  then show ?thesis by (simp add: round64_pos)
qed

lemma budget_new_wf:
  "\<lbrakk>budget_new limit conc rate = Inr b; is_f64 rate\<rbrakk> \<Longrightarrow> budget_wf b"
  by (cases rate) (auto simp: budget_new_def Let_def budget_wf_def f64_max_def max_def split: if_splits)

text \<open>A non-negative sum or product of doubles is a double or overflows; it is never undefined.\<close>

lemma f64_of_nat_nonneg: "f64_of_nat n = PInf \<or> (\<exists>x\<ge>0. f64_of_nat n = Fin x)"
  by (simp add: f64_of_nat_def round64_nonneg)

definition nonneg_f64 :: "f64 \<Rightarrow> bool" where
  "nonneg_f64 v = (v = PInf \<or> (\<exists>x\<ge>0. v = Fin x))"

lemma nonneg_round: "0 \<le> x \<Longrightarrow> nonneg_f64 (round64 x)"
  using round64_nonneg [of x] by (simp add: nonneg_f64_def)

lemma nonneg_add: "\<lbrakk>nonneg_f64 a; nonneg_f64 b\<rbrakk> \<Longrightarrow> nonneg_f64 (f64_add a b)"
  by (auto simp: nonneg_f64_def [of a] nonneg_f64_def [of b] nonneg_round) (auto simp: nonneg_f64_def)

lemma nonneg_as_secs: "nonneg_f64 (as_secs_f64 d)"
proof -
  have "ilog2 (10 ^ 9) = 29" by (rule ilog2_unique) (simp_all add: power_int_def)
  then have "round_pos (10 ^ 9) = 10 ^ 9"
    by (intro round_pos_exact [of "10 ^ 9" "10 ^ 9" 0]) (auto simp: ulp_exp_def)
  then have nps: "f64_of_nat nanos_per_sec = Fin (10 ^ 9)"
    by (simp add: f64_of_nat_def nanos_per_sec_def round64_pos)
  have "nonneg_f64 (f64_div (f64_of_nat n) (Fin (10 ^ 9)))" for n
    using f64_of_nat_nonneg [of n] nonneg_round
    by (auto simp: nonneg_f64_def [of PInf] inf_of_sign_def)
  then show ?thesis
    using f64_of_nat_nonneg [of "d div nanos_per_sec"]
    unfolding as_secs_f64_def nps by (intro nonneg_add) (auto simp: nonneg_f64_def)
qed

lemma nonneg_mul: "\<lbrakk>nonneg_f64 a; 0 < r\<rbrakk> \<Longrightarrow> nonneg_f64 (f64_mul a (Fin r))"
  by (auto simp: nonneg_f64_def [of a] nonneg_round) (simp add: nonneg_f64_def inf_of_sign_def)

lemma refill_fields [simp]:
  "remaining (refill b d) = remaining b" "max_concurrency (refill b d) = max_concurrency b"
  "in_flight (refill b d) = in_flight b" "token_capacity (refill b d) = token_capacity b"
  "refill_per_second (refill b d) = refill_per_second b"
  "last_refill (refill b d) = max (last_refill b) d"
  by (auto simp: refill_def Let_def)

lemma refill_wf:
  assumes "budget_wf b"
  shows "budget_wf (refill b d)"
proof (cases "d \<le> last_refill b")
  case False
  from assms obtain t c r where b: "tokens b = Fin t" "token_capacity b = Fin c" "refill_per_second b = Fin r"
    "round64 t = Fin t" "round64 c = Fin c" "0 \<le> t" "t \<le> c" "0 < r" "c = max r 1"
    "in_flight b \<le> max_concurrency b" "max_concurrency b \<noteq> 0" by (rule budget_wfE)
  let ?g = "f64_mul (as_secs_f64 (d - last_refill b)) (refill_per_second b)"
  have g: "nonneg_f64 ?g" using b by (simp add: nonneg_mul nonneg_as_secs)
  have "\<exists>s. f64_min (f64_add (Fin t) ?g) (Fin c) = Fin s \<and> round64 s = Fin s \<and> 0 \<le> s \<and> s \<le> c"
  proof (cases ?g)
    case (Fin y)
    then have y: "0 \<le> t + y" using g b(6) by (simp add: nonneg_f64_def)
    then show ?thesis
      using round64_nonneg [OF y] round64_idem [OF y] b(5-7) Fin by (auto simp: f64_min_def)
  qed (use g b in \<open>auto simp: nonneg_f64_def f64_min_def\<close>)
  with b False show ?thesis by (auto simp: budget_wf_def refill_def Let_def)
qed (use assms in \<open>simp add: refill_def\<close>)

text \<open>A start that succeeds takes one token, one request and one slot; a refused one takes none.\<close>

lemma try_start_ok:
  assumes "budget_wf b" "try_start b d = Ret (b', Inr ())"
  shows "budget_wf b'" "unat (remaining b') + 1 = unat (remaining b)"
    "unat (in_flight b') = unat (in_flight b) + 1" "in_flight b < max_concurrency b"
    "last_refill b' = max (last_refill b) d"
    "max_concurrency b' = max_concurrency b" "token_capacity b' = token_capacity b"
proof -
  let ?b = "refill b d"
  from assms(2) have b': "b' = ?b\<lparr>tokens := f64_sub (tokens ?b) (Fin 1), remaining := remaining b - 1,
      in_flight := in_flight b + 1\<rparr>"
    and c: "remaining b \<noteq> 0" "in_flight b < max_concurrency b" "\<not> f64_lt (tokens ?b) (Fin 1)"
    by (auto simp: try_start_def Let_def not_le split: if_splits run.splits)
  from refill_wf [OF assms(1), of d] obtain t c r where
    t: "tokens ?b = Fin t" "token_capacity ?b = Fin c" "refill_per_second ?b = Fin r"
    "round64 t = Fin t" "round64 c = Fin c" "0 \<le> t" "t \<le> c" "0 < r" "c = max r 1"
    "in_flight ?b \<le> max_concurrency ?b" "max_concurrency ?b \<noteq> 0" by (rule budget_wfE)
  have one: "1 \<le> t" using c(3) t(1) by simp
  obtain s where s: "round64 (t - 1) = Fin s" "0 \<le> s" "s \<le> c"
    using round64_mono [of "t - 1" c c] one t(5,7) by auto
  have "round64 s = Fin s" using round64_idem [of "t - 1" s] s(1) one by simp
  moreover have "in_flight b + 1 \<le> max_concurrency b"
    using c(2) by (simp add: inc_le)
  ultimately show "budget_wf b'"
    using t s by (simp add: b' budget_wf_def f64_sub_def)
  show "unat (remaining b') + 1 = unat (remaining b)"
    using c(1) by (simp add: b' unat_minus_one unat_gt_0)
  have "in_flight b + 1 \<noteq> 0"
    using c(2) by (metis max_word_max add.right_neutral add_diff_cancel_right' diff_0 leD)
  then show "unat (in_flight b') = unat (in_flight b) + 1"
    using unatSuc [of "in_flight b"] by (simp add: b' add.commute)
  show "in_flight b < max_concurrency b" "last_refill b' = max (last_refill b) d"
    "max_concurrency b' = max_concurrency b" "token_capacity b' = token_capacity b"
    using c(2) by (simp_all add: b')
qed

lemma try_start_err:
  "try_start b d = Ret (b', Inl e) \<Longrightarrow> b' = refill b d"
  by (auto simp: try_start_def Let_def split: if_splits run.splits)

lemma budget_finish_wf: "budget_wf b \<Longrightarrow> budget_wf (budget_finish b)"
proof -
  have "saturating_sub (in_flight b) 1 \<le> in_flight b"
    by (simp add: saturating_sub_def word_le_nat_alt unat_sub)
  then show "budget_wf b \<Longrightarrow> budget_wf (budget_finish b)"
    by (auto simp: budget_wf_def budget_finish_def split: f64.splits)
qed

section \<open>Histories\<close>

datatype budget_op = Start duration | Finish

text \<open>The state after a history, with the number of starts that succeeded.\<close>

fun budget_run :: "budget_op list \<Rightarrow> request_budget \<Rightarrow> (request_budget \<times> nat) run" where
  "budget_run [] b = Ret (b, 0)"
| "budget_run (Finish # ops) b = budget_run ops (budget_finish b)"
| "budget_run (Start d # ops) b =
     (case try_start b d of
        Panic \<Rightarrow> Panic
      | Ret (b1, r) \<Rightarrow>
          (case budget_run ops b1 of
             Panic \<Rightarrow> Panic
           | Ret (b2, k) \<Rightarrow> Ret (b2, if isl r then k else k + 1)))"

lemma budget_run_wf:
  assumes "budget_wf b" "budget_run ops b = Ret (b', k)"
  shows "budget_wf b' \<and> k + unat (remaining b') = unat (remaining b)
    \<and> max_concurrency b' = max_concurrency b
    \<and> unat (in_flight b) + k \<le> unat (in_flight b') + count_list ops Finish
    \<and> unat (in_flight b') \<le> unat (in_flight b) + k"
  using assms
proof (induction ops b arbitrary: b' k rule: budget_run.induct)
  case (2 ops b)
  have "unat (in_flight (budget_finish b)) = unat (in_flight b) - 1"
    by (simp add: budget_finish_def unat_saturating_sub)
  with "2.IH" [of b' k] "2.prems" show ?case
    by (auto simp: budget_finish_wf) (auto simp: budget_finish_def)
next
  case (3 d ops b)
  from "3.prems"(2) obtain b1 r b2 k2 where r: "try_start b d = Ret (b1, r)"
    "budget_run ops b1 = Ret (b2, k2)" "b' = b2" "k = (if isl r then k2 else k2 + 1)"
    by (auto split: run.splits)
  show ?case
  proof (cases r)
    case (Inl e)
    then show ?thesis
      using "3.IH" [of "(b1, r)" b1 r b2 k2] r try_start_err [of b d b1 e] "3.prems"(1)
      by (simp add: refill_wf)
  next
    case (Inr u)
    then show ?thesis
      using "3.IH" [of "(b1, r)" b1 r b2 k2] r try_start_ok [of b d b1] "3.prems"(1) by simp
  qed
qed simp

lemma refill_minus_one:
  assumes "try_start b d = Ret (b1, Inr ())" "tokens (refill b d) = Fin t" "round64 t = Fin t" "t < 2 ^ 53"
  shows "tokens (refill b1 d) = Fin (t - 1)" "1 \<le> t"
  using assms round64_minus_one [of t]
  by (auto simp: try_start_def Let_def refill_def f64_sub_def not_less split: if_splits run.splits)

lemma refill_same: "refill (refill b d) d = refill b d"
  by (simp add: refill_def Let_def)

text \<open>At one instant no more starts succeed than the bucket holds whole tokens.\<close>

lemma burst_bound:
  assumes "budget_run ops b = Ret (b', k)" "\<forall>x\<in>set ops. x = Finish \<or> x = Start d"
    and "budget_wf b" "tokens (refill b d) = Fin t" "t < 2 ^ 53"
  shows "of_nat k \<le> t"
  using assms
proof (induction ops b arbitrary: b' k t rule: budget_run.induct)
  case (1 b)
  then show ?case using refill_wf [of b d] by (auto simp: budget_wf_def split: f64.splits)
next
  case (2 ops b)
  have "tokens (refill (budget_finish b) d) = tokens (refill b d)"
    by (simp add: budget_finish_def refill_def Let_def)
  with 2 show ?case by (auto simp: budget_finish_wf)
next
  case (3 d' ops b)
  from "3.prems"(1,2) obtain b1 r b2 k2 where r: "try_start b d = Ret (b1, r)"
    "budget_run ops b1 = Ret (b2, k2)" "b' = b2" "k = (if isl r then k2 else k2 + 1)" "d' = d"
    by (auto split: run.splits)
  have t: "round64 t = Fin t"
    using refill_wf [OF "3.prems"(3), of d] "3.prems"(4) by (auto simp: budget_wf_def split: f64.splits)
  show ?case
  proof (cases r)
    case (Inl e)
    then show ?thesis
      using "3.IH" [of "(b1, r)" b1 r b2 k2 t] r try_start_err [of b d b1 e] "3.prems"
      by (simp add: refill_wf refill_same)
  next
    case (Inr u)
    then show ?thesis
      using "3.IH" [of "(b1, r)" b1 r b2 k2 "t - 1"] r try_start_ok(1) [of b d b1] "3.prems" t
        refill_minus_one [of b d b1 t] by simp
  qed
qed

text \<open>The delay a refused start reports, and when computing it panics.\<close>

lemma round64_pow2: "\<lbrakk>0 \<le> n; n < 1024\<rbrakk> \<Longrightarrow> round64 (2 powi n) = Fin (2 powi n)"
proof -
  assume n: "0 \<le> n" "n < 1024"
  have "ilog2 (2 powi n) = n" by (rule ilog2_unique) (simp_all add: powi_less_iff)
  then have "round_pos (2 powi n) = 2 powi n"
    using n by (intro round_pos_exact [of _ 1 n]) (auto simp: ulp_exp_def)
  moreover have "(2::rat) powi n < 2 ^ 1024"
    using powi_less_iff [of n 1024] n by (simp add: power_int_def)
  ultimately show ?thesis by (simp add: round64_pos)
qed

lemma retry_no_panic:
  assumes "0 \<le> m" "m \<le> 1" "1 / 2 ^ 63 \<le> r"
  shows "from_secs_f64 (f64_div (Fin m) (Fin r)) \<noteq> Panic"
proof -
  have r: "0 < r" using assms(3) by (rule less_le_trans [rotated]) simp
  have q: "0 \<le> m / r" "m / r \<le> 2 powi 63"
    using assms r by (simp_all add: power_int_def field_simps)
  obtain s where s: "round64 (m / r) = Fin s" "0 \<le> s" "s \<le> 2 powi 63"
    using round64_mono [OF q round64_pow2] by auto
  have "s * of_nat nanos_per_sec \<le> of_int (2 ^ 63 * 10 ^ 9)"
    using s(3) by (simp add: nanos_per_sec_def power_int_def)
  then have "round_half_even (s * of_nat nanos_per_sec) \<le> 2 ^ 63 * 10 ^ 9"
    using round_half_even_mono round_half_even_of_int by metis
  then show ?thesis using r s by (auto simp: duration_limit_def nanos_per_sec_def Let_def)
qed

lemma retry_panic:
  assumes "0 < r" "r \<le> 1 / 2 ^ 64"
  shows "from_secs_f64 (f64_div (Fin 1) (Fin r)) = Panic"
proof (cases "round64 (1 / r)")
  case (Fin s)
  have "2 powi 64 \<le> 1 / r" using assms by (simp add: power_int_def field_simps)
  then have "2 powi 64 \<le> s" using round64_mono [OF _ _ Fin, of "2 powi 64"] round64_pow2 [of 64] by auto
  then have "of_int (2 ^ 64 * 10 ^ 9) \<le> s * of_nat nanos_per_sec"
    by (simp add: nanos_per_sec_def power_int_def)
  then have "2 ^ 64 * 10 ^ 9 \<le> round_half_even (s * of_nat nanos_per_sec)"
    using round_half_even_mono round_half_even_of_int by metis
  then show ?thesis using assms Fin by (auto simp: duration_limit_def nanos_per_sec_def Let_def)
qed (use assms in auto)

lemma try_start_no_panic:
  assumes "budget_wf b" "refill_per_second b = Fin r" "1 / 2 ^ 63 \<le> r"
  shows "try_start b d \<noteq> Panic"
proof -
  let ?b = "refill b d"
  from refill_wf [OF assms(1), of d] obtain t where t: "tokens ?b = Fin t" "0 \<le> t"
    by (rule budget_wfE)
  have "from_secs_f64 (f64_div (f64_sub (Fin 1) (Fin t)) (Fin r)) \<noteq> Panic" if "t < 1"
  proof -
    obtain m where "round64 (1 - t) = Fin m" "0 \<le> m" "m \<le> 1"
      using round64_mono [of "1 - t" 1 1] \<open>t < 1\<close> t(2) by auto
    then show ?thesis using retry_no_panic [OF _ _ assms(3), of m] by (simp add: f64_sub_def)
  qed
  then show ?thesis using t assms(2) by (auto simp: try_start_def Let_def split: run.splits)
qed

lemma refill_rate: "try_start b d = Ret (b1, x) \<Longrightarrow> refill_per_second b1 = refill_per_second b"
  by (auto simp: try_start_def Let_def split: if_splits run.splits)

lemma budget_run_no_panic:
  "\<lbrakk>budget_wf b; refill_per_second b = Fin r; 1 / 2 ^ 63 \<le> r\<rbrakk> \<Longrightarrow> budget_run ops b \<noteq> Panic"
proof (induction ops b rule: budget_run.induct)
  case (2 ops b)
  then show ?case by (simp add: budget_finish_wf) (simp add: budget_finish_def)
next
  case (3 d ops b)
  obtain b1 x where x: "try_start b d = Ret (b1, x)"
    using try_start_no_panic [OF "3.prems", of d] by (cases "try_start b d") auto
  have "budget_wf b1"
    using try_start_ok(1) [of b d b1] try_start_err [of b d b1] refill_wf [of b d] x "3.prems"(1)
    by (cases x) auto
  then show ?case
    using "3.IH" [OF x, of b1 x] x refill_rate [OF x] "3.prems" by (auto split: run.splits)
qed simp

section \<open>Properties\<close>

text \<open>
  C28: Budget accounting over every history of starts and finishes of a new budget: the number of
  starts that succeeded plus what remains is exactly the configured total, so the total is never
  exceeded; the requests in flight never exceed the configured concurrency, and are at least the
  successful starts less the finishes and at most the successful starts.
\<close>

theorem budget_accounting:
  assumes "budget_new limit conc rate = Inr b0" "is_f64 rate" "budget_run ops b0 = Ret (b, k)"
  shows "k + unat (remaining b) = unat limit \<and> in_flight b \<le> conc
    \<and> k - count_list ops Finish \<le> unat (in_flight b) \<and> unat (in_flight b) \<le> k"
proof -
  have wf: "budget_wf b0" using budget_new_wf assms(1,2) by blast
  have b0: "remaining b0 = limit" "max_concurrency b0 = conc" "in_flight b0 = 0"
    using assms(1) by (auto simp: budget_new_def Let_def split: if_splits)
  have "budget_wf b" "max_concurrency b = conc"
    using budget_run_wf [OF wf assms(3)] b0 by auto
  then have "in_flight b \<le> conc" by (simp add: budget_wf_def)
  then show ?thesis using budget_run_wf [OF wf assms(3)] b0 by auto
qed

text \<open>The budget the witnesses use: three requests, one at a time, two per second.\<close>

definition sample_budget :: request_budget where
  "sample_budget =
     \<lparr>remaining = 3, max_concurrency = 1, in_flight = 0, tokens = Fin 2, token_capacity = Fin 2,
      refill_per_second = Fin 2, last_refill = 0\<rparr>"

lemma sample_budget_new: "budget_new 3 1 (Fin 2) = Inr sample_budget"
  by (simp add: budget_new_def sample_budget_def f64_max_def Let_def)

lemma round64_two: "round64 2 = Fin 2"
  using round64_pow2 [of 1] by simp

lemma sample_budget_run:
  "budget_run [Start 0, Finish, Start 0, Start 0] sample_budget =
     Ret (sample_budget\<lparr>remaining := 1, in_flight := 1, tokens := Fin 0\<rparr>, 2)"
  by (simp add: try_start_def refill_def sample_budget_def Let_def f64_sub_def budget_finish_def
      saturating_sub_def round64_two)

theorem budget_accounting_witness:
  "2 + unat (1::u64) = unat (3::u64) \<and> (1::u16) \<le> 1
   \<and> 2 - count_list [Start 0, Finish, Start 0, Start 0] Finish \<le> unat (1::u16) \<and> unat (1::u16) \<le> 2"
  using budget_accounting [OF sample_budget_new _ sample_budget_run] by (simp add: round64_two)

text \<open>
  Burst bound. Whatever the history of finishes, at one instant no more starts of a new
  budget succeed than the larger of one and the configured rate: a rate of at most one request
  per second never lets two requests start together.
\<close>

theorem budget_burst:
  assumes "budget_new limit conc (Fin r) = Inr b0" "is_f64 (Fin r)" "r < 2 ^ 53"
    and "\<forall>x\<in>set ops. x = Finish \<or> x = Start d" "budget_run ops b0 = Ret (b, k)"
  shows "of_nat k \<le> max r 1"
proof -
  have wf: "budget_wf b0" using budget_new_wf assms(1,2) by blast
  have "token_capacity b0 = Fin (max r 1)"
    using assms(1) by (auto simp: budget_new_def Let_def f64_max_def max_def split: if_splits)
  then obtain t where t: "tokens (refill b0 d) = Fin t" "t \<le> max r 1"
    using refill_wf [OF wf, of d] by (auto elim: budget_wfE)
  then have "t < 2 ^ 53" using assms(3) by (simp add: max_def split: if_splits)
  with burst_bound [OF assms(5,4) wf t(1)] t(2) show ?thesis by linarith
qed

theorem budget_burst_witness: "of_nat 2 \<le> max (2::rat) 1"
  using budget_burst [OF sample_budget_new _ _ _ sample_budget_run, of 0] by (simp add: round64_two)

text \<open>
  For every accepted rate of at least \<open>2^-63\<close> requests per second no history of a budget
  panics: the retry delay of a refused start always fits a \<open>Duration\<close>.
\<close>

theorem budget_never_panics:
  assumes "budget_new limit conc (Fin r) = Inr b0" "is_f64 (Fin r)" "1 / 2 ^ 63 \<le> r"
  shows "\<exists>b k. budget_run ops b0 = Ret (b, k)"
proof -
  have "refill_per_second b0 = Fin r"
    using assms(1) by (auto simp: budget_new_def Let_def split: if_splits)
  then have "budget_run ops b0 \<noteq> Panic"
    using budget_run_no_panic budget_new_wf assms by blast
  then show ?thesis by (cases "budget_run ops b0") auto
qed

theorem budget_never_panics_witness: "\<exists>b k. budget_run [Start 0, Start 5] sample_budget = Ret (b, k)"
  by (rule budget_never_panics [OF sample_budget_new]) (simp_all add: round64_two)

text \<open>
  C32: The configuration check accepts rates whose retry delay does not fit a \<open>Duration\<close>: with any
  rate of at most \<open>2^-64\<close> requests per second and room for a second request, the second start at
  the same instant panics instead of reporting a rate limit.
\<close>

theorem budget_tiny_rate_panics:
  assumes "0 < r" "r \<le> 1 / 2 ^ 64" "2 \<le> limit" "2 \<le> conc"
  shows "\<exists>b0 b1. budget_new limit conc (Fin r) = Inr b0
    \<and> try_start b0 0 = Ret (b1, Inr ()) \<and> try_start b1 0 = Panic"
proof -
  have r: "max r 1 = 1" using assms(2) by (simp add: max_def)
  have w: "limit \<noteq> 0" "conc \<noteq> 0" "limit - 1 \<noteq> 0" "\<not> conc \<le> 1"
    using assms(3,4) by (auto simp: word_le_nat_alt word_unat_eq_iff unat_sub_if_size)
  let ?b0 = "\<lparr>remaining = limit, max_concurrency = conc, in_flight = 0, tokens = Fin 1,
    token_capacity = Fin 1, refill_per_second = Fin r, last_refill = 0\<rparr>"
  let ?b1 = "?b0\<lparr>tokens := Fin 0, remaining := limit - 1, in_flight := 1\<rparr>"
  have "budget_new limit conc (Fin r) = Inr ?b0"
    using w assms r by (simp add: budget_new_def f64_max_def Let_def max_def split: if_splits)
  moreover have "try_start ?b0 0 = Ret (?b1, Inr ())"
    using w by (simp add: try_start_def refill_def Let_def f64_sub_def)
  moreover have "try_start ?b1 0 = Panic"
    using w retry_panic [OF assms(1,2)] by (simp add: try_start_def refill_def Let_def f64_sub_def)
  ultimately show ?thesis by blast
qed

theorem budget_tiny_rate_panics_witness:
  "\<exists>b0 b1. budget_new 2 2 (Fin (1 / 2 ^ 64)) = Inr b0
    \<and> try_start b0 0 = Ret (b1, Inr ()) \<and> try_start b1 0 = Panic"
  by (rule budget_tiny_rate_panics) simp_all

end
