(* ===== verification/Destination.thy ===== *)
theory Destination
  imports Ip_Addr
begin

text \<open>
  \<open>crates/nxb-destination/src/lib.rs\<close>: the classifier of resolved addresses, and the older
  boolean test \<open>nxb_policy::is_public_destination\<close>. The classifier is compared with a reference
  table of address blocks read off as numeric intervals, and the two public tests with each
  other.
\<close>

unbundle bit_operations_syntax

section \<open>The classifier\<close>

datatype destination_class =
    Public | Unspecified | Loopback | Private | SharedAddressSpace | LinkLocal | Documentation
  | Benchmarking | ProtocolAssignment | Multicast | Reserved | Broadcast | UniqueLocal | SiteLocal
  | Orchid | DiscardOnly | Ipv4MappedNonPublic

definition class_is_allowed :: "destination_class \<Rightarrow> bool" where
  "class_is_allowed c \<longleftrightarrow> c = Public"

fun destination_class_code :: "destination_class \<Rightarrow> string" where
  "destination_class_code Public = ''public''"
| "destination_class_code Unspecified = ''unspecified''"
| "destination_class_code Loopback = ''loopback''"
| "destination_class_code Private = ''private''"
| "destination_class_code SharedAddressSpace = ''shared_address_space''"
| "destination_class_code LinkLocal = ''link_local''"
| "destination_class_code Documentation = ''documentation''"
| "destination_class_code Benchmarking = ''benchmarking''"
| "destination_class_code ProtocolAssignment = ''protocol_assignment''"
| "destination_class_code Multicast = ''multicast''"
| "destination_class_code Reserved = ''reserved''"
| "destination_class_code Broadcast = ''broadcast''"
| "destination_class_code UniqueLocal = ''unique_local''"
| "destination_class_code SiteLocal = ''site_local''"
| "destination_class_code Orchid = ''orchid''"
| "destination_class_code DiscardOnly = ''discard_only''"
| "destination_class_code Ipv4MappedNonPublic = ''ipv4_mapped_non_public''"

record destination_assessment =
  da_ip :: ip_addr
  da_class :: destination_class

definition assessment_is_allowed :: "destination_assessment \<Rightarrow> bool" where
  "assessment_is_allowed a = class_is_allowed (da_class a)"

definition in_ipv4_prefix :: "u32 \<Rightarrow> u32 \<Rightarrow> nat \<Rightarrow> bool" where
  "in_ipv4_prefix ip network prefix_length =
     (let mask = (if prefix_length = 0 then 0 else push_bit (32 - prefix_length) (- 1)) in
      ip AND mask = network AND mask)"

definition in_ipv6_prefix :: "u128 \<Rightarrow> u128 \<Rightarrow> nat \<Rightarrow> bool" where
  "in_ipv6_prefix ip network prefix_length =
     (let mask = (if prefix_length = 0 then 0 else push_bit (128 - prefix_length) (- 1)) in
      ip AND mask = network AND mask)"

definition classify_ipv4 :: "u32 \<Rightarrow> destination_class" where
  "classify_ipv4 ip =
     (if in_ipv4_prefix ip (ipv4_new 0 0 0 0) 8 then Unspecified
      else if ipv4_is_loopback ip then Loopback
      else if ipv4_is_private ip then Private
      else if in_ipv4_prefix ip (ipv4_new 100 64 0 0) 10 then SharedAddressSpace
      else if ipv4_is_link_local ip then LinkLocal
      else if in_ipv4_prefix ip (ipv4_new 192 0 0 0) 24
            \<or> in_ipv4_prefix ip (ipv4_new 192 88 99 0) 24 then ProtocolAssignment
      else if in_ipv4_prefix ip (ipv4_new 192 0 2 0) 24
            \<or> in_ipv4_prefix ip (ipv4_new 198 51 100 0) 24
            \<or> in_ipv4_prefix ip (ipv4_new 203 0 113 0) 24 then Documentation
      else if in_ipv4_prefix ip (ipv4_new 198 18 0 0) 15 then Benchmarking
      else if ipv4_is_multicast ip then Multicast
      else if ip = ipv4_new 255 255 255 255 then Broadcast
      else if in_ipv4_prefix ip (ipv4_new 240 0 0 0) 4 then Reserved
      else Public)"

definition classify_ipv6 :: "u128 \<Rightarrow> destination_class" where
  "classify_ipv6 ip =
     (if ipv6_is_unspecified ip then Unspecified
      else if ipv6_is_loopback ip then Loopback
      else case to_ipv4_mapped ip of
        Some mapped \<Rightarrow>
          (if class_is_allowed (classify_ipv4 mapped) then Public else Ipv4MappedNonPublic)
      | None \<Rightarrow>
          (let first = (of_nat (segment 0 ip) :: u16) in
           if first AND 0xfe00 = 0xfc00 then UniqueLocal
           else if first AND 0xffc0 = 0xfe80 then LinkLocal
           else if first AND 0xffc0 = 0xfec0 then SiteLocal
           else if first AND 0xff00 = 0xff00 then Multicast
           else if in_ipv6_prefix ip (ipv6_new [0x0100, 0, 0, 0, 0, 0, 0, 0]) 64 then DiscardOnly
           else if in_ipv6_prefix ip (ipv6_new [0x2001, 0x0db8, 0, 0, 0, 0, 0, 0]) 32
             then Documentation
           else if in_ipv6_prefix ip (ipv6_new [0x2001, 0x0002, 0, 0, 0, 0, 0, 0]) 48
             then Benchmarking
           else if in_ipv6_prefix ip (ipv6_new [0x2001, 0x0010, 0, 0, 0, 0, 0, 0]) 28
                 \<or> in_ipv6_prefix ip (ipv6_new [0x2001, 0x0020, 0, 0, 0, 0, 0, 0]) 28 then Orchid
           else if in_ipv6_prefix ip (ipv6_new [0x0064, 0xff9b, 0, 0, 0, 0, 0, 0]) 96
                 \<or> in_ipv6_prefix ip (ipv6_new [0x0064, 0xff9b, 1, 0, 0, 0, 0, 0]) 48
                 \<or> in_ipv6_prefix ip (ipv6_new [0x2001, 0, 0, 0, 0, 0, 0, 0]) 23
                 \<or> in_ipv6_prefix ip (ipv6_new [0x2002, 0, 0, 0, 0, 0, 0, 0]) 16
             then ProtocolAssignment
           else if in_ipv6_prefix ip (ipv6_new [0x3ffe, 0, 0, 0, 0, 0, 0, 0]) 16 then Reserved
           else Public))"

fun assess_destination :: "ip_addr \<Rightarrow> destination_assessment" where
  "assess_destination (V4 ip) = \<lparr>da_ip = V4 ip, da_class = classify_ipv4 ip\<rparr>"
| "assess_destination (V6 ip) = \<lparr>da_ip = V6 ip, da_class = classify_ipv6 ip\<rparr>"

definition is_public_destination :: "ip_addr \<Rightarrow> bool" where
  "is_public_destination ip = assessment_is_allowed (assess_destination ip)"

text \<open>The boolean test of the policy crate.\<close>

definition policy_is_public_v4 :: "u32 \<Rightarrow> bool" where
  "policy_is_public_v4 ip \<longleftrightarrow>
     \<not> ipv4_is_private ip \<and> \<not> ipv4_is_loopback ip \<and> \<not> ipv4_is_link_local ip \<and>
     \<not> ipv4_is_broadcast ip \<and> \<not> ipv4_is_documentation ip \<and> \<not> ipv4_is_unspecified ip \<and>
     \<not> ipv4_is_multicast ip"

fun policy_is_public_destination :: "ip_addr \<Rightarrow> bool" where
  "policy_is_public_destination (V4 ip) = policy_is_public_v4 ip"
| "policy_is_public_destination (V6 ip) =
     (let first = (of_nat (segment 0 ip) :: u16);
          unique_local = (first AND 0xfe00 = 0xfc00);
          link_local = (first AND 0xffc0 = 0xfe80) in
      \<not> ipv6_is_loopback ip \<and> \<not> ipv6_is_unspecified ip \<and> \<not> ipv6_is_multicast ip \<and>
      \<not> unique_local \<and> \<not> link_local \<and>
      (case to_ipv4_mapped ip of None \<Rightarrow> True | Some v4 \<Rightarrow> policy_is_public_v4 v4))"

section \<open>Masks are divisions\<close>

lemma and_not_mask_eq: "x AND NOT (mask k) = push_bit k (drop_bit k x)"
  for x :: "'l::len word"
  by (rule bit_word_eqI) (auto simp: bit_simps)

lemma drop_push_drop_bit: "drop_bit k (push_bit k (drop_bit k x)) = drop_bit k x"
  for x :: "'l::len word"
  by (rule bit_word_eqI) (auto simp: bit_simps dest: bit_imp_le_length)

lemma mask_eq_iff_div:
  fixes x y :: "'l::len word"
  shows "x AND NOT (mask k) = y AND NOT (mask k) \<longleftrightarrow> unat x div 2 ^ k = unat y div 2 ^ k"
proof -
  have "x AND NOT (mask k) = y AND NOT (mask k) \<longleftrightarrow> drop_bit k x = drop_bit k y"
    unfolding and_not_mask_eq by (metis drop_push_drop_bit)
  also have "\<dots> \<longleftrightarrow> unat (drop_bit k x) = unat (drop_bit k y)"
    by (rule word_unat_eq_iff)
  also have "\<dots> \<longleftrightarrow> drop_bit k (unat x) = drop_bit k (unat y)"
    by (simp only: unat_drop_bit_eq)
  finally show ?thesis by (simp only: drop_bit_eq_div)
qed

lemma in_ipv4_prefix_iff:
  "0 < n \<Longrightarrow> n \<le> 32 \<Longrightarrow>
     in_ipv4_prefix ip net n \<longleftrightarrow> unat ip div 2 ^ (32 - n) = unat net div 2 ^ (32 - n)"
  by (simp add: in_ipv4_prefix_def Let_def mask_eq_iff_div)

lemma in_ipv6_prefix_iff:
  "0 < n \<Longrightarrow> n \<le> 128 \<Longrightarrow>
     in_ipv6_prefix ip net n \<longleftrightarrow> unat ip div 2 ^ (128 - n) = unat net div 2 ^ (128 - n)"
  by (simp add: in_ipv6_prefix_def Let_def mask_eq_iff_div)

lemma div_eq_interval: "0 < d \<Longrightarrow> n div d = m \<longleftrightarrow> m * d \<le> n \<and> n < m * d + d" for n :: nat
  using dividend_less_times_div [of d n]
  by (auto intro!: div_nat_eqI simp: algebra_simps)

section \<open>The reference table\<close>

text \<open>
  Special-purpose blocks as closed intervals of addresses, in the order of precedence the
  classifier gives them. An address in no block is public.
\<close>

definition quad :: "nat \<Rightarrow> nat \<Rightarrow> nat \<Rightarrow> nat \<Rightarrow> nat" where
  "quad a b c d = ((a * 256 + b) * 256 + c) * 256 + d"

definition special_ipv4 :: "(nat \<times> nat \<times> destination_class) list" where
  "special_ipv4 =
    [(quad 0 0 0 0, quad 0 255 255 255, Unspecified),
     (quad 127 0 0 0, quad 127 255 255 255, Loopback),
     (quad 10 0 0 0, quad 10 255 255 255, Private),
     (quad 172 16 0 0, quad 172 31 255 255, Private),
     (quad 192 168 0 0, quad 192 168 255 255, Private),
     (quad 100 64 0 0, quad 100 127 255 255, SharedAddressSpace),
     (quad 169 254 0 0, quad 169 254 255 255, LinkLocal),
     (quad 192 0 0 0, quad 192 0 0 255, ProtocolAssignment),
     (quad 192 88 99 0, quad 192 88 99 255, ProtocolAssignment),
     (quad 192 0 2 0, quad 192 0 2 255, Documentation),
     (quad 198 51 100 0, quad 198 51 100 255, Documentation),
     (quad 203 0 113 0, quad 203 0 113 255, Documentation),
     (quad 198 18 0 0, quad 198 19 255 255, Benchmarking),
     (quad 224 0 0 0, quad 239 255 255 255, Multicast),
     (quad 255 255 255 255, quad 255 255 255 255, Broadcast),
     (quad 240 0 0 0, quad 255 255 255 255, Reserved)]"

text \<open>An IPv6 block: the top \<open>k\<close> bits as a number, \<open>k\<close>, and the class.\<close>

definition v6_block :: "nat \<Rightarrow> nat \<Rightarrow> destination_class \<Rightarrow> nat \<times> nat \<times> destination_class" where
  "v6_block hi k c = (hi * 2 ^ (128 - k), hi * 2 ^ (128 - k) + (2 ^ (128 - k) - 1), c)"

definition special_ipv6 :: "(nat \<times> nat \<times> destination_class) list" where
  "special_ipv6 =
    [v6_block 0 128 Unspecified,
     v6_block 1 128 Loopback,
     v6_block 0x7e 7 UniqueLocal,
     v6_block 0x3fa 10 LinkLocal,
     v6_block 0x3fb 10 SiteLocal,
     v6_block 0xff 8 Multicast,
     v6_block 0x0100000000000000 64 DiscardOnly,
     v6_block 0x20010db8 32 Documentation,
     v6_block 0x200100020000 48 Benchmarking,
     v6_block 0x2001001 28 Orchid,
     v6_block 0x2001002 28 Orchid,
     v6_block 0x0064ff9b0000000000000000 96 ProtocolAssignment,
     v6_block 0x0064ff9b0001 48 ProtocolAssignment,
     v6_block 0x100080 23 ProtocolAssignment,
     v6_block 0x2002 16 ProtocolAssignment,
     v6_block 0x3ffe 16 Reserved]"

definition table_class :: "(nat \<times> nat \<times> destination_class) list \<Rightarrow> nat \<Rightarrow> destination_class" where
  "table_class t n =
     (case find (\<lambda>(lo, hi, c). lo \<le> n \<and> n \<le> hi) t of None \<Rightarrow> Public | Some (_, _, c) \<Rightarrow> c)"

fun reference_class :: "ip_addr \<Rightarrow> destination_class" where
  "reference_class (V4 ip) = table_class special_ipv4 (unat ip)"
| "reference_class (V6 ip) =
     (if unat ip div 2 ^ 32 = 0xffff then
        (if table_class special_ipv4 (unat ip mod 2 ^ 32) = Public then Public
         else Ipv4MappedNonPublic)
      else table_class special_ipv6 (unat ip))"

lemma table_class_simps:
  "table_class [] n = Public"
  "table_class ((lo, hi, c) # t) n = (if lo \<le> n \<and> n \<le> hi then c else table_class t n)"
  by (simp_all add: table_class_def)

lemma octet_pairs:
  "octet 0 ip * 256 + octet 1 ip = unat ip div 2 ^ 16"
  "(octet 0 ip * 256 + octet 1 ip) * 256 + octet 2 ip = unat ip div 2 ^ 8"
proof -
  have "unat ip div 2 ^ 24 = unat ip div 2 ^ 16 div 256"
    by (simp add: div_mult2_eq [symmetric])
  then show 1: "octet 0 ip * 256 + octet 1 ip = unat ip div 2 ^ 16"
    unfolding octet_0_eq by (simp add: octet_def)
  have "unat ip div 2 ^ 16 = unat ip div 2 ^ 8 div 256"
    by (simp add: div_mult2_eq [symmetric])
  then show "(octet 0 ip * 256 + octet 1 ip) * 256 + octet 2 ip = unat ip div 2 ^ 8"
    unfolding 1 by (simp add: octet_def)
qed

lemma radix_eq: "x < k \<Longrightarrow> y < k \<Longrightarrow> a * k + x = b * k + y \<longleftrightarrow> a = b \<and> x = y" for a b k x y :: nat
  by (metis div_mult_self3 mod_mult_self3 mod_less div_less add_0_right less_nat_zero_code neq0_conv)

lemma radix_le: "x < k \<Longrightarrow> y < k \<Longrightarrow> a * k + x \<le> b * k + y \<longleftrightarrow> a < b \<or> a = b \<and> x \<le> y"
  for a b k x y :: nat
proof -
  assume *: "x < k" "y < k"
  consider "Suc a \<le> b" | "a = b" | "Suc b \<le> a" by linarith
  then show ?thesis
  proof cases
    case 1
    then have "Suc a * k \<le> b * k" by (rule mult_le_mono1)
    with 1 * show ?thesis by simp
  next
    case 3
    then have "Suc b * k \<le> a * k" by (rule mult_le_mono1)
    with 3 * show ?thesis by simp
  qed simp
qed

lemma octet_1_iff: "b < 256 \<Longrightarrow> octet 0 ip = a \<and> octet 1 ip = b \<longleftrightarrow> unat ip div 2 ^ 16 = a * 256 + b"
  unfolding octet_pairs(1) [symmetric] by (simp add: radix_eq octet_less)

lemma octet_1_range:
  "b < 256 \<Longrightarrow> c < 256 \<Longrightarrow> octet 0 ip = a \<and> b \<le> octet 1 ip \<and> octet 1 ip \<le> c \<longleftrightarrow>
     a * 256 + b \<le> unat ip div 2 ^ 16 \<and> unat ip div 2 ^ 16 \<le> a * 256 + c"
  unfolding octet_pairs(1) [symmetric] by (auto simp: radix_le octet_less)

lemma octet_2_iff:
  "b < 256 \<Longrightarrow> c < 256 \<Longrightarrow> octet 0 ip = a \<and> octet 1 ip = b \<and> octet 2 ip = c \<longleftrightarrow>
     unat ip div 2 ^ 8 = (a * 256 + b) * 256 + c"
  unfolding octet_pairs(2) [symmetric] by (metis octet_less radix_eq)

lemma div_le_interval: "0 < d \<Longrightarrow> n div d \<le> m \<longleftrightarrow> n < m * d + d" for n :: nat
  using div_less_iff_less_mult [of d n "Suc m"] by (simp add: less_Suc_eq_le algebra_simps)

lemma classify_ipv4_table: "classify_ipv4 ip = table_class special_ipv4 (unat ip)"
proof -
  define n where "n = unat ip"
  have bound: "n < 4294967296"
    unfolding n_def by (rule unat_bounds)
  have prefixes:
    "in_ipv4_prefix ip (ipv4_new 0 0 0 0) 8 \<longleftrightarrow> n \<le> 16777215"
    "in_ipv4_prefix ip (ipv4_new 100 64 0 0) 10 \<longleftrightarrow> 1681915904 \<le> n \<and> n \<le> 1686110207"
    "in_ipv4_prefix ip (ipv4_new 192 0 0 0) 24 \<longleftrightarrow> 3221225472 \<le> n \<and> n \<le> 3221225727"
    "in_ipv4_prefix ip (ipv4_new 192 88 99 0) 24 \<longleftrightarrow> 3227017984 \<le> n \<and> n \<le> 3227018239"
    "in_ipv4_prefix ip (ipv4_new 192 0 2 0) 24 \<longleftrightarrow> 3221225984 \<le> n \<and> n \<le> 3221226239"
    "in_ipv4_prefix ip (ipv4_new 198 51 100 0) 24 \<longleftrightarrow> 3325256704 \<le> n \<and> n \<le> 3325256959"
    "in_ipv4_prefix ip (ipv4_new 203 0 113 0) 24 \<longleftrightarrow> 3405803776 \<le> n \<and> n \<le> 3405804031"
    "in_ipv4_prefix ip (ipv4_new 198 18 0 0) 15 \<longleftrightarrow> 3323068416 \<le> n \<and> n \<le> 3323199487"
    "in_ipv4_prefix ip (ipv4_new 240 0 0 0) 4 \<longleftrightarrow> 4026531840 \<le> n \<and> n \<le> 4294967295"
    by (auto simp: in_ipv4_prefix_iff div_eq_interval ipv4_new_def n_def)
  have loopback: "ipv4_is_loopback ip \<longleftrightarrow> 2130706432 \<le> n \<and> n \<le> 2147483647"
    by (auto simp: ipv4_is_loopback_def octet_0_eq div_eq_interval n_def)
  have priv: "ipv4_is_private ip \<longleftrightarrow>
      (167772160 \<le> n \<and> n \<le> 184549375) \<or> (2886729728 \<le> n \<and> n \<le> 2887778303) \<or>
      (3232235520 \<le> n \<and> n \<le> 3232301055)"
  proof -
    have "octet 0 ip = 10 \<longleftrightarrow> 167772160 \<le> n \<and> n \<le> 184549375"
      by (auto simp: octet_0_eq div_eq_interval n_def)
    moreover have "octet 0 ip = 172 \<and> 16 \<le> octet 1 ip \<and> octet 1 ip \<le> 31 \<longleftrightarrow>
        172 * 256 + 16 \<le> unat ip div 2 ^ 16 \<and> unat ip div 2 ^ 16 \<le> 172 * 256 + 31"
      by (rule octet_1_range) simp_all
    moreover have "172 * 256 + 16 \<le> unat ip div 2 ^ 16 \<and> unat ip div 2 ^ 16 \<le> 172 * 256 + 31 \<longleftrightarrow>
        2886729728 \<le> n \<and> n \<le> 2887778303"
      by (auto simp: n_def less_eq_div_iff_mult_less_eq div_le_interval)
    moreover have "octet 0 ip = 192 \<and> octet 1 ip = 168 \<longleftrightarrow> unat ip div 2 ^ 16 = 192 * 256 + 168"
      by (rule octet_1_iff) simp
    moreover have "unat ip div 2 ^ 16 = 192 * 256 + 168 \<longleftrightarrow> 3232235520 \<le> n \<and> n \<le> 3232301055"
      by (auto simp: n_def div_eq_interval)
    ultimately show ?thesis unfolding ipv4_is_private_def by blast
  qed
  have link_local: "ipv4_is_link_local ip \<longleftrightarrow> 2851995648 \<le> n \<and> n \<le> 2852061183"
    unfolding ipv4_is_link_local_def using octet_1_iff [of 254 ip 169]
    by (auto simp: div_eq_interval n_def)
  have multicast: "ipv4_is_multicast ip \<longleftrightarrow> 3758096384 \<le> n \<and> n \<le> 4026531839"
    unfolding ipv4_is_multicast_def octet_0_eq n_def
    by (auto simp: less_eq_div_iff_mult_less_eq div_le_interval)
  have broadcast: "ip = ipv4_new 255 255 255 255 \<longleftrightarrow> n = 4294967295"
    by (simp add: word_unat_eq_iff n_def ipv4_new_def)
  show ?thesis
    unfolding classify_ipv4_def prefixes loopback priv link_local multicast broadcast
      special_ipv4_def table_class_simps n_def [symmetric]
    by (simp add: quad_def)
qed

lemma segment_0_eq: "segment 0 ip = unat ip div 2 ^ 112"
  using unat_bounds(5) [of ip] by (simp add: segment_def div_less_iff_less_mult)

lemma unat_segment_0: "unat (of_nat (segment 0 ip) :: u16) = unat ip div 2 ^ 112"
  using unat_bounds(5) [of ip]
  by (subst unat_of_nat_small) (simp_all add: segment_0_eq div_less_iff_less_mult)

lemma segment_mask_iff:
  fixes ip :: u128 and m net :: u16
  assumes "m = NOT (mask k)" "net AND m = net"
  shows "(of_nat (segment 0 ip) :: u16) AND m = net \<longleftrightarrow> unat ip div 2 ^ (112 + k) = unat net div 2 ^ k"
  using mask_eq_iff_div [of "of_nat (segment 0 ip) :: u16" k net] assms
  unfolding unat_segment_0 by (simp add: div_mult2_eq power_add)

lemma table_class_v6_block:
  "table_class (v6_block b k c # t) n = (if n div 2 ^ (128 - k) = b then c else table_class t n)"
proof -
  have "b * d \<le> n \<and> n \<le> b * d + (d - 1) \<longleftrightarrow> n div d = b" if "0 < d" for d
    using that by (simp add: div_eq_interval) linarith
  then have "b * 2 ^ (128 - k) \<le> n \<and> n \<le> b * 2 ^ (128 - k) + (2 ^ (128 - k) - 1) \<longleftrightarrow> n div 2 ^ (128 - k) = b"
    by simp
  then show ?thesis unfolding v6_block_def table_class_simps by (simp only:)
qed

lemma if_disj_nested: "(if a \<or> b then x else y) = (if a then x else if b then x else y)"
  by simp

lemma classify_ipv6_unmapped:
  assumes "to_ipv4_mapped ip = None"
  shows "classify_ipv6 ip = table_class special_ipv6 (unat ip)"
proof -
  define n where "n = unat ip"
  have ends: "ip = 0 \<longleftrightarrow> n div 2 ^ (128 - 128) = 0" "ip = 1 \<longleftrightarrow> n div 2 ^ (128 - 128) = 1"
    by (auto simp: word_unat_eq_iff n_def)
  have masks:
    "(of_nat (segment 0 ip) :: u16) AND 0xfe00 = 0xfc00 \<longleftrightarrow> n div 2 ^ (128 - 7) = 0x7e"
    "(of_nat (segment 0 ip) :: u16) AND 0xffc0 = 0xfe80 \<longleftrightarrow> n div 2 ^ (128 - 10) = 0x3fa"
    "(of_nat (segment 0 ip) :: u16) AND 0xffc0 = 0xfec0 \<longleftrightarrow> n div 2 ^ (128 - 10) = 0x3fb"
    "(of_nat (segment 0 ip) :: u16) AND 0xff00 = 0xff00 \<longleftrightarrow> n div 2 ^ (128 - 8) = 0xff"
    unfolding n_def
    by (simp_all add: segment_mask_iff [where k = 9] segment_mask_iff [where k = 6]
        segment_mask_iff [where k = 8] mask_eq_exp_minus_1)
  have prefix: "\<lbrakk>0 < k; k \<le> 128; unat net div 2 ^ (128 - k) = m\<rbrakk> \<Longrightarrow>
      in_ipv6_prefix ip net k \<longleftrightarrow> n div 2 ^ (128 - k) = m" for net k m
    unfolding n_def by (simp only: in_ipv6_prefix_iff)
  have prefixes:
    "in_ipv6_prefix ip (ipv6_new [0x0100, 0, 0, 0, 0, 0, 0, 0]) 64 \<longleftrightarrow> n div 2 ^ (128 - 64) = 0x0100000000000000"
    "in_ipv6_prefix ip (ipv6_new [0x2001, 0x0db8, 0, 0, 0, 0, 0, 0]) 32 \<longleftrightarrow> n div 2 ^ (128 - 32) = 0x20010db8"
    "in_ipv6_prefix ip (ipv6_new [0x2001, 0x0002, 0, 0, 0, 0, 0, 0]) 48 \<longleftrightarrow> n div 2 ^ (128 - 48) = 0x200100020000"
    "in_ipv6_prefix ip (ipv6_new [0x2001, 0x0010, 0, 0, 0, 0, 0, 0]) 28 \<longleftrightarrow> n div 2 ^ (128 - 28) = 0x2001001"
    "in_ipv6_prefix ip (ipv6_new [0x2001, 0x0020, 0, 0, 0, 0, 0, 0]) 28 \<longleftrightarrow> n div 2 ^ (128 - 28) = 0x2001002"
    "in_ipv6_prefix ip (ipv6_new [0x0064, 0xff9b, 0, 0, 0, 0, 0, 0]) 96 \<longleftrightarrow> n div 2 ^ (128 - 96) = 0x0064ff9b0000000000000000"
    "in_ipv6_prefix ip (ipv6_new [0x0064, 0xff9b, 1, 0, 0, 0, 0, 0]) 48 \<longleftrightarrow> n div 2 ^ (128 - 48) = 0x0064ff9b0001"
    "in_ipv6_prefix ip (ipv6_new [0x2001, 0, 0, 0, 0, 0, 0, 0]) 23 \<longleftrightarrow> n div 2 ^ (128 - 23) = 0x100080"
    "in_ipv6_prefix ip (ipv6_new [0x2002, 0, 0, 0, 0, 0, 0, 0]) 16 \<longleftrightarrow> n div 2 ^ (128 - 16) = 0x2002"
    "in_ipv6_prefix ip (ipv6_new [0x3ffe, 0, 0, 0, 0, 0, 0, 0]) 16 \<longleftrightarrow> n div 2 ^ (128 - 16) = 0x3ffe"
    by (rule prefix; simp add: ipv6_new_def)+
  show ?thesis
    unfolding classify_ipv6_def ipv6_is_unspecified_def ipv6_is_loopback_def ends masks Let_def
      special_ipv6_def table_class_v6_block n_def [symmetric] prefixes assms option.case if_disj_nested
      table_class_simps ..
qed

lemma reference_class_correct: "da_class (assess_destination a) = reference_class a"
proof (cases a)
  case (V4 ip)
  then show ?thesis by (simp add: classify_ipv4_table)
next
  case (V6 ip)
  show ?thesis
  proof (cases "to_ipv4_mapped ip")
    case None
    with V6 show ?thesis
      by (simp add: classify_ipv6_unmapped to_ipv4_mapped_def split: if_splits)
  next
    case (Some v)
    then have m: "unat ip div 2 ^ 32 = 0xffff" and v: "v = of_nat (unat ip mod 2 ^ 32)"
      by (simp_all add: to_ipv4_mapped_def split: if_splits)
    have "ip \<noteq> 0" "ip \<noteq> 1" using m by auto
    moreover have "unat v = unat ip mod 2 ^ 32"
      unfolding v by (rule unat_of_nat_small) simp
    ultimately show ?thesis using V6 Some m
      by (simp add: classify_ipv6_def ipv6_is_unspecified_def ipv6_is_loopback_def
          class_is_allowed_def classify_ipv4_table)
  qed
qed

lemma documentation_prefixes:
  "ipv4_is_documentation ip \<longleftrightarrow>
     in_ipv4_prefix ip (ipv4_new 192 0 2 0) 24 \<or> in_ipv4_prefix ip (ipv4_new 198 51 100 0) 24 \<or>
     in_ipv4_prefix ip (ipv4_new 203 0 113 0) 24"
  unfolding ipv4_is_documentation_def
  using octet_2_iff [of 0 2 ip 192] octet_2_iff [of 51 100 ip 198] octet_2_iff [of 0 113 ip 203]
  by (simp add: in_ipv4_prefix_iff ipv4_new_def)

lemma in_zero_prefix: "in_ipv4_prefix 0 (ipv4_new 0 0 0 0) 8"
  by (simp add: in_ipv4_prefix_iff ipv4_new_def)

lemma classify_ipv4_public:
  "classify_ipv4 ip = Public \<Longrightarrow> policy_is_public_v4 ip"
  unfolding classify_ipv4_def policy_is_public_v4_def documentation_prefixes ipv4_is_broadcast_def
    ipv4_is_unspecified_def
  by (auto simp: in_zero_prefix split: if_split_asm)

lemma mapped_segment_0: "to_ipv4_mapped ip = Some v \<Longrightarrow> segment 0 ip = 0"
proof -
  assume "to_ipv4_mapped ip = Some v"
  then have "unat ip div 2 ^ 32 = 0xffff"
    by (simp add: to_ipv4_mapped_def split: if_splits)
  then have "unat ip < 2 ^ 112" by (simp add: div_eq_interval)
  then show ?thesis by (simp add: segment_0_eq)
qed

lemma classify_ipv6_public:
  "classify_ipv6 ip = Public \<Longrightarrow> policy_is_public_destination (V6 ip)"
  unfolding classify_ipv6_def
  by (simp add: Let_def ipv6_is_multicast_def class_is_allowed_def classify_ipv4_public
      mapped_segment_0 split: if_split_asm option.split_asm)

lemmas public_table = is_public_destination_def assessment_is_allowed_def class_is_allowed_def
  classify_ipv4_table special_ipv4_def table_class_simps quad_def

section \<open>Properties\<close>

text \<open>
  C27: The class \<open>assess_destination\<close> gives an address is the class of the first block of the
  reference table that holds it, and \<open>Public\<close> for an address in no block; for an IPv4-mapped
  IPv6 address the table of the embedded IPv4 address decides.
\<close>

theorem assess_destination_reference:
  "assess_destination a = \<lparr>da_ip = a, da_class = reference_class a\<rparr>"
  using reference_class_correct [of a] by (cases a) simp_all

text \<open>
  Wrapping an IPv4 address in its IPv4-mapped IPv6 form never changes the verdict: the mapped
  form is a permitted destination exactly when the IPv4 address is.
\<close>

theorem mapped_destination_same_verdict:
  "is_public_destination (V6 (ipv4_mapped ip)) \<longleftrightarrow> is_public_destination (V4 ip)"
proof -
  have "unat (ipv4_mapped ip) div 2 ^ 32 = 0xffff"
    using to_ipv4_mapped_mapped [of ip] unfolding to_ipv4_mapped_def
    by (metis option.distinct(1))
  then have "ipv4_mapped ip \<noteq> 0" "ipv4_mapped ip \<noteq> 1" by auto
  then show ?thesis
    by (simp add: is_public_destination_def assessment_is_allowed_def class_is_allowed_def
        classify_ipv6_def ipv6_is_unspecified_def ipv6_is_loopback_def)
qed

text \<open>
  C31: The classifier is at least as strict as the boolean test kept in the policy crate: every
  address it permits is public by that test too.
\<close>

theorem classifier_refines_policy_test:
  "is_public_destination a \<Longrightarrow> policy_is_public_destination a"
proof (cases a)
  case (V4 ip)
  assume "is_public_destination a"
  with V4 show ?thesis
    by (simp add: is_public_destination_def assessment_is_allowed_def class_is_allowed_def
        classify_ipv4_public)
next
  case (V6 ip)
  assume "is_public_destination a"
  with V6 show ?thesis
    using classify_ipv6_public
    by (simp only: is_public_destination_def assessment_is_allowed_def class_is_allowed_def
        assess_destination.simps destination_assessment.simps)
qed

theorem classifier_refines_policy_test_witness:
  "is_public_destination (V4 (ipv4_new 8 8 8 8)) \<and>
   policy_is_public_destination (V4 (ipv4_new 8 8 8 8)) \<and>
   policy_is_public_destination (V4 (ipv4_new 100 64 0 1)) \<and>
   \<not> is_public_destination (V4 (ipv4_new 100 64 0 1))"
proof -
  have "is_public_destination (V4 (ipv4_new 8 8 8 8))"
    by (simp add: public_table ipv4_new_def)
  moreover from this have "policy_is_public_destination (V4 (ipv4_new 8 8 8 8))"
    by (rule classifier_refines_policy_test)
  moreover have "policy_is_public_destination (V4 (ipv4_new 100 64 0 1))"
    by (simp add: policy_is_public_v4_def ipv4_defs)
  moreover have "\<not> is_public_destination (V4 (ipv4_new 100 64 0 1))"
    by (simp add: public_table ipv4_new_def)
  ultimately show ?thesis by blast
qed

end
