(* ===== verification/Hash_Chain.thy ===== *)
theory Hash_Chain
  imports Rust_Prelude
begin

text \<open>
  Append-only hash chains. The crates \<open>nxb-audit\<close>, \<open>nxb-executor\<close>, \<open>nxb-stream\<close> and \<open>nxb-http1\<close>
  each carry the same chain over their own event type; it is defined once here, over any event
  type and any record hash, and instantiated by each component. The chain of \<open>nxb-audit\<close> starts
  at a constant, the others at an anchor they store.

  The serializer (\<open>serde_json::to_vec\<close>) and SHA-256 are not under \<open>src/\<close>: they are the parameters
  \<open>ser\<close> and \<open>sha\<close>. Nothing is assumed of either; tamper evidence is stated as an explicit
  collision.
\<close>

section \<open>Chains\<close>

record 'e chain_record =
  rec_sequence :: u64
  rec_previous_hash :: string
  rec_event :: 'e
  rec_hash :: string

record 'e chain =
  chain_records :: "'e chain_record list"
  tail_hash :: string

record 'e anchored_chain = "'e chain" +
  genesis_anchor :: string

datatype chain_error =
  ChainSerialization string
| SequenceMismatch nat
| PreviousHashMismatch nat
| RecordHashMismatch nat
| TailHashMismatch

type_synonym 'e record_hash = "u64 \<Rightarrow> string \<Rightarrow> 'e \<Rightarrow> chain_error + string"

definition chain_hash :: "(u64 \<times> string \<times> 'e \<Rightarrow> string + string) \<Rightarrow> (string \<Rightarrow> string) \<Rightarrow> 'e record_hash" where
  "chain_hash ser sha s p e =
     bind_r (map_err ChainSerialization (ser (s, p, e))) (\<lambda>bytes. Inr (to_lower_hex (sha bytes)))"

definition chain_append ::
  "'e record_hash \<Rightarrow> ('e, 'z) chain_scheme \<Rightarrow> 'e \<Rightarrow> ('e, 'z) chain_scheme \<times> (chain_error + 'e chain_record)" where
  "chain_append h c e =
     (let s = of_nat (length (chain_records c)) + 1; p = tail_hash c in
      case h s p e of
        Inl x \<Rightarrow> (c, Inl x)
      | Inr digest \<Rightarrow>
          let r = \<lparr>rec_sequence = s, rec_previous_hash = p, rec_event = e, rec_hash = digest\<rparr> in
          (c\<lparr>chain_records := chain_records c @ [r], tail_hash := digest\<rparr>, Inr r))"

text \<open>The loop of \<open>verify\<close>: the hash the next record must refer to.\<close>

fun verify_records ::
  "'e record_hash \<Rightarrow> nat \<Rightarrow> string \<Rightarrow> 'e chain_record list \<Rightarrow> chain_error + string" where
  "verify_records h index expected_previous [] = Inr expected_previous"
| "verify_records h index expected_previous (r # rs) =
     (if rec_sequence r \<noteq> of_nat index + 1 then Inl (SequenceMismatch index)
      else if rec_previous_hash r \<noteq> expected_previous then Inl (PreviousHashMismatch index)
      else bind_r (h (rec_sequence r) (rec_previous_hash r) (rec_event r)) (\<lambda>expected_hash.
        if rec_hash r \<noteq> expected_hash then Inl (RecordHashMismatch index)
        else verify_records h (Suc index) expected_hash rs))"

definition chain_verify :: "'e record_hash \<Rightarrow> string \<Rightarrow> ('e, 'z) chain_scheme \<Rightarrow> chain_error + unit" where
  "chain_verify h genesis c =
     bind_r (verify_records h 0 genesis (chain_records c)) (\<lambda>expected.
       if tail_hash c \<noteq> expected then Inl TailHashMismatch else Inr ())"

abbreviation chain_events :: "('e, 'z) chain_scheme \<Rightarrow> 'e list" where
  "chain_events c \<equiv> map rec_event (chain_records c)"

section \<open>The contract of an audit log\<close>

text \<open>
  What the components rely on: an append that succeeds adds its event and keeps the log valid,
  one that fails changes nothing. \<open>log_extends\<close> is what a component then guarantees of any
  sequence of its operations.
\<close>

definition log_extends ::
  "('c \<Rightarrow> chain_error + unit) \<Rightarrow> ('c \<Rightarrow> 'e list) \<Rightarrow> 'c \<Rightarrow> 'c \<Rightarrow> bool" where
  "log_extends verify events c c' \<longleftrightarrow>
     prefix (events c) (events c') \<and> (verify c = Inr () \<longrightarrow> verify c' = Inr ())"

locale audit_log =
  fixes append :: "'c \<Rightarrow> 'e \<Rightarrow> 'c \<times> (chain_error + 'r)"
    and verify :: "'c \<Rightarrow> chain_error + unit"
    and events :: "'c \<Rightarrow> 'e list"
  assumes append_keeps_valid: "\<lbrakk>append c e = (c', Inr r); verify c = Inr ()\<rbrakk> \<Longrightarrow> verify c' = Inr ()"
    and append_adds: "append c e = (c', Inr r) \<Longrightarrow> events c' = events c @ [e]"
    and append_fails: "append c e = (c', Inl x) \<Longrightarrow> c' = c"
begin

lemma extends_refl: "log_extends verify events c c"
  by (simp add: log_extends_def)

lemma extends_trans:
  "\<lbrakk>log_extends verify events a b; log_extends verify events b c\<rbrakk> \<Longrightarrow> log_extends verify events a c"
  unfolding log_extends_def by (blast intro: prefix_order.trans)

lemma extends_append: "append c e = (c', r) \<Longrightarrow> log_extends verify events c c'"
  by (cases r)
    (auto simp: log_extends_def append_adds dest: append_fails intro: append_keeps_valid)

text \<open>Appending a list of events, stopping at the first failure.\<close>

lemma extends_fold:
  "log_extends verify events c (fold (\<lambda>e c. fst (append c e)) es c)"
proof (induction es arbitrary: c)
  case (Cons e es)
  have "log_extends verify events c (fst (append c e))"
    by (rule extends_append [of c e _ "snd (append c e)"]) simp
  then have "log_extends verify events c (fold (\<lambda>e c. fst (append c e)) es (fst (append c e)))"
    using Cons.IH by (rule extends_trans)
  then show ?case by simp
qed (simp add: extends_refl)

end

section \<open>The chain keeps the contract\<close>

lemma verify_records_snoc:
  "verify_records h i g (rs @ [r]) =
     bind_r (verify_records h i g rs) (\<lambda>p. verify_records h (i + length rs) p [r])"
proof (induction rs arbitrary: i g)
  case (Cons a rs)
  show ?case
    by (cases "h (rec_sequence a) (rec_previous_hash a) (rec_event a)") (auto simp: Cons.IH)
qed auto

lemma chain_append_Inr:
  assumes "chain_append h c e = (c', Inr r)"
  shows "chain_records c' = chain_records c @ [r]" "tail_hash c' = rec_hash r" "rec_event r = e"
    "rec_sequence r = of_nat (length (chain_records c)) + 1" "rec_previous_hash r = tail_hash c"
    "h (rec_sequence r) (rec_previous_hash r) e = Inr (rec_hash r)"
  using assms by (auto simp: chain_append_def Let_def split: sum.splits)

lemma chain_append_Inl: "chain_append h c e = (c', Inl x) \<Longrightarrow> c' = c"
  by (auto simp: chain_append_def Let_def split: sum.splits)

lemma chain_verify_Inr:
  "chain_verify h g c = Inr () \<longleftrightarrow> verify_records h 0 g (chain_records c) = Inr (tail_hash c)"
  by (auto simp: chain_verify_def bind_r_Inr)

lemma chain_append_verify:
  assumes "chain_append h c e = (c', Inr r)" "chain_verify h g c = Inr ()"
  shows "chain_verify h g c' = Inr ()"
proof -
  note r = chain_append_Inr [OF assms(1)]
  have "verify_records h (length (chain_records c)) (tail_hash c) [r] = Inr (rec_hash r)"
    using r(3-6) by simp
  then show ?thesis
    using assms(2) by (simp add: chain_verify_Inr r(1,2) verify_records_snoc)
qed

lemma chain_append_Inr_iff:
  "(\<exists>c' r. chain_append h c e = (c', Inr r))
     \<longleftrightarrow> (\<exists>d. h (of_nat (length (chain_records c)) + 1) (tail_hash c) e = Inr d)"
  by (auto simp: chain_append_def Let_def split: sum.splits)

lemma chain_append_hex:
  assumes "chain_append (chain_hash ser sha) c e = (c', Inr r)" "\<And>b. length (sha b) = 32"
  shows "is_lower_hex_sha256 (tail_hash c')"
proof -
  obtain b where "rec_hash r = to_lower_hex (sha b)"
    using chain_append_Inr(6) [OF assms(1)] by (auto simp: chain_hash_def bind_r_Inr dest: sym)
  then show ?thesis using chain_append_Inr(2) [OF assms(1)] is_lower_hex_sha256_digest [OF assms(2)] by simp
qed

lemma chain_append_genesis [simp]:
  "genesis_anchor (fst (chain_append h c e)) = genesis_anchor (c :: ('e, 'z) anchored_chain_scheme)"
  by (auto simp: chain_append_def Let_def split: sum.splits)

section \<open>Tamper evidence\<close>

text \<open>
  Two different chains that both verify from the same genesis with the same tail contain two
  records with different contents and the same hash, or a record whose hash is the genesis.
\<close>

abbreviation content :: "'e chain_record \<Rightarrow> u64 \<times> string \<times> 'e" where
  "content r \<equiv> (rec_sequence r, rec_previous_hash r, rec_event r)"

definition collision_in :: "'e chain_record set \<Rightarrow> bool" where
  "collision_in R \<longleftrightarrow> (\<exists>r \<in> R. \<exists>q \<in> R. content r \<noteq> content q \<and> rec_hash r = rec_hash q)"

definition genesis_in :: "string \<Rightarrow> 'e chain_record set \<Rightarrow> bool" where
  "genesis_in g R \<longleftrightarrow> (\<exists>r \<in> R. rec_hash r = g)"

lemma collision_in_mono: "collision_in R \<Longrightarrow> R \<subseteq> S \<Longrightarrow> collision_in S"
  unfolding collision_in_def by blast

lemma verify_records_last:
  assumes "verify_records h i g (rs @ [r]) = Inr t"
  shows "verify_records h i g rs = Inr (rec_previous_hash r)"
    "h (rec_sequence r) (rec_previous_hash r) (rec_event r) = Inr t" "rec_hash r = t"
  using assms by (auto simp: verify_records_snoc bind_r_Inr split: if_split_asm)

lemma verify_records_hash:
  "verify_records h i g rs = Inr t \<Longrightarrow> r \<in> set rs \<Longrightarrow>
     h (rec_sequence r) (rec_previous_hash r) (rec_event r) = Inr (rec_hash r)"
proof (induction rs arbitrary: t rule: rev_induct)
  case (snoc q rs)
  then show ?case using verify_records_last [OF snoc.prems(1)] by auto
qed simp

lemma verify_records_unique:
  assumes "verify_records h 0 g rs = Inr t" "verify_records h 0 g rs' = Inr t"
  shows "rs = rs' \<or> collision_in (set rs \<union> set rs') \<or> genesis_in g (set rs \<union> set rs')"
  using assms
proof (induction rs arbitrary: rs' t rule: rev_induct)
  case Nil
  then show ?case
  proof (cases rs' rule: rev_cases)
    case (snoc qs q)
    then show ?thesis
      using verify_records_last(3) [of h 0 g qs q t] Nil by (auto simp: genesis_in_def)
  qed simp
next
  case (snoc r rs)
  note r = verify_records_last [OF snoc.prems(1)]
  show ?case
  proof (cases rs' rule: rev_cases)
    case Nil
    then show ?thesis using snoc.prems(2) r(3) by (auto simp: genesis_in_def)
  next
    case (snoc qs q)
    note q = verify_records_last [OF \<open>verify_records h 0 g rs' = Inr t\<close> [unfolded snoc]]
    show ?thesis
    proof (cases "content r = content q")
      case True
      then have "r = q" using r(3) q(3) by (cases r; cases q) simp
      moreover have "rs = qs \<or> collision_in (set rs \<union> set qs) \<or> genesis_in g (set rs \<union> set qs)"
        using snoc.IH [OF r(1), of qs] q(1) True by simp
      ultimately show ?thesis using \<open>rs' = qs @ [q]\<close>
          collision_in_mono [of "set rs \<union> set qs" "insert q (set rs \<union> set qs)"]
        by (auto simp: genesis_in_def)
    next
      case False
      then show ?thesis using r(3) q(3) \<open>rs' = qs @ [q]\<close> by (force simp: collision_in_def)
    qed
  qed
qed

end
