(* ===== verification/Gateway_Audit.thy ===== *)
theory Gateway_Audit
  imports Hash_Chain
begin

text \<open>
  The crate \<open>nxb-audit\<close>: the events the gateway records and its chain, the instance of
  \<open>Hash_Chain\<close> that starts at sixty-four zeros.
\<close>

definition GENESIS_HASH :: string where
  "GENESIS_HASH = replicate 64 (CHR ''0'')"

record audit_destination =
  ad_ip :: string
  ad_class :: string
  ad_allowed :: bool

record audit_dns =
  adns_context_id :: string
  adns_resolver_id :: string
  adns_ttl_seconds :: u32
  adns_pin_status :: string

record audit_event =
  ev_decision_id :: string
  ev_outcome :: string
  ev_reason_code :: string
  ev_reason_details :: "(string \<times> string) list"
  ev_method :: string
  ev_url :: string
  ev_resolved_destinations :: "audit_destination list"
  ev_dns :: audit_dns
  ev_redirect_depth :: u8
  ev_elapsed_milliseconds :: u64

type_synonym audit_chain = "audit_event chain"
type_synonym audit_ser = "u64 \<times> string \<times> audit_event \<Rightarrow> string + string"

definition audit_chain_new :: audit_chain where
  "audit_chain_new = \<lparr>chain_records = [], tail_hash = GENESIS_HASH\<rparr>"

definition hash_material :: "audit_ser \<Rightarrow> (string \<Rightarrow> string) \<Rightarrow> audit_event record_hash" where
  "hash_material ser sha = chain_hash ser sha"

definition audit_append ::
  "audit_ser \<Rightarrow> (string \<Rightarrow> string) \<Rightarrow> audit_chain \<Rightarrow> audit_event
     \<Rightarrow> audit_chain \<times> (chain_error + audit_event chain_record)" where
  "audit_append ser sha = chain_append (hash_material ser sha)"

definition audit_verify :: "audit_ser \<Rightarrow> (string \<Rightarrow> string) \<Rightarrow> audit_chain \<Rightarrow> chain_error + unit" where
  "audit_verify ser sha = chain_verify (hash_material ser sha) GENESIS_HASH"

interpretation gateway_log: audit_log "audit_append ser sha" "audit_verify ser sha" chain_events
  for ser sha
  by unfold_locales
    (auto simp: audit_append_def audit_verify_def chain_append_Inr dest: chain_append_Inl
      intro: chain_append_verify)

lemma audit_verify_new: "audit_verify ser sha audit_chain_new = Inr ()"
  by (simp add: audit_verify_def chain_verify_Inr audit_chain_new_def)

text \<open>Two records whose contents differ and whose hashes agree: their serializations are equal, or
  SHA-256 maps the two serializations to one digest.\<close>

definition broken_pair :: "(u64 \<times> string \<times> 'e \<Rightarrow> string + string) \<Rightarrow> (string \<Rightarrow> string) \<Rightarrow> 'e chain_record \<Rightarrow> 'e chain_record \<Rightarrow> bool" where
  "broken_pair ser sha r q \<longleftrightarrow>
     content r \<noteq> content q
     \<and> (\<exists>b d. ser (content r) = Inr b \<and> ser (content q) = Inr d \<and> (b = d \<or> sha b = sha d))"

lemma chain_hash_collision:
  assumes "collision_in R"
    "\<And>r. r \<in> R \<Longrightarrow> chain_hash ser sha (rec_sequence r) (rec_previous_hash r) (rec_event r) = Inr (rec_hash r)"
  shows "\<exists>r \<in> R. \<exists>q \<in> R. broken_pair ser sha r q"
proof -
  obtain r q where q: "r \<in> R" "q \<in> R" "content r \<noteq> content q" "rec_hash r = rec_hash q"
    using assms(1) unfolding collision_in_def by blast
  have "\<exists>b. ser (content r) = Inr b \<and> to_lower_hex (sha b) = rec_hash r" if "r \<in> R" for r
    using assms(2) [OF that] by (auto simp: chain_hash_def bind_r_Inr map_err_Inr)
  then show ?thesis using q unfolding broken_pair_def by (metis to_lower_hex_inject)
qed

text \<open>
  C5: Tamper evidence of the audit chain. If two chains with the same tail hash both pass
  verification, then their records are the same, or among their own records there are two with
  different contents and one serialization, or two whose serializations SHA-256 maps to one
  digest, or one whose hash is the all-zero genesis value. No other way exists to alter, drop,
  reorder or insert a record unnoticed.
\<close>

theorem audit_tamper_evident:
  assumes "audit_verify ser sha c = Inr ()" "audit_verify ser sha c' = Inr ()" "tail_hash c = tail_hash c'"
  shows "chain_records c = chain_records c'
    \<or> (\<exists>r \<in> set (chain_records c) \<union> set (chain_records c').
         \<exists>q \<in> set (chain_records c) \<union> set (chain_records c'). broken_pair ser sha r q)
    \<or> (\<exists>r \<in> set (chain_records c) \<union> set (chain_records c'). rec_hash r = GENESIS_HASH)"
proof -
  have v: "verify_records (chain_hash ser sha) 0 GENESIS_HASH (chain_records x) = Inr (tail_hash x)"
    if "audit_verify ser sha x = Inr ()" for x
    using that by (auto simp: audit_verify_def hash_material_def chain_verify_Inr)
  note h = verify_records_hash [OF v [OF assms(1)]] verify_records_hash [OF v [OF assms(2)]]
  have "\<exists>r \<in> set (chain_records c) \<union> set (chain_records c').
         \<exists>q \<in> set (chain_records c) \<union> set (chain_records c'). broken_pair ser sha r q"
    if "collision_in (set (chain_records c) \<union> set (chain_records c'))"
    by (rule chain_hash_collision [OF that]) (use h in auto)
  then show ?thesis
    using verify_records_unique [OF v [OF assms(1)] v [OF assms(2), folded assms(3)]]
    unfolding genesis_in_def by blast
qed

text \<open>A serializer that keeps the sequence number only, and a digest, for evaluation.\<close>

definition toy_ser :: "u64 \<times> string \<times> 'e \<Rightarrow> string + string" where
  "toy_ser m = Inr (decimal (unat (fst m)))"

definition toy_sha :: "string \<Rightarrow> string" where
  "toy_sha b = replicate 31 (CHR 0x01) @ take 1 b"

definition sample_event :: audit_event where
  "sample_event =
     \<lparr>ev_decision_id = ''d'', ev_outcome = ''deny'', ev_reason_code = '''', ev_reason_details = [],
      ev_method = ''GET'', ev_url = '''', ev_resolved_destinations = [],
      ev_dns = \<lparr>adns_context_id = '''', adns_resolver_id = '''', adns_ttl_seconds = 0, adns_pin_status = ''''\<rparr>,
      ev_redirect_depth = 0, ev_elapsed_milliseconds = 0\<rparr>"

theorem audit_tamper_evident_witness:
  "let c = fst (audit_append toy_ser toy_sha audit_chain_new sample_event);
       c' = fst (audit_append toy_ser toy_sha audit_chain_new (sample_event\<lparr>ev_method := ''PUT''\<rparr>)) in
   chain_events c \<noteq> chain_events c' \<and>
   (chain_records c = chain_records c'
    \<or> (\<exists>r \<in> set (chain_records c) \<union> set (chain_records c').
         \<exists>q \<in> set (chain_records c) \<union> set (chain_records c'). broken_pair toy_ser toy_sha r q)
    \<or> (\<exists>r \<in> set (chain_records c) \<union> set (chain_records c'). rec_hash r = GENESIS_HASH))"
proof -
  let ?a = "\<lambda>e. fst (audit_append toy_ser toy_sha audit_chain_new e)"
  let ?c = "?a sample_event" and ?c' = "?a (sample_event\<lparr>ev_method := ''PUT''\<rparr>)"
  have r: "\<exists>r. audit_append toy_ser toy_sha audit_chain_new e = (?a e, Inr r)" for e
    by (auto simp: audit_append_def chain_append_def hash_material_def chain_hash_def toy_ser_def Let_def)
  have v: "audit_verify toy_ser toy_sha (?a e) = Inr ()" for e
    using r [of e] gateway_log.append_keeps_valid [OF _ audit_verify_new] by blast
  have n: "chain_events (?a e) = [e]" for e
    using r [of e] gateway_log.append_adds by (fastforce simp: audit_chain_new_def)
  have t: "tail_hash ?c = tail_hash ?c'"
    by (simp add: audit_append_def chain_append_def hash_material_def chain_hash_def toy_ser_def Let_def)
  have "chain_events ?c \<noteq> chain_events ?c'" unfolding n by (simp add: sample_event_def)
  then show ?thesis using audit_tamper_evident [OF v v t] unfolding Let_def by blast
qed

end
