(* ===== verification/Gateway.thy ===== *)
theory Gateway
  imports Policy Dns Budget Destination Gateway_Audit
begin

text \<open>
  The crate \<open>nxb-gateway\<close>: the scope gateway that decides every request. Its state holds the
  compiled policy, the budget, the DNS pins and the audit chain. Code not under \<open>src/\<close> (the JSON
  serializer, SHA-256, the printing of a \<open>Url\<close>) is collected in the record \<open>gateway_ext\<close>.
\<close>

section \<open>Data\<close>

record gateway_ext =
  sha256 :: "string \<Rightarrow> string"
  ser_audit :: audit_ser
  url_to_string :: "url \<Rightarrow> string"

record request_intent =
  intent_url :: url
  intent_method :: string
  intent_resolved_ips :: "ip_addr list"
  intent_redirect_depth :: u8
  intent_dns_context_id :: string
  intent_dns_resolver_id :: string
  intent_dns_ttl_seconds :: u32

datatype decision_outcome = Allow | Deny

fun decision_outcome_code :: "decision_outcome \<Rightarrow> string" where
  "decision_outcome_code Allow = ''allow''"
| "decision_outcome_code Deny = ''deny''"

datatype dns_observation_error_kind =
  KInvalidContextId | KInvalidResolverId | KInvalidHost | KEmptyAddressSet | KClockRegression

fun dns_error_kind_code :: "dns_observation_error_kind \<Rightarrow> string" where
  "dns_error_kind_code KInvalidContextId = ''invalid_context_id''"
| "dns_error_kind_code KInvalidResolverId = ''invalid_resolver_id''"
| "dns_error_kind_code KInvalidHost = ''invalid_host''"
| "dns_error_kind_code KEmptyAddressSet = ''empty_address_set''"
| "dns_error_kind_code KClockRegression = ''clock_regression''"

datatype decision_reason =
  Authorized
| UrlOrMethodOutOfScope
| MissingDnsResolution
| NonPublicDestination ip_addr destination_class
| RedirectLimitExceeded u8 u8
| InvalidDnsObservation dns_observation_error_kind
| ReasonResolverChanged string string
| ReasonRebindingDetected string "ip_addr fset" "ip_addr fset"
| TotalBudgetExhausted
| ReasonConcurrencyExceeded
| ReasonRateLimited u64

fun decision_reason_code :: "decision_reason \<Rightarrow> string" where
  "decision_reason_code Authorized = ''authorized''"
| "decision_reason_code UrlOrMethodOutOfScope = ''url_or_method_out_of_scope''"
| "decision_reason_code MissingDnsResolution = ''missing_dns_resolution''"
| "decision_reason_code (NonPublicDestination _ _) = ''non_public_destination''"
| "decision_reason_code (RedirectLimitExceeded _ _) = ''redirect_limit_exceeded''"
| "decision_reason_code (InvalidDnsObservation _) = ''invalid_dns_observation''"
| "decision_reason_code (ReasonResolverChanged _ _) = ''dns_resolver_changed''"
| "decision_reason_code (ReasonRebindingDetected _ _ _) = ''dns_rebinding_detected''"
| "decision_reason_code TotalBudgetExhausted = ''total_budget_exhausted''"
| "decision_reason_code ReasonConcurrencyExceeded = ''concurrency_exceeded''"
| "decision_reason_code (ReasonRateLimited _) = ''rate_limited''"

definition join_ips :: "ip_addr fset \<Rightarrow> string" where
  "join_ips ips = join_with '','' (map ip_to_string (sorted_list_of_fset ips))"

fun decision_reason_details :: "decision_reason \<Rightarrow> (string \<times> string) list" where
  "decision_reason_details (NonPublicDestination ip class) =
     AList.update ''class'' (destination_class_code class) (AList.update ''ip'' (ip_to_string ip) [])"
| "decision_reason_details (RedirectLimitExceeded maximum observed) =
     AList.update ''observed'' (decimal (unat observed))
       (AList.update ''maximum'' (decimal (unat maximum)) [])"
| "decision_reason_details (InvalidDnsObservation kind) =
     AList.update ''kind'' (dns_error_kind_code kind) []"
| "decision_reason_details (ReasonResolverChanged expected observed) =
     AList.update ''observed'' observed (AList.update ''expected'' expected [])"
| "decision_reason_details (ReasonRebindingDetected host pinned observed) =
     AList.update ''observed'' (join_ips observed)
       (AList.update ''pinned'' (join_ips pinned) (AList.update ''host'' host []))"
| "decision_reason_details (ReasonRateLimited retry) =
     AList.update ''retry_after_milliseconds'' (decimal (unat retry)) []"
| "decision_reason_details _ = []"

record gateway_decision =
  decision_id :: string
  decision_outcome :: decision_outcome
  decision_reason :: decision_reason

record scope_gateway =
  gw_policy :: compiled_policy
  gw_budget :: request_budget
  gw_dns_pins :: dns_pin_set
  gw_audit :: audit_chain
  gw_maximum_redirects :: u8
  gw_next_decision_id :: u64

datatype gateway_error =
  GatewayBudget budget_error | GatewayAudit chain_error | InvalidRedirectLimit

datatype audit_pin_status = PinNotEvaluated | PinPinned | PinMatched | PinRejected

fun audit_pin_status_code :: "audit_pin_status \<Rightarrow> string" where
  "audit_pin_status_code PinNotEvaluated = ''not_evaluated''"
| "audit_pin_status_code PinPinned = ''pinned''"
| "audit_pin_status_code PinMatched = ''matched''"
| "audit_pin_status_code PinRejected = ''rejected''"

section \<open>Operations\<close>

definition gateway_new :: "compiled_policy \<Rightarrow> u8 \<Rightarrow> gateway_error + scope_gateway" where
  "gateway_new policy maximum_redirects =
     (if maximum_redirects = 0 then Inl InvalidRedirectLimit
      else bind_r (map_err GatewayBudget
             (budget_new (maximum_total_requests policy) (maximum_concurrency policy)
                (maximum_requests_per_second policy))) (\<lambda>budget.
        Inr \<lparr>gw_policy = policy, gw_budget = budget, gw_dns_pins = dns_pin_set_new,
             gw_audit = audit_chain_new, gw_maximum_redirects = maximum_redirects,
             gw_next_decision_id = 1\<rparr>))"

fun map_dns_error :: "dns_pin_error \<Rightarrow> decision_reason" where
  "map_dns_error DnsInvalidContextId = InvalidDnsObservation KInvalidContextId"
| "map_dns_error DnsInvalidResolverId = InvalidDnsObservation KInvalidResolverId"
| "map_dns_error DnsInvalidHost = InvalidDnsObservation KInvalidHost"
| "map_dns_error DnsEmptyAddressSet = InvalidDnsObservation KEmptyAddressSet"
| "map_dns_error DnsClockRegression = InvalidDnsObservation KClockRegression"
| "map_dns_error (DnsResolverChanged expected observed) = ReasonResolverChanged expected observed"
| "map_dns_error (DnsRebindingDetected host pinned observed) =
     ReasonRebindingDetected host pinned observed"

definition deny :: "string \<Rightarrow> decision_reason \<Rightarrow> gateway_decision" where
  "deny i reason = \<lparr>decision_id = i, decision_outcome = Deny, decision_reason = reason\<rparr>"

definition allocate_decision_id :: "scope_gateway \<Rightarrow> scope_gateway \<times> string" where
  "allocate_decision_id g =
     (let v = gw_next_decision_id g in
      (g\<lparr>gw_next_decision_id := saturating_add v 1\<rparr>, ''decision-'' @ decimal_pad 20 (unat v)))"

definition intent_observation :: "request_intent \<Rightarrow> string \<Rightarrow> duration \<Rightarrow> dns_observation" where
  "intent_observation intent host elapsed =
     \<lparr>obs_context_id = intent_dns_context_id intent, obs_host = host,
      obs_addresses = fset_of_list (intent_resolved_ips intent),
      obs_resolver_id = intent_dns_resolver_id intent,
      obs_ttl_seconds = intent_dns_ttl_seconds intent,
      obs_observed_at = duration_milliseconds_saturated elapsed\<rparr>"

definition evaluate ::
  "scope_gateway \<Rightarrow> request_intent \<Rightarrow> duration \<Rightarrow> destination_assessment list
     \<Rightarrow> (scope_gateway \<times> gateway_decision \<times> audit_pin_status) run" where
  "evaluate g0 intent elapsed assessments =
     (let (g, i) = allocate_decision_id g0 in
      if intent_redirect_depth intent > gw_maximum_redirects g then
        Ret (g, deny i (RedirectLimitExceeded (gw_maximum_redirects g) (intent_redirect_depth intent)),
             PinNotEvaluated)
      else if \<not> allows_request (gw_policy g) (intent_url intent) (intent_method intent) then
        Ret (g, deny i UrlOrMethodOutOfScope, PinNotEvaluated)
      else if assessments = [] then Ret (g, deny i MissingDnsResolution, PinNotEvaluated)
      else case find (\<lambda>a. \<not> assessment_is_allowed a) assessments of
        Some a \<Rightarrow> Ret (g, deny i (NonPublicDestination (da_ip a) (da_class a)), PinNotEvaluated)
      | None \<Rightarrow>
          (case url_host_str (intent_url intent) of
             None \<Rightarrow> Panic
           | Some host \<Rightarrow>
               (case pin_or_validate (gw_dns_pins g) (intent_observation intent host elapsed) of
                  (pins, Inl e) \<Rightarrow> Ret (g\<lparr>gw_dns_pins := pins\<rparr>, deny i (map_dns_error e), PinRejected)
                | (pins, Inr status) \<Rightarrow>
                    let g = g\<lparr>gw_dns_pins := pins\<rparr>;
                        pin_status = (case status of Pinned \<Rightarrow> PinPinned | Matched \<Rightarrow> PinMatched) in
                    (case try_start (gw_budget g) elapsed of
                       Panic \<Rightarrow> Panic
                     | Ret (budget, r) \<Rightarrow>
                         let g = g\<lparr>gw_budget := budget\<rparr> in
                         (case r of
                            Inr _ \<Rightarrow>
                              Ret (g, \<lparr>decision_id = i, decision_outcome = Allow,
                                       decision_reason = Authorized\<rparr>, pin_status)
                          | Inl Exhausted \<Rightarrow> Ret (g, deny i TotalBudgetExhausted, pin_status)
                          | Inl ConcurrencyExceeded \<Rightarrow> Ret (g, deny i ReasonConcurrencyExceeded, pin_status)
                          | Inl (RateLimited retry) \<Rightarrow>
                              Ret (g, deny i (ReasonRateLimited (duration_milliseconds_saturated retry)),
                                   pin_status)
                          | Inl (InvalidConfiguration _) \<Rightarrow> Panic)))))"

definition sanitized_audit_url :: "'z gateway_ext_scheme \<Rightarrow> url \<Rightarrow> string" where
  "sanitized_audit_url x u = url_to_string x (u\<lparr>url_query := None, url_fragment := None\<rparr>)"

definition mk_audit_event ::
  "'z gateway_ext_scheme \<Rightarrow> request_intent \<Rightarrow> duration \<Rightarrow> destination_assessment list
     \<Rightarrow> gateway_decision \<Rightarrow> audit_pin_status \<Rightarrow> audit_event" where
  "mk_audit_event x intent elapsed assessments d pin_status =
     \<lparr>ev_decision_id = decision_id d,
      ev_outcome = decision_outcome_code (decision_outcome d),
      ev_reason_code = decision_reason_code (decision_reason d),
      ev_reason_details = decision_reason_details (decision_reason d),
      ev_method = to_ascii_uppercase (trim (intent_method intent)),
      ev_url = sanitized_audit_url x (intent_url intent),
      ev_resolved_destinations =
        map (\<lambda>a. \<lparr>ad_ip = ip_to_string (da_ip a), ad_class = destination_class_code (da_class a),
                  ad_allowed = assessment_is_allowed a\<rparr>) assessments,
      ev_dns =
        \<lparr>adns_context_id = sanitized_dns_identifier (intent_dns_context_id intent),
         adns_resolver_id = sanitized_dns_identifier (intent_dns_resolver_id intent),
         adns_ttl_seconds = intent_dns_ttl_seconds intent,
         adns_pin_status = audit_pin_status_code pin_status\<rparr>,
      ev_redirect_depth = intent_redirect_depth intent,
      ev_elapsed_milliseconds = duration_milliseconds_saturated elapsed\<rparr>"

definition authorize ::
  "'z gateway_ext_scheme \<Rightarrow> scope_gateway \<Rightarrow> request_intent \<Rightarrow> duration
     \<Rightarrow> (scope_gateway \<times> (gateway_error + gateway_decision)) run" where
  "authorize x g0 intent elapsed =
     (let assessments = map assess_destination (intent_resolved_ips intent) in
      case evaluate g0 intent elapsed assessments of
        Panic \<Rightarrow> Panic
      | Ret (g, d, pin_status) \<Rightarrow>
          let event = mk_audit_event x intent elapsed assessments d pin_status in
          (case audit_append (ser_audit x) (sha256 x) (gw_audit g) event of
             (audit, Inl e) \<Rightarrow> Ret (g\<lparr>gw_audit := audit\<rparr>, Inl (GatewayAudit e))
           | (audit, Inr _) \<Rightarrow> Ret (g\<lparr>gw_audit := audit\<rparr>, Inr d)))"

definition complete_request :: "scope_gateway \<Rightarrow> scope_gateway" where
  "complete_request g = g\<lparr>gw_budget := budget_finish (gw_budget g)\<rparr>"

definition release_dns_context :: "scope_gateway \<Rightarrow> string \<Rightarrow> scope_gateway \<times> nat" where
  "release_dns_context g context_id =
     (case release_context (gw_dns_pins g) context_id of (pins, n) \<Rightarrow> (g\<lparr>gw_dns_pins := pins\<rparr>, n))"

abbreviation remaining_requests :: "scope_gateway \<Rightarrow> u64" where
  "remaining_requests g \<equiv> remaining (gw_budget g)"

abbreviation in_flight_requests :: "scope_gateway \<Rightarrow> u16" where
  "in_flight_requests g \<equiv> in_flight (gw_budget g)"

definition verify_audit_chain :: "'z gateway_ext_scheme \<Rightarrow> scope_gateway \<Rightarrow> chain_error + unit" where
  "verify_audit_chain x g = audit_verify (ser_audit x) (sha256 x) (gw_audit g)"

section \<open>What a decision depends on\<close>

text \<open>
  The tests before the budget, as one predicate: \<open>pins\<close> is the pin set after the observation.
\<close>

definition admissible ::
  "scope_gateway \<Rightarrow> request_intent \<Rightarrow> duration \<Rightarrow> string \<Rightarrow> dns_pin_set \<Rightarrow> dns_pin_status \<Rightarrow> bool" where
  "admissible g intent elapsed host pins status \<longleftrightarrow>
     intent_redirect_depth intent \<le> gw_maximum_redirects g
     \<and> allows_request (gw_policy g) (intent_url intent) (intent_method intent)
     \<and> intent_resolved_ips intent \<noteq> []
     \<and> (\<forall>ip \<in> set (intent_resolved_ips intent). is_public_destination ip)
     \<and> url_host_str (intent_url intent) = Some host
     \<and> pin_or_validate (gw_dns_pins g) (intent_observation intent host elapsed) = (pins, Inr status)"

abbreviation next_id :: "scope_gateway \<Rightarrow> scope_gateway" where
  "next_id g \<equiv> g\<lparr>gw_next_decision_id := saturating_add (gw_next_decision_id g) 1\<rparr>"

definition fresh_id :: "scope_gateway \<Rightarrow> string" where
  "fresh_id g = ''decision-'' @ decimal_pad 20 (unat (gw_next_decision_id g))"

abbreviation assess_all :: "request_intent \<Rightarrow> destination_assessment list" where
  "assess_all intent \<equiv> map assess_destination (intent_resolved_ips intent)"

lemma find_assessments:
  "find (\<lambda>a. \<not> assessment_is_allowed a) (map assess_destination ips) = None
     \<longleftrightarrow> (\<forall>ip \<in> set ips. is_public_destination ip)"
  by (auto simp: find_None_iff is_public_destination_def)

lemma allows_request_host: "allows_request c u m \<Longrightarrow> \<exists>host. url_host_str u = Some host"
  by (auto simp: allows_request_def split: if_split_asm option.splits)

lemma try_start_error_kind: "try_start b d \<noteq> Ret (b', Inl (InvalidConfiguration m))"
  by (auto simp: try_start_def Let_def split: if_split_asm run.splits)

lemma evaluate_admissible:
  assumes "admissible g intent elapsed host pins status"
  obtains "evaluate g intent elapsed (assess_all intent) = Panic" "try_start (gw_budget g) elapsed = Panic"
  | b d st r where "try_start (gw_budget g) elapsed = Ret (b, r)"
      "evaluate g intent elapsed (assess_all intent)
         = Ret ((next_id g)\<lparr>gw_dns_pins := pins, gw_budget := b\<rparr>, d, st)"
      "decision_id d = fresh_id g" "decision_outcome d = Allow \<longleftrightarrow> r = Inr ()"
proof -
  from assms have p: "pin_or_validate (gw_dns_pins g) (intent_observation intent host elapsed) = (pins, Inr status)"
    and h: "url_host_str (intent_url intent) = Some host"
    and a: "find (\<lambda>a. \<not> assessment_is_allowed a) (assess_all intent) = None"
    and c: "\<not> gw_maximum_redirects g < intent_redirect_depth intent"
      "allows_request (gw_policy g) (intent_url intent) (intent_method intent)" "assess_all intent \<noteq> []"
    by (auto simp: admissible_def find_assessments)
  note ev = evaluate_def allocate_decision_id_def Let_def deny_def
  show thesis
  proof (cases "try_start (gw_budget g) elapsed")
    case Panic
    then have "evaluate g intent elapsed (assess_all intent) = Panic"
      using p h a c by (simp add: ev)
    then show thesis using Panic that(1) by blast
  next
    case (Ret br)
    obtain b r where br: "br = (b, r)" by fastforce
    have "\<exists>d st. evaluate g intent elapsed (assess_all intent)
        = Ret ((next_id g)\<lparr>gw_dns_pins := pins, gw_budget := b\<rparr>, d, st)
        \<and> decision_id d = fresh_id g \<and> (decision_outcome d = Allow \<longleftrightarrow> r = Inr ())"
    proof (cases r)
      case (Inl e)
      then show ?thesis
        using p h a c Ret br try_start_error_kind [of "gw_budget g" elapsed b]
        by (cases e) (simp_all add: ev fresh_id_def)
    next
      case (Inr u)
      then show ?thesis using p h a c Ret br by (simp add: ev fresh_id_def)
    qed
    then show thesis using that(2) Ret br by blast
  qed
qed

lemma evaluate_inadmissible:
  assumes "\<And>host pins status. \<not> admissible g intent elapsed host pins status"
  obtains d st where "evaluate g intent elapsed (assess_all intent) = Ret (next_id g, d, st)"
    "decision_id d = fresh_id g" "decision_outcome d = Deny"
proof -
  note ev = evaluate_def allocate_decision_id_def Let_def fresh_id_def
  note result = that
  have denied: thesis if "evaluate g intent elapsed (assess_all intent) = Ret (next_id g, deny (fresh_id g) R, S)" for R S
    using that by (rule result) (simp_all add: deny_def)
  show thesis
  proof (cases "gw_maximum_redirects g < intent_redirect_depth intent
      \<or> \<not> allows_request (gw_policy g) (intent_url intent) (intent_method intent) \<or> assess_all intent = []")
    case True
    then have "\<exists>R S. evaluate g intent elapsed (assess_all intent) = Ret (next_id g, deny (fresh_id g) R, S)"
      by (simp add: ev) blast
    then show thesis using denied by blast
  next
    case False
    then obtain host where h: "url_host_str (intent_url intent) = Some host"
      using allows_request_host by blast
    show thesis
    proof (cases "find (\<lambda>a. \<not> assessment_is_allowed a) (assess_all intent)")
      case (Some a)
      then show thesis using False
        by (intro denied [of "NonPublicDestination (da_ip a) (da_class a)" PinNotEvaluated]) (simp add: ev)
    next
      case None
      obtain pins r where p: "pin_or_validate (gw_dns_pins g) (intent_observation intent host elapsed) = (pins, r)"
        by fastforce
      show thesis
      proof (cases r)
        case (Inl e)
        have "pins = gw_dns_pins g" using p pin_or_validate_Inl unfolding Inl by blast
        then show thesis using None False h p Inl
          by (intro denied [of "map_dns_error e" PinRejected]) (simp add: ev)
      next
        case (Inr status)
        then have "admissible g intent elapsed host pins status"
          using None False h p by (simp add: admissible_def find_assessments not_less)
        then show thesis using assms by blast
      qed
    qed
  qed
qed

text \<open>The effect of \<open>authorize\<close> on the state, whatever it decides.\<close>

lemma authorize_cases:
  obtains (panic) "authorize x g intent elapsed = Panic" "try_start (gw_budget g) elapsed = Panic"
  | (denied) a r d st q where "authorize x g intent elapsed = Ret ((next_id g)\<lparr>gw_audit := a\<rparr>, r)"
      "\<And>host pins status. \<not> admissible g intent elapsed host pins status"
      "decision_id d = fresh_id g" "decision_outcome d = Deny"
      "audit_append (ser_audit x) (sha256 x) (gw_audit g) (mk_audit_event x intent elapsed (assess_all intent) d st) = (a, q)"
      "r = (case q of Inl e \<Rightarrow> Inl (GatewayAudit e) | Inr _ \<Rightarrow> Inr d)"
  | (reached) host pins status b s a r d st q where
      "authorize x g intent elapsed = Ret ((next_id g)\<lparr>gw_dns_pins := pins, gw_budget := b, gw_audit := a\<rparr>, r)"
      "admissible g intent elapsed host pins status" "try_start (gw_budget g) elapsed = Ret (b, s)"
      "decision_id d = fresh_id g" "decision_outcome d = Allow \<longleftrightarrow> s = Inr ()"
      "audit_append (ser_audit x) (sha256 x) (gw_audit g) (mk_audit_event x intent elapsed (assess_all intent) d st) = (a, q)"
      "r = (case q of Inl e \<Rightarrow> Inl (GatewayAudit e) | Inr _ \<Rightarrow> Inr d)"
proof (cases "\<exists>host pins status. admissible g intent elapsed host pins status")
  case False
  then obtain d st where ev: "evaluate g intent elapsed (assess_all intent) = Ret (next_id g, d, st)"
    "decision_id d = fresh_id g" "decision_outcome d = Deny"
    using evaluate_inadmissible [of g intent elapsed] by metis
  obtain a q where q: "audit_append (ser_audit x) (sha256 x) (gw_audit g)
      (mk_audit_event x intent elapsed (assess_all intent) d st) = (a, q)" by fastforce
  show thesis using ev q False
    by (intro denied [where a = a and r = "case q of Inl e \<Rightarrow> Inl (GatewayAudit e) | Inr _ \<Rightarrow> Inr d" and d = d and st = st and q = q])
      (auto simp: authorize_def Let_def split: sum.splits)
next
  case True
  then obtain host pins status where adm: "admissible g intent elapsed host pins status" by blast
  then show thesis
  proof (cases rule: evaluate_admissible)
    case 1
    then show thesis by (intro panic) (simp_all add: authorize_def Let_def)
  next
    case (2 b d st s)
    obtain a q where q: "audit_append (ser_audit x) (sha256 x) (gw_audit g)
        (mk_audit_event x intent elapsed (assess_all intent) d st) = (a, q)" by fastforce
    show thesis using 2 q adm
      by (intro reached [where pins = pins and b = b and a = a and host = host and status = status and s = s
            and r = "case q of Inl e \<Rightarrow> Inl (GatewayAudit e) | Inr _ \<Rightarrow> Inr d" and d = d and st = st and q = q])
        (auto simp: authorize_def Let_def split: sum.splits)
  qed
qed

section \<open>Invariant and histories\<close>

definition gateway_wf :: "'z gateway_ext_scheme \<Rightarrow> scope_gateway \<Rightarrow> bool" where
  "gateway_wf x g \<longleftrightarrow>
     budget_wf (gw_budget g) \<and> pins_wf (gw_dns_pins g) \<and> verify_audit_chain x g = Inr ()"

datatype gateway_op = Authorize request_intent duration | CompleteRequest | ReleaseDns string

text \<open>A history of a gateway with what its calls of \<open>authorize\<close> returned.\<close>

fun gateway_run ::
  "'z gateway_ext_scheme \<Rightarrow> gateway_op list \<Rightarrow> scope_gateway
     \<Rightarrow> (scope_gateway \<times> (gateway_error + gateway_decision) list) run" where
  "gateway_run x [] g = Ret (g, [])"
| "gateway_run x (CompleteRequest # ops) g = gateway_run x ops (complete_request g)"
| "gateway_run x (ReleaseDns c # ops) g = gateway_run x ops (fst (release_dns_context g c))"
| "gateway_run x (Authorize intent t # ops) g =
     (case authorize x g intent t of
        Panic \<Rightarrow> Panic
      | Ret (g1, r) \<Rightarrow>
          (case gateway_run x ops g1 of
             Panic \<Rightarrow> Panic
           | Ret (g2, rs) \<Rightarrow> Ret (g2, r # rs)))"

fun returned :: "(gateway_error + gateway_decision) list \<Rightarrow> gateway_decision list" where
  "returned [] = []"
| "returned (Inl _ # rs) = returned rs"
| "returned (Inr d # rs) = d # returned rs"

definition allows :: "(gateway_error + gateway_decision) list \<Rightarrow> nat" where
  "allows rs = length (filter (\<lambda>d. decision_outcome d = Allow) (returned rs))"

lemma audit_append_step:
  assumes "audit_append (ser_audit x) (sha256 x) c ev = (a, q)"
  shows "audit_verify (ser_audit x) (sha256 x) c = Inr () \<Longrightarrow> audit_verify (ser_audit x) (sha256 x) a = Inr ()"
    and "q = Inr z \<Longrightarrow> chain_events a = chain_events c @ [ev]" and "q = Inl y \<Longrightarrow> a = c"
  using gateway_log.extends_append [OF assms] gateway_log.append_adds [of "ser_audit x" "sha256 x" c ev a z]
    gateway_log.append_fails [of "ser_audit x" "sha256 x" c ev a y] assms
  by (auto simp: log_extends_def)

text \<open>One call of \<open>authorize\<close>: the invariant, the budget, the ids and the log.\<close>

lemma authorize_step:
  assumes "gateway_wf x g" "authorize x g intent t = Ret (g', r)"
  shows "gateway_wf x g' \<and> gw_policy g' = gw_policy g \<and> gw_maximum_redirects g' = gw_maximum_redirects g
    \<and> max_concurrency (gw_budget g') = max_concurrency (gw_budget g)
    \<and> refill_per_second (gw_budget g') = refill_per_second (gw_budget g)
    \<and> allows [r] + unat (remaining_requests g') \<le> unat (remaining_requests g)
    \<and> gw_next_decision_id g' = saturating_add (gw_next_decision_id g) 1
    \<and> (\<forall>d. r = Inr d \<longrightarrow> decision_id d = fresh_id g
         \<and> (\<exists>st. chain_events (gw_audit g') = chain_events (gw_audit g)
                @ [mk_audit_event x intent t (assess_all intent) d st]))
    \<and> (\<forall>e. r = Inl e \<longrightarrow> gw_audit g' = gw_audit g)"
proof (cases rule: authorize_cases [where x = x and g = g and intent = intent and elapsed = t])
  case panic
  then show ?thesis using assms(2) by simp
next
  case (denied a r' d st q)
  then have g': "g' = (next_id g)\<lparr>gw_audit := a\<rparr>" and r: "r' = r" using assms(2) by auto
  note au = audit_append_step [OF denied(5)]
  show ?thesis
    using assms(1) au denied(3,4,6) unfolding g' r
    by (cases q) (auto simp: gateway_wf_def verify_audit_chain_def allows_def)
next
  case (reached host pins status b s a r' d st q)
  then have g': "g' = (next_id g)\<lparr>gw_dns_pins := pins, gw_budget := b, gw_audit := a\<rparr>" and r: "r' = r"
    using assms(2) by auto
  note au = audit_append_step [OF reached(6)]
  have wf: "budget_wf (gw_budget g)" "pins_wf (gw_dns_pins g)" "verify_audit_chain x g = Inr ()"
    using assms(1) by (auto simp: gateway_wf_def)
  have "pins = fst (pin_or_validate (gw_dns_pins g) (intent_observation intent host t))"
    using reached(2) by (simp add: admissible_def)
  then have pins: "pins_wf pins" using pin_or_validate_wf wf(2) by simp
  have b: "budget_wf b \<and> max_concurrency b = max_concurrency (gw_budget g)
      \<and> refill_per_second b = refill_per_second (gw_budget g)
      \<and> (if s = Inr () then 1 else 0) + unat (remaining b) = unat (remaining_requests g)"
    using try_start_ok(1,2,6) [OF wf(1), of t b] try_start_err [of "gw_budget g" t b] refill_wf [OF wf(1), of t]
      refill_rate [OF reached(3)] reached(3)
    by (cases s) auto
  show ?thesis
    using b pins wf(3) au reached(4,5,7) unfolding g' r
    by (cases q) (auto simp: gateway_wf_def verify_audit_chain_def allows_def)
qed

lemma complete_request_wf:
  "gateway_wf x g \<Longrightarrow> gateway_wf x (complete_request g)"
  by (simp add: gateway_wf_def complete_request_def budget_finish_wf verify_audit_chain_def)

lemma release_dns_context_wf:
  "gateway_wf x g \<Longrightarrow> gateway_wf x (fst (release_dns_context g c))"
  using release_context_wf [of "gw_dns_pins g" c]
  by (cases "release_context (gw_dns_pins g) c")
    (simp add: gateway_wf_def release_dns_context_def verify_audit_chain_def)

text \<open>The invariant and the accounting along a history.\<close>

lemma gateway_run_facts:
  assumes "gateway_wf x g" "gateway_run x ops g = Ret (g', rs)"
  shows "gateway_wf x g' \<and> gw_policy g' = gw_policy g
    \<and> max_concurrency (gw_budget g') = max_concurrency (gw_budget g)
    \<and> allows rs + unat (remaining_requests g') \<le> unat (remaining_requests g)
    \<and> map ev_decision_id (chain_events (gw_audit g'))
        = map ev_decision_id (chain_events (gw_audit g)) @ map decision_id (returned rs)
    \<and> map ev_outcome (chain_events (gw_audit g'))
        = map ev_outcome (chain_events (gw_audit g))
          @ map (decision_outcome_code \<circ> decision_outcome) (returned rs)"
  using assms
proof (induction x ops g arbitrary: rs rule: gateway_run.induct)
  case (1 x g)
  then show ?case by (auto simp: allows_def)
next
  case (2 x ops g)
  then show ?case by (auto simp: complete_request_wf) (auto simp: complete_request_def budget_finish_def)
next
  case (3 x c ops g)
  have "gw_policy (fst (release_dns_context g c)) = gw_policy g"
    "gw_budget (fst (release_dns_context g c)) = gw_budget g"
    "gw_audit (fst (release_dns_context g c)) = gw_audit g"
    by (simp_all add: release_dns_context_def split: prod.splits)
  with 3 show ?case by (simp add: release_dns_context_wf)
next
  case (4 x intent t ops g)
  from "4.prems"(2) obtain g1 r rs1 where r: "authorize x g intent t = Ret (g1, r)"
    "gateway_run x ops g1 = Ret (g', rs1)" "rs = r # rs1"
    by (auto split: run.splits)
  note a = authorize_step [OF "4.prems"(1) r(1)]
  have ih: "gateway_wf x g' \<and> gw_policy g' = gw_policy g1
    \<and> max_concurrency (gw_budget g') = max_concurrency (gw_budget g1)
    \<and> allows rs1 + unat (remaining_requests g') \<le> unat (remaining_requests g1)
    \<and> map ev_decision_id (chain_events (gw_audit g'))
        = map ev_decision_id (chain_events (gw_audit g1)) @ map decision_id (returned rs1)
    \<and> map ev_outcome (chain_events (gw_audit g'))
        = map ev_outcome (chain_events (gw_audit g1))
          @ map (decision_outcome_code \<circ> decision_outcome) (returned rs1)"
    using "4.IH" [OF r(1) refl _ r(2)] a by blast
  show ?case
  proof (cases r)
    case (Inl e)
    then show ?thesis using a ih by (auto simp: r(3) allows_def)
  next
    case (Inr d)
    then obtain st where "chain_events (gw_audit g1) = chain_events (gw_audit g)
        @ [mk_audit_event x intent t (assess_all intent) d st]" using a by blast
    then have "map ev_decision_id (chain_events (gw_audit g1)) = map ev_decision_id (chain_events (gw_audit g)) @ [decision_id d]"
      "map ev_outcome (chain_events (gw_audit g1)) = map ev_outcome (chain_events (gw_audit g)) @ [decision_outcome_code (decision_outcome d)]"
      by (simp_all add: mk_audit_event_def del: map_map)
    then show ?thesis using a ih Inr by (auto simp: r(3) allows_def simp del: map_map)
  qed
qed

lemma other_ops_keep [simp]:
  "gw_next_decision_id (complete_request g) = gw_next_decision_id g"
  "gw_next_decision_id (fst (release_dns_context g c)) = gw_next_decision_id g"
  "gw_dns_pins (complete_request g) = gw_dns_pins g"
  "gw_dns_pins (fst (release_dns_context g c)) = fst (release_context (gw_dns_pins g) c)"
  "refill_per_second (gw_budget (complete_request g)) = refill_per_second (gw_budget g)"
  "refill_per_second (gw_budget (fst (release_dns_context g c))) = refill_per_second (gw_budget g)"
  by (simp_all add: complete_request_def release_dns_context_def budget_finish_def split: prod.splits)

text \<open>Decision ids grow along a history, so none is given twice.\<close>

lemma gateway_run_ids:
  assumes "gateway_wf x g" "gateway_run x ops g = Ret (g', rs)"
    and "unat (gw_next_decision_id g) + length ops < 2 ^ 64"
  shows "distinct (map decision_id (returned rs))
    \<and> (\<forall>d \<in> set (returned rs). \<exists>n \<ge> unat (gw_next_decision_id g). decision_id d = ''decision-'' @ decimal_pad 20 n)"
  using assms
proof (induction x ops g arbitrary: rs rule: gateway_run.induct)
  case (2 x ops g)
  then show ?case by (simp add: complete_request_wf)
next
  case (3 x c ops g)
  then show ?case by (simp add: release_dns_context_wf)
next
  case (4 x intent t ops g)
  from "4.prems"(2) obtain g1 r rs1 where r: "authorize x g intent t = Ret (g1, r)"
    "gateway_run x ops g1 = Ret (g', rs1)" "rs = r # rs1"
    by (auto split: run.splits)
  note a = authorize_step [OF "4.prems"(1) r(1)]
  have "gw_next_decision_id g \<noteq> - 1"
    using "4.prems"(3) by (auto simp: unat_minus_one_max)
  then have n: "unat (gw_next_decision_id g1) = Suc (unat (gw_next_decision_id g))"
    using a saturating_add_one by metis
  have ih: "distinct (map decision_id (returned rs1))"
    "\<forall>d \<in> set (returned rs1). \<exists>n \<ge> unat (gw_next_decision_id g1). decision_id d = ''decision-'' @ decimal_pad 20 n"
    using "4.IH" [OF r(1) refl _ r(2)] a "4.prems"(3) n by auto
  have weak: "\<forall>d \<in> set (returned rs1). \<exists>n \<ge> unat (gw_next_decision_id g). decision_id d = ''decision-'' @ decimal_pad 20 n"
    using ih(2) unfolding n by (meson Suc_leD)
  show ?case
  proof (cases r)
    case (Inl e)
    then show ?thesis using ih(1) weak by (simp add: r(3))
  next
    case (Inr d)
    then have d: "decision_id d = ''decision-'' @ decimal_pad 20 (unat (gw_next_decision_id g))"
      using a by (simp add: fresh_id_def)
    have "decision_id d \<noteq> decision_id d'" if "d' \<in> set (returned rs1)" for d'
      using ih(2) that n d by (auto simp: decimal_pad_inject)
    then show ?thesis using ih(1) weak d Inr by (auto simp: r(3))
  qed
qed simp

lemma gateway_run_no_panic:
  assumes "gateway_wf x g" "refill_per_second (gw_budget g) = Fin r" "1 / 2 ^ 63 \<le> r"
  shows "gateway_run x ops g \<noteq> Panic"
  using assms
proof (induction x ops g rule: gateway_run.induct)
  case (2 x ops g)
  then show ?case by (simp add: complete_request_wf)
next
  case (3 x c ops g)
  then show ?case by (simp add: release_dns_context_wf)
next
  case (4 x intent t ops g)
  have "try_start (gw_budget g) t \<noteq> Panic"
    using 4 try_start_no_panic by (auto simp: gateway_wf_def)
  then have "authorize x g intent t \<noteq> Panic"
    by (cases rule: authorize_cases [where x = x and g = g and intent = intent and elapsed = t]) auto
  then obtain g1 q where q: "authorize x g intent t = Ret (g1, q)"
    by (cases "authorize x g intent t") auto
  have "gateway_run x ops g1 \<noteq> Panic"
    using "4.IH" [OF q refl] authorize_step [OF "4.prems"(1) q] "4.prems"(2,3) by simp
  then show ?case by (auto simp: q split: run.splits)
qed simp

text \<open>A pin outlives every operation except the release of its context.\<close>

lemma authorize_keeps_pin:
  assumes "authorize x g intent t = Ret (g', r)" "map_of (gw_dns_pins g) k = Some p"
  shows "\<exists>p'. map_of (gw_dns_pins g') k = Some p' \<and> pin_addresses p' = pin_addresses p"
proof (cases rule: authorize_cases [where x = x and g = g and intent = intent and elapsed = t])
  case (reached host pins status b s a r' d st q)
  then have "gw_dns_pins g' = fst (pin_or_validate (gw_dns_pins g) (intent_observation intent host t))"
    using assms(1) by (simp add: admissible_def)
  then show ?thesis using dns.pin_keeps [OF assms(2)] by auto
qed (use assms in auto)

lemma gateway_run_keeps_pin:
  assumes "gateway_run x ops g = Ret (g', rs)" "map_of (gw_dns_pins g) k = Some p"
    and "\<forall>c. ReleaseDns c \<in> set ops \<longrightarrow> normalize_identifier c \<noteq> fst k"
  shows "\<exists>p'. map_of (gw_dns_pins g') k = Some p' \<and> pin_addresses p' = pin_addresses p"
  using assms
proof (induction x ops g arbitrary: rs p rule: gateway_run.induct)
  case (3 x c ops g)
  then show ?case by (auto simp: map_of_release)
next
  case (4 x intent t ops g)
  from "4.prems"(1) obtain g1 r rs1 where r: "authorize x g intent t = Ret (g1, r)"
    "gateway_run x ops g1 = Ret (g', rs1)"
    by (auto split: run.splits)
  obtain p1 where p1: "map_of (gw_dns_pins g1) k = Some p1" "pin_addresses p1 = pin_addresses p"
    using authorize_keeps_pin [OF r(1) "4.prems"(2)] by blast
  show ?case using "4.IH" [OF r(1) refl r(2) p1(1)] "4.prems"(3) p1(2) by auto
qed auto

lemma authorize_allow:
  assumes "authorize x g intent t = Ret (g', Inr d)" "decision_outcome d = Allow"
  obtains host pins status b where "admissible g intent t host pins status"
    "try_start (gw_budget g) t = Ret (b, Inr ())" "gw_dns_pins g' = pins" "gw_budget g' = b"
proof (cases rule: authorize_cases [where x = x and g = g and intent = intent and elapsed = t])
  case (denied a r d' st q)
  then show thesis using assms by (cases q) auto
next
  case (reached host pins status b s a r d' st q)
  moreover have "d' = d" using reached(1,7) assms(1) by (cases q) auto
  ultimately show thesis using assms by (intro that [where host = host and pins = pins and status = status and b = b]) auto
qed (use assms in simp)

lemma gateway_new_wf:
  assumes "gateway_new policy m = Inr g" "is_f64 (maximum_requests_per_second policy)"
  shows "gateway_wf x g" "gw_policy g = policy" "unat (remaining_requests g) = unat (maximum_total_requests policy)"
    "max_concurrency (gw_budget g) = maximum_concurrency policy" "chain_events (gw_audit g) = []"
    "gw_next_decision_id g = 1" "refill_per_second (gw_budget g) = maximum_requests_per_second policy"
proof -
  from assms(1) obtain b where b: "budget_new (maximum_total_requests policy) (maximum_concurrency policy)
      (maximum_requests_per_second policy) = Inr b" and g: "g = \<lparr>gw_policy = policy, gw_budget = b,
      gw_dns_pins = dns_pin_set_new, gw_audit = audit_chain_new, gw_maximum_redirects = m, gw_next_decision_id = 1\<rparr>"
    by (auto simp: gateway_new_def bind_r_Inr map_err_Inr split: if_split_asm)
  have "remaining b = maximum_total_requests policy" "max_concurrency b = maximum_concurrency policy"
    "refill_per_second b = maximum_requests_per_second policy"
    using b by (auto simp: budget_new_def Let_def split: if_split_asm)
  then show "gateway_wf x g" "gw_policy g = policy" "unat (remaining_requests g) = unat (maximum_total_requests policy)"
    "max_concurrency (gw_budget g) = maximum_concurrency policy" "chain_events (gw_audit g) = []"
    "gw_next_decision_id g = 1" "refill_per_second (gw_budget g) = maximum_requests_per_second policy"
    using budget_new_wf [OF b assms(2)]
    by (simp_all add: g gateway_wf_def verify_audit_chain_def audit_verify_new pins_wf_def dns_pin_set_new_def)
      (simp add: audit_chain_new_def)
qed

section \<open>Properties\<close>

text \<open>
  C1: When a decision is returned, it is Allow exactly if the redirect depth is within the limit,
  the policy allows the URL and the method, there is at least one resolved address and every
  resolved address is public, the DNS observation is accepted by the pins, and the budget starts
  the request; and then the pin of this context and host holds exactly the resolved addresses.
\<close>

theorem gateway_allow_iff:
  assumes "authorize x g intent t = Ret (g', Inr d)"
  shows "decision_outcome d = Allow \<longleftrightarrow>
      intent_redirect_depth intent \<le> gw_maximum_redirects g
      \<and> allows_request (gw_policy g) (intent_url intent) (intent_method intent)
      \<and> intent_resolved_ips intent \<noteq> []
      \<and> list_all is_public_destination (intent_resolved_ips intent)
      \<and> (\<exists>host pins status b.
           url_host_str (intent_url intent) = Some host
           \<and> pin_or_validate (gw_dns_pins g) (intent_observation intent host t) = (pins, Inr status)
           \<and> try_start (gw_budget g) t = Ret (b, Inr ())
           \<and> map_option pin_addresses (dns_get (gw_dns_pins g') (intent_dns_context_id intent) host)
               = Some (fset_of_list (intent_resolved_ips intent)))"
    (is "_ \<longleftrightarrow> ?ok")
proof
  assume "decision_outcome d = Allow"
  with assms obtain host pins status b where a: "admissible g intent t host pins status"
    "try_start (gw_budget g) t = Ret (b, Inr ())" "gw_dns_pins g' = pins"
    by (rule authorize_allow)
  then have p: "pin_or_validate (gw_dns_pins g) (intent_observation intent host t) = (pins, Inr status)"
    by (simp add: admissible_def)
  have "map_option pin_addresses (dns_get pins (intent_dns_context_id intent) host)
      = Some (fset_of_list (intent_resolved_ips intent))"
    using pin_or_validate_Inr(3) [OF p] by (auto simp: dns_get_def observation_key_def intent_observation_def)
  then show ?ok using a p by (auto simp: admissible_def list_all_iff)
next
  assume ok: ?ok
  then obtain host pins status b where adm: "admissible g intent t host pins status"
    and b: "try_start (gw_budget g) t = Ret (b, Inr ())"
    by (auto simp: admissible_def list_all_iff)
  show "decision_outcome d = Allow"
  proof (cases rule: authorize_cases [where x = x and g = g and intent = intent and elapsed = t])
    case (reached host' pins' status' b' s a r d' st q)
    then show ?thesis using assms b by (cases q) auto
  qed (use adm b assms in auto)
qed

text \<open>
  What a decision costs. An allowed request takes exactly one request from the remaining
  total and one slot; a denied one takes neither.
\<close>

theorem gateway_budget_effect:
  assumes "gateway_wf x g" "authorize x g intent t = Ret (g', Inr d)"
  shows "if decision_outcome d = Allow
    then unat (remaining_requests g') + 1 = unat (remaining_requests g)
       \<and> unat (in_flight_requests g') = unat (in_flight_requests g) + 1
    else remaining_requests g' = remaining_requests g \<and> in_flight_requests g' = in_flight_requests g"
proof -
  have wf: "budget_wf (gw_budget g)" using assms(1) by (simp add: gateway_wf_def)
  show ?thesis
  proof (cases rule: authorize_cases [where x = x and g = g and intent = intent and elapsed = t])
    case (denied a r d' st q)
    then show ?thesis using assms(2) by (cases q) auto
  next
    case (reached host pins status b s a r d' st q)
    then have "d' = d" "gw_budget g' = b" using assms(2) by (cases q; auto)+
    then show ?thesis
      using reached(3,5) try_start_ok(2,3) [OF wf, of t b] try_start_err [of "gw_budget g" t b]
      by (cases s) auto
  qed (use assms in simp)
qed

text \<open>
  C2: A whole life of a gateway built from a compiled policy. After any history of
  authorizations, completions and context releases that returns: at most as many requests were
  allowed as the policy's total, and never more are in flight than its concurrency, hence at most
  100000 and eight; the audit chain verifies, and holds, in order, exactly the id and the outcome
  of every decision that was returned.
\<close>

theorem gateway_history:
  assumes "compile p now = Inr policy" "gateway_new policy m = Inr g0"
    and "is_f64 (maximum_requests_per_second policy)" "gateway_run x ops g0 = Ret (g, rs)"
  shows "allows rs \<le> unat (maximum_total_requests policy) \<and> unat (maximum_total_requests policy) \<le> 100000
    \<and> in_flight_requests g \<le> maximum_concurrency policy \<and> maximum_concurrency policy \<le> 8
    \<and> verify_audit_chain x g = Inr ()
    \<and> map (\<lambda>e. (ev_decision_id e, ev_outcome e)) (chain_events (gw_audit g))
        = map (\<lambda>d. (decision_id d, decision_outcome_code (decision_outcome d))) (returned rs)"
proof -
  note n = gateway_new_wf [OF assms(2,3)]
  note f = gateway_run_facts [OF n(1) assms(4)]
  have v: "validate_top_level p now = Inr ()" "inner policy = p" using assms(1) by (simp_all add: compile_Inr)
  have lim: "maximum_total_requests policy \<le> 100000" "maximum_concurrency policy \<le> 8"
    using validate_top_level_Inr(8,10) [OF v(1)] v(2) by auto
  have acc: "in_flight_requests g \<le> maximum_concurrency policy" "verify_audit_chain x g = Inr ()"
    using f n(4) by (auto simp: gateway_wf_def budget_wf_def)
  have pairs: "map (\<lambda>e. (ev_decision_id e, ev_outcome e)) es
      = map (\<lambda>d. (decision_id d, decision_outcome_code (decision_outcome d))) ds"
    if "map ev_decision_id es = map decision_id ds"
      "map ev_outcome es = map (decision_outcome_code \<circ> decision_outcome) ds" for es ds
    using that by (auto simp: list_eq_iff_nth_eq)
  have "map (\<lambda>e. (ev_decision_id e, ev_outcome e)) (chain_events (gw_audit g))
      = map (\<lambda>d. (decision_id d, decision_outcome_code (decision_outcome d))) (returned rs)"
    using f unfolding n(5) list.map append_Nil by (intro pairs) blast+
  moreover have "unat (maximum_total_requests policy) \<le> 100000"
    using lim(1) by (simp add: word_le_nat_alt)
  moreover have "allows rs \<le> unat (maximum_total_requests policy)" using f n(3) by linarith
  ultimately show ?thesis using acc lim(2) by blast
qed

text \<open>
  No decision id is returned twice in a history of a new gateway of fewer than
  \<open>2^64 - 1\<close> operations.
\<close>

theorem gateway_decision_ids_unique:
  assumes "gateway_new policy m = Inr g0" "is_f64 (maximum_requests_per_second policy)"
    and "gateway_run x ops g0 = Ret (g, rs)" "length ops < 2 ^ 64 - 1"
  shows "distinct (map decision_id (returned rs))"
  using gateway_run_ids [OF gateway_new_wf(1) [OF assms(1,2)] assms(3)] gateway_new_wf(6) [OF assms(1,2)] assms(4)
  by simp

text \<open>
  C4: DNS rebinding across a gateway's history. If a request is allowed, and after any further
  operations that do not release its DNS context another request of the same context and host is
  allowed, then both resolved to the same set of addresses.
\<close>

theorem gateway_no_rebinding:
  assumes "authorize x g i1 t1 = Ret (g1, Inr d1)" "decision_outcome d1 = Allow"
    and "gateway_run x ops g1 = Ret (g2, rs)"
    and "\<forall>c. ReleaseDns c \<in> set ops \<longrightarrow> normalize_identifier c \<noteq> normalize_identifier (intent_dns_context_id i1)"
    and "authorize x g2 i2 t2 = Ret (g3, Inr d2)" "decision_outcome d2 = Allow"
    and "normalize_identifier (intent_dns_context_id i2) = normalize_identifier (intent_dns_context_id i1)"
    and "map_option normalize_host (url_host_str (intent_url i2)) = map_option normalize_host (url_host_str (intent_url i1))"
  shows "set (intent_resolved_ips i2) = set (intent_resolved_ips i1)"
proof -
  obtain host1 pins1 st1 where a1: "admissible g i1 t1 host1 pins1 st1" "gw_dns_pins g1 = pins1"
    using authorize_allow [OF assms(1,2)] by metis
  obtain host2 pins2 st2 where a2: "admissible g2 i2 t2 host2 pins2 st2"
    using authorize_allow [OF assms(5,6)] by metis
  let ?o1 = "intent_observation i1 host1 t1" and ?o2 = "intent_observation i2 host2 t2"
  have k: "observation_key ?o2 = observation_key ?o1"
    using a1 a2 assms(7,8) by (simp add: admissible_def observation_key_def intent_observation_def)
  obtain q1 where q1: "map_of pins1 (observation_key ?o1) = Some q1" "pin_addresses q1 = obs_addresses ?o1"
    using pin_or_validate_Inr(3) [of "gw_dns_pins g" ?o1 pins1 st1] a1(1) by (auto simp: admissible_def)
  have "\<forall>c. ReleaseDns c \<in> set ops \<longrightarrow> normalize_identifier c \<noteq> fst (observation_key ?o1)"
    using assms(4) by (simp add: observation_key_def intent_observation_def)
  then obtain q2 where q2: "map_of (gw_dns_pins g2) (observation_key ?o2) = Some q2" "pin_addresses q2 = pin_addresses q1"
    using gateway_run_keeps_pin [OF assms(3), of "observation_key ?o1" q1] q1(1) a1(2) k by auto
  have "pin_addresses q2 = obs_addresses ?o2"
    using pin_or_validate_Inr(4) [of "gw_dns_pins g2" ?o2 pins2 st2 q2] q2(1) a2 by (simp add: admissible_def)
  then have "fset_of_list (intent_resolved_ips i2) = fset_of_list (intent_resolved_ips i1)"
    using q1(2) q2(2) by (simp add: intent_observation_def)
  then show ?thesis by (metis fset_of_list.rep_eq)
qed

text \<open>
  C30: A gateway whose policy rate is at least \<open>2^-63\<close> requests per second never panics: every
  history returns.
\<close>

theorem gateway_never_panics:
  assumes "gateway_new policy m = Inr g0" "is_f64 (maximum_requests_per_second policy)"
    and "maximum_requests_per_second policy = Fin r" "1 / 2 ^ 63 \<le> r"
  shows "\<exists>g rs. gateway_run x ops g0 = Ret (g, rs)"
proof -
  have "gateway_run x ops g0 \<noteq> Panic"
    using gateway_run_no_panic [OF gateway_new_wf(1) [OF assms(1,2)] _ assms(4)]
      gateway_new_wf(7) [OF assms(1,2)] assms(3) by simp
  then show ?thesis by (cases "gateway_run x ops g0") auto
qed

section \<open>Evaluation\<close>

definition sample_ext :: gateway_ext where
  "sample_ext = \<lparr>sha256 = toy_sha, ser_audit = toy_ser, url_to_string = url_path\<rparr>"

definition sample_url :: url where
  "sample_url =
     \<lparr>url_scheme = ''https'', url_username = [], url_password = None, url_host_str = Some ''a.io'',
      url_port_or_known_default = Some 443, url_path = ''/'', url_query = None, url_fragment = None\<rparr>"

definition sample_intent :: "u32 \<Rightarrow> request_intent" where
  "sample_intent ip =
     \<lparr>intent_url = sample_url, intent_method = ''GET'', intent_resolved_ips = [V4 ip],
      intent_redirect_depth = 0, intent_dns_context_id = ''c'', intent_dns_resolver_id = ''r'',
      intent_dns_ttl_seconds = 60\<rparr>"

definition sample_gateway :: scope_gateway where
  "sample_gateway =
     \<lparr>gw_policy = sample_compiled,
      gw_budget = \<lparr>remaining = 100, max_concurrency = 2, in_flight = 0, tokens = Fin 2,
        token_capacity = Fin 2, refill_per_second = Fin 2, last_refill = 0\<rparr>,
      gw_dns_pins = [], gw_audit = audit_chain_new, gw_maximum_redirects = 3, gw_next_decision_id = 1\<rparr>"

lemma sample_gateway_new: "gateway_new sample_compiled 3 = Inr sample_gateway"
  by (simp add: gateway_new_def sample_compiled_def sample_policy_def budget_new_def f64_max_def
      sample_gateway_def dns_pin_set_new_def Let_def)

text \<open>When the serializer succeeds, a decision is always returned.\<close>

lemma audit_append_total:
  "(\<And>m. \<exists>b. ser m = Inr b) \<Longrightarrow> \<exists>a z. audit_append ser sha c ev = (a, Inr z)"
  using chain_append_Inr_iff [of "hash_material ser sha" c ev]
  by (auto simp: audit_append_def hash_material_def chain_hash_def bind_r_Inr map_err_Inr)

lemma authorize_returns:
  assumes "\<And>m. \<exists>b. ser_audit x m = Inr b"
    and "admissible g intent t host pins status" "try_start (gw_budget g) t = Ret (b, Inr ())"
  shows "\<exists>g' d. authorize x g intent t = Ret (g', Inr d) \<and> decision_outcome d = Allow
    \<and> gw_dns_pins g' = pins \<and> gw_budget g' = b"
proof (cases rule: authorize_cases [where x = x and g = g and intent = intent and elapsed = t])
  case (reached host' pins' status' b' s a r d st q)
  have "pins' = pins" using reached(2) assms(2) by (auto simp: admissible_def)
  moreover obtain z where "q = Inr z" 
    using audit_append_total [where ser = "ser_audit x" and sha = "sha256 x" and c = "gw_audit g"
        and ev = "mk_audit_event x intent t (assess_all intent) d st"] assms(1) reached(6) by auto
  ultimately show ?thesis using reached assms(3) by auto
qed (use assms in auto)

abbreviation sample_observed :: dns_observation where
  "sample_observed \<equiv> intent_observation (sample_intent 0x08080808) ''a.io'' 0"

definition sample_pins :: dns_pin_set where
  "sample_pins = fst (pin_or_validate [] sample_observed)"

lemma sample_pinned: "pin_or_validate [] sample_observed = (sample_pins, Inr Pinned)"
  by code_simp

lemma sample_matched:
  "pin_or_validate (fst (release_context sample_pins ''z'')) sample_observed
     = (fst (pin_or_validate (fst (release_context sample_pins ''z'')) sample_observed), Inr Matched)"
  by code_simp

lemma sample_in_scope: "allows_request sample_compiled sample_url ''GET''"
  by code_simp

lemma sample_public: "is_public_destination (V4 0x08080808)"
  by (simp add: public_table)

lemma sample_started:
  "try_start (gw_budget sample_gateway) 0
     = Ret ((gw_budget sample_gateway)\<lparr>remaining := 99, in_flight := 1, tokens := Fin 1\<rparr>, Inr ())"
  "try_start ((gw_budget sample_gateway)\<lparr>remaining := 99, in_flight := 1, tokens := Fin 1\<rparr>) 0
     = Ret ((gw_budget sample_gateway)\<lparr>remaining := 98, in_flight := 2, tokens := Fin 0\<rparr>, Inr ())"
  by (simp_all add: try_start_def refill_def sample_gateway_def f64_sub_def Let_def word_le_nat_alt)

lemma sample_admissible:
  assumes "gw_policy g = sample_compiled" "gw_maximum_redirects g = 3"
    and "pin_or_validate (gw_dns_pins g) sample_observed = (pins, Inr st)"
  shows "admissible g (sample_intent 0x08080808) 0 ''a.io'' pins st"
  using assms sample_in_scope sample_public
  by (simp add: admissible_def sample_intent_def) (simp add: sample_url_def)

lemma sample_allowed:
  "\<exists>g1 d. authorize sample_ext sample_gateway (sample_intent 0x08080808) 0 = Ret (g1, Inr d)
     \<and> decision_outcome d = Allow \<and> gw_dns_pins g1 = sample_pins
     \<and> gw_budget g1 = (gw_budget sample_gateway)\<lparr>remaining := 99, in_flight := 1, tokens := Fin 1\<rparr>"
proof (rule authorize_returns [OF _ sample_admissible sample_started(1)])
  show "pin_or_validate (gw_dns_pins sample_gateway) sample_observed = (sample_pins, Inr Pinned)"
    using sample_pinned by (simp add: sample_gateway_def)
qed (auto simp: sample_ext_def toy_ser_def sample_gateway_def)

lemma sample_gateway_wf: "gateway_wf sample_ext sample_gateway"
  using gateway_new_wf(1) [OF sample_gateway_new]
  by (simp add: sample_compiled_def sample_policy_def round64_two)

theorem gateway_allow_iff_witness:
  "\<exists>g1 d. authorize sample_ext sample_gateway (sample_intent 0x08080808) 0 = Ret (g1, Inr d)
     \<and> decision_outcome d = Allow
     \<and> map_option pin_addresses (dns_get (gw_dns_pins g1) ''c'' ''a.io'') = Some {|V4 0x08080808|}"
proof -
  obtain g1 d where a: "authorize sample_ext sample_gateway (sample_intent 0x08080808) 0 = Ret (g1, Inr d)"
    "decision_outcome d = Allow" using sample_allowed by blast
  have i: "intent_dns_context_id (sample_intent ip) = ''c''" "intent_resolved_ips (sample_intent ip) = [V4 ip]"
    "url_host_str (intent_url (sample_intent ip)) = Some ''a.io''" for ip
    by (simp_all add: sample_intent_def sample_url_def)
  have "map_option pin_addresses (dns_get (gw_dns_pins g1) ''c'' ''a.io'') = Some {|V4 0x08080808|}"
    using gateway_allow_iff [OF a(1)] a(2) unfolding i by simp
  then show ?thesis using a by blast
qed

theorem gateway_budget_effect_witness:
  "\<exists>g1. unat (remaining_requests g1) + 1 = unat (remaining_requests sample_gateway)
     \<and> unat (in_flight_requests g1) = unat (in_flight_requests sample_gateway) + 1"
proof -
  obtain g1 d where a: "authorize sample_ext sample_gateway (sample_intent 0x08080808) 0 = Ret (g1, Inr d)"
    "decision_outcome d = Allow" using sample_allowed by blast
  show ?thesis using gateway_budget_effect [OF sample_gateway_wf a(1)] a(2) by auto
qed

abbreviation sample_ops :: "gateway_op list" where
  "sample_ops \<equiv> [Authorize (sample_intent 0x08080808) 0, CompleteRequest]"

lemma sample_gateway_run:
  "\<exists>g d. gateway_run sample_ext sample_ops sample_gateway = Ret (g, [Inr d]) \<and> decision_outcome d = Allow"
  using sample_allowed by auto

lemma sample_rate: "is_f64 (maximum_requests_per_second sample_compiled)"
  by (simp add: sample_compiled_def sample_policy_def round64_two)

theorem gateway_history_witness:
  "\<exists>g d. gateway_run sample_ext sample_ops sample_gateway = Ret (g, [Inr d])
     \<and> allows [Inr d] = 1 \<and> allows [Inr d] \<le> unat (maximum_total_requests sample_compiled)
     \<and> verify_audit_chain sample_ext g = Inr ()"
proof -
  obtain g d where r: "gateway_run sample_ext sample_ops sample_gateway = Ret (g, [Inr d])"
    "decision_outcome d = Allow" using sample_gateway_run by blast
  show ?thesis
    using gateway_history [OF sample_compile sample_gateway_new sample_rate r(1)] r
    by (auto simp: allows_def)
qed

theorem gateway_decision_ids_unique_witness:
  "\<exists>g rs. gateway_run sample_ext sample_ops sample_gateway = Ret (g, rs) \<and> distinct (map decision_id (returned rs))"
proof -
  obtain g d where r: "gateway_run sample_ext sample_ops sample_gateway = Ret (g, [Inr d])"
    using sample_gateway_run by blast
  show ?thesis using gateway_decision_ids_unique [OF sample_gateway_new sample_rate r] r by force
qed

theorem gateway_no_rebinding_witness:
  "set (intent_resolved_ips (sample_intent 0x08080808)) = set (intent_resolved_ips (sample_intent 0x08080808))
   \<and> (\<exists>g1 g2 d. authorize sample_ext g1 (sample_intent 0x08080808) 0 = Ret (g2, Inr d) \<and> gw_dns_pins g1 \<noteq> [])"
proof -
  obtain g1 d1 where a1: "authorize sample_ext sample_gateway (sample_intent 0x08080808) 0 = Ret (g1, Inr d1)"
    "decision_outcome d1 = Allow" "gw_dns_pins g1 = sample_pins"
    "gw_budget g1 = (gw_budget sample_gateway)\<lparr>remaining := 99, in_flight := 1, tokens := Fin 1\<rparr>"
    using sample_allowed by blast
  define g2 where "g2 = fst (release_dns_context g1 ''z'')"
  have g2: "gw_dns_pins g2 = fst (release_context sample_pins ''z'')" "gw_budget g2 = gw_budget g1"
    "gw_policy g2 = sample_compiled" "gw_maximum_redirects g2 = 3"
    using a1(3) authorize_step [OF sample_gateway_wf a1(1)]
    by (auto simp: g2_def release_dns_context_def split: prod.splits) (simp_all add: sample_gateway_def)
  have run: "gateway_run sample_ext [ReleaseDns ''z''] g1 = Ret (g2, [])" by (simp add: g2_def)
  have "\<exists>g3 d. authorize sample_ext g2 (sample_intent 0x08080808) 0 = Ret (g3, Inr d) \<and> decision_outcome d = Allow
      \<and> gw_dns_pins g3 = fst (pin_or_validate (fst (release_context sample_pins ''z'')) sample_observed)
      \<and> gw_budget g3 = (gw_budget sample_gateway)\<lparr>remaining := 98, in_flight := 2, tokens := Fin 0\<rparr>"
  proof (rule authorize_returns [OF _ sample_admissible])
    show "pin_or_validate (gw_dns_pins g2) sample_observed
      = (fst (pin_or_validate (fst (release_context sample_pins ''z'')) sample_observed), Inr Matched)"
      using sample_matched g2(1) by simp
    show "try_start (gw_budget g2) 0
      = Ret ((gw_budget sample_gateway)\<lparr>remaining := 98, in_flight := 2, tokens := Fin 0\<rparr>, Inr ())"
      using sample_started(2) g2(2) a1(4) by simp
  qed (auto simp: sample_ext_def toy_ser_def g2)
  then obtain g3 d2 where a2: "authorize sample_ext g2 (sample_intent 0x08080808) 0 = Ret (g3, Inr d2)"
    "decision_outcome d2 = Allow" by blast
  have c: "\<forall>c. ReleaseDns c \<in> set [ReleaseDns ''z''] \<longrightarrow>
      normalize_identifier c \<noteq> normalize_identifier (intent_dns_context_id (sample_intent 0x08080808))"
    by simp code_simp
  have "gw_dns_pins g2 \<noteq> []" unfolding g2(1) by code_simp
  then show ?thesis
    using gateway_no_rebinding [OF a1(1,2) run c a2 refl refl] a2(1) by blast
qed

theorem gateway_never_panics_witness:
  "\<exists>g rs. gateway_run sample_ext [Authorize (sample_intent 0x7f000001) 7] sample_gateway = Ret (g, rs)"
  by (rule gateway_never_panics [OF sample_gateway_new sample_rate, where r = 2])
    (simp_all add: sample_compiled_def sample_policy_def)

end
