(* ===== verification/Ip_Text.thy ===== *)
theory Ip_Text
  imports Ip_Addr
begin

text \<open>
  The textual form of an address determines the address: dotted decimals, hexadecimal segments, the
  compressed run of zero segments and the mapped form are all injective, and no two forms overlap.
\<close>

section \<open>Splitting joined text\<close>

lemma split_on_append: "d \<notin> set x \<Longrightarrow> split_on d (x @ d # s) = x # split_on d s"
  by (induction x) auto

lemma split_on_id: "d \<notin> set x \<Longrightarrow> split_on d x = [x]"
  by (induction x) auto

lemma split_on_join:
  "xs \<noteq> [] \<Longrightarrow> \<forall>x \<in> set xs. d \<notin> set x \<Longrightarrow> split_on d (join_with [d] xs) = xs"
  by (induction "[d]" xs rule: join_with.induct) (simp_all add: split_on_id split_on_append)

lemma split_joined_append:
  "xs \<noteq> [] \<Longrightarrow> \<forall>x \<in> set xs. d \<notin> set x \<Longrightarrow> split_on d (join_with [d] xs @ d # s) = xs @ split_on d s"
  by (induction "[d]" xs rule: join_with.induct) (simp_all add: split_on_append)

lemma set_join_with: "set (join_with d xs) \<subseteq> set d \<union> (\<Union>x \<in> set xs. set x)"
  by (induction d xs rule: join_with.induct) auto

lemma decimal_inject [simp]: "decimal m = decimal n \<longleftrightarrow> m = n"
  by (metis read_decimal_decimal)

section \<open>Numbers and their digits\<close>

lemma digits_inject:
  fixes B :: nat
  shows "m < B ^ k \<Longrightarrow> n < B ^ k \<Longrightarrow> \<forall>i < k. m div B ^ i mod B = n div B ^ i mod B \<Longrightarrow> m = n"
proof (induction k arbitrary: m n)
  case (Suc k)
  have "m div B div B ^ i mod B = n div B div B ^ i mod B" if "i < k" for i
    using Suc.prems(3) [rule_format, of "Suc i"] that by (simp add: div_mult2_eq)
  moreover have "m div B < B ^ k" "n div B < B ^ k"
    using Suc.prems(1,2) by (simp_all add: less_mult_imp_div_less mult.commute)
  ultimately have "m div B = n div B" using Suc.IH by blast
  moreover have "m mod B = n mod B" using Suc.prems(3) [rule_format, of 0] by simp
  ultimately show ?case by (metis div_mult_mod_eq)
qed simp

lemma octets_inject:
  assumes "octet 0 a = octet 0 b" "octet 1 a = octet 1 b" "octet 2 a = octet 2 b" "octet 3 a = octet 3 b"
  shows "a = b"
proof -
  have "unat a div 256 ^ i mod 256 = unat b div 256 ^ i mod 256" if "i < 4" for i
  proof -
    have "3 - (3 - i) = i" using that by simp
    moreover consider "3 - i = 0" | "3 - i = 1" | "3 - i = 2" | "3 - i = 3" using that by linarith
    then have "octet (3 - i) a = octet (3 - i) b" using assms by cases metis+
    ultimately show ?thesis by (simp only: octet_def)
  qed
  then have "unat a = unat b" using digits_inject [of "unat a" 256 4 "unat b"] unat_bounds(3) [of a] unat_bounds(3) [of b] by simp
  then show ?thesis by (simp add: word_unat_eq_iff)
qed

lemma segments_inject:
  assumes "segments a = segments b"
  shows "a = b"
proof -
  have "unat a div 65536 ^ i mod 65536 = unat b div 65536 ^ i mod 65536" if "i < 8" for i
  proof -
    from that consider "i = 0" | "i = 1" | "i = 2" | "i = 3" | "i = 4" | "i = 5" | "i = 6" | "i = 7" by linarith
    then show ?thesis using assms by cases (simp_all add: segments_def segment_def)
  qed
  then have "unat a = unat b"
    using digits_inject [of "unat a" 65536 8 "unat b"] unat_bounds(5) [of a] unat_bounds(5) [of b] by simp
  then show ?thesis by (simp add: word_unat_eq_iff)
qed

lemma hex_string_neq_Nil [simp]: "hex_string n \<noteq> []" "[] \<noteq> hex_string n"
  by (subst hex_string.simps, simp)+

lemma hex_string_inject [simp]: "hex_string m = hex_string n \<longleftrightarrow> m = n"
proof (induction m arbitrary: n rule: hex_string.induct)
  case (1 m)
  show ?case
  proof (cases "m < 16"; cases "n < 16")
    assume *: "\<not> m < 16" "\<not> n < 16"
    then have "hex_string m = hex_string n \<longleftrightarrow> m div 16 = n div 16 \<and> m mod 16 = n mod 16"
      using 1 by (simp add: hex_string.simps [of m] hex_string.simps [of n] hex_digit_inject)
    then show ?thesis by (metis div_mult_mod_eq)
  qed (auto simp: hex_string.simps [of m] hex_string.simps [of n] hex_digit_inject)
qed

lemma hex_digit_byte: "n < 16 \<Longrightarrow> hex_digit n \<notin> {CHR '':'', CHR ''.'', CHR '',''}"
  by (auto dest!: arg_cong [where f = byte] simp: byte_hex_digit split: if_split_asm) (simp_all add: byte_def)

lemma hex_string_chars: "c \<in> set (hex_string n) \<Longrightarrow> c \<notin> {CHR '':'', CHR ''.'', CHR '',''}"
proof (induction n rule: hex_string.induct)
  case (1 n)
  then show ?case using hex_digit_byte [of "n mod 16"] hex_digit_byte [of n]
    by (subst (asm) hex_string.simps) (auto split: if_split_asm)
qed

lemma decimal_chars: "c \<in> set (decimal n) \<Longrightarrow> c \<notin> {CHR '':'', CHR ''.'', CHR '',''}"
  by (drule decimal_digits) (auto simp: byte_class_defs byte_def)

section \<open>The zero run\<close>

definition zero_run :: "nat list \<Rightarrow> nat \<times> nat \<Rightarrow> bool" where
  "zero_run xs z \<longleftrightarrow> fst z + snd z \<le> length xs \<and> (\<forall>j < snd z. xs ! (fst z + j) = 0)"

lemma zero_run_split:
  assumes "zero_run xs z"
  shows "xs = take (fst z) xs @ replicate (snd z) 0 @ drop (fst z + snd z) xs"
proof -
  have "take (snd z) (drop (fst z) xs) = replicate (snd z) 0"
    using assms by (intro nth_equalityI) (auto simp: zero_run_def)
  then show ?thesis by (metis append_take_drop_id drop_drop add.commute)
qed

lemma zero_span_run:
  assumes "zero_run (pre @ ss) best" "snd cur = 0 \<or> zero_run (pre @ ss) cur \<and> fst cur + snd cur = length pre"
  shows "zero_run (pre @ ss) (zero_span (length pre) ss cur best)"
  using assms
proof (induction ss arbitrary: pre cur best)
  case (Cons s ss)
  let ?cur = "(if snd cur = 0 then length pre else fst cur, snd cur + 1)"
  have l: "length (pre @ [s]) = length pre + 1" by simp
  have c: "zero_run (pre @ s # ss) ?cur \<and> fst ?cur + snd ?cur = length (pre @ [s])" if "s = 0"
    using Cons.prems(2) that by (auto simp: zero_run_def nth_append less_Suc_eq)
  have b: "zero_run (pre @ s # ss) (if snd ?cur > snd best then ?cur else best)" if "s = 0"
    using Cons.prems(1) c [OF that] by simp
  show ?case
  proof (cases "s = 0")
    case True
    then show ?thesis using Cons.IH [of "pre @ [s]" "if snd ?cur > snd best then ?cur else best" ?cur] b c l
      by (simp add: Let_def cong: if_cong)
  next
    case False
    then show ?thesis using Cons.IH [of "pre @ [s]" best "(0, 0)"] Cons.prems(1) l by simp
  qed
qed simp

section \<open>Injectivity\<close>

lemma ipv4_to_string_parts:
  "split_on (CHR ''.'') (ipv4_to_string ip)
     = [decimal (octet 0 ip), decimal (octet 1 ip), decimal (octet 2 ip), decimal (octet 3 ip)]"
proof -
  have "CHR ''.'' \<notin> set (decimal n)" for n using decimal_chars by fastforce
  then show ?thesis by (simp add: ipv4_to_string_def split_on_append split_on_id)
qed

lemma ipv4_to_string_inject [simp]: "ipv4_to_string a = ipv4_to_string b \<longleftrightarrow> a = b"
  using ipv4_to_string_parts [of a] ipv4_to_string_parts [of b] octets_inject by auto

lemma ipv4_to_string_chars: "CHR '':'' \<notin> set (ipv4_to_string ip)" "CHR ''.'' \<in> set (ipv4_to_string ip)"
  using decimal_chars by (auto simp: ipv4_to_string_def)

lemma to_ipv4_mapped_inject:
  assumes "to_ipv4_mapped a = Some v" "to_ipv4_mapped b = Some v"
  shows "a = b"
proof -
  have *: "unat c div 2 ^ 32 = 0xffff \<and> unat c mod 2 ^ 32 = unat v" if "to_ipv4_mapped c = Some v" for c
    using that by (auto simp: to_ipv4_mapped_def unat_of_nat split: if_split_asm)
  have "unat a = unat b" using * [OF assms(1)] * [OF assms(2)] by (metis div_mult_mod_eq)
  then show ?thesis by (simp add: word_unat_eq_iff)
qed

text \<open>The pieces between colons: the segments around the run, with an empty piece for the run.\<close>

definition compressed :: "nat list \<Rightarrow> nat list \<Rightarrow> string" where
  "compressed as bs = join_with '':'' (map hex_string as) @ ''::'' @ join_with '':'' (map hex_string bs)"

definition pieces :: "nat list \<Rightarrow> string list" where
  "pieces as = (if as = [] then [[]] else map hex_string as)"

lemma split_pieces: "split_on (CHR '':'') (join_with '':'' (map hex_string as)) = pieces as"
  using split_on_join [of "map hex_string as" "CHR '':''"] hex_string_chars by (fastforce simp: pieces_def)

lemma split_compressed: "split_on (CHR '':'') (compressed as bs) = pieces as @ [] # pieces bs"
proof -
  have "\<forall>x \<in> set (map hex_string as). CHR '':'' \<notin> set x" using hex_string_chars by fastforce
  then show ?thesis
    using split_joined_append [of "map hex_string as" "CHR '':''" "CHR '':'' # join_with '':'' (map hex_string bs)"]
      split_pieces [of bs]
    by (simp add: compressed_def pieces_def)
qed

lemma takeWhile_pieces: "takeWhile (\<lambda>x. x \<noteq> []) (pieces as @ [] # xs) = map hex_string as"
proof (cases "as = []")
  case False
  have "takeWhile (\<lambda>x. x \<noteq> []) (map hex_string as @ [] # xs) = map hex_string as @ takeWhile (\<lambda>x. x \<noteq> []) ([] # xs)"
    by (rule takeWhile_append2) auto
  then show ?thesis using False by (simp add: pieces_def)
qed (simp add: pieces_def)

lemma rev_pieces: "rev (pieces as) = pieces (rev as)"
  by (simp add: pieces_def rev_map)

lemma map_hex_inject [simp]: "map hex_string as = map hex_string bs \<longleftrightarrow> as = bs"
  by (rule inj_map_eq_map) (simp add: inj_def)

lemma compressed_inject:
  assumes "compressed as bs = compressed cs ds"
  shows "as = cs \<and> bs = ds"
proof -
  have e: "pieces as @ [] # pieces bs = pieces cs @ [] # pieces ds" using assms split_compressed by metis
  then have "rev (pieces as @ [] # pieces bs) = rev (pieces cs @ [] # pieces ds)" by simp
  then have "pieces (rev bs) @ [] # pieces (rev as) = pieces (rev ds) @ [] # pieces (rev cs)"
    by (simp add: rev_pieces)
  then have "rev bs = rev ds" using takeWhile_pieces map_hex_inject by metis
  moreover have "as = cs" using e takeWhile_pieces map_hex_inject by metis
  ultimately show ?thesis by simp
qed

lemma length_segments [simp]: "length (segments ip) = 8"
  by (simp add: segments_def)

lemma ipv6_forms:
  obtains (mapped) v where "to_ipv4_mapped ip = Some v" "ipv6_to_string ip = ''::ffff:'' @ ipv4_to_string v"
  | (run) as bs where "ipv6_to_string ip = compressed as bs"
      "segments ip = as @ replicate (8 - length as - length bs) 0 @ bs"
  | (plain) "ipv6_to_string ip = join_with '':'' (map hex_string (segments ip))"
proof -
  let ?z = "zero_span 0 (segments ip) (0, 0) (0, 0)"
  have "zero_run (segments ip) ?z" using zero_span_run [of "[]" "segments ip" "(0, 0)" "(0, 0)"] by (simp add: zero_run_def)
  then have "segments ip = take (fst ?z) (segments ip) @ replicate (snd ?z) 0 @ drop (fst ?z + snd ?z) (segments ip)"
    "fst ?z + snd ?z \<le> 8" using zero_run_split by (blast, simp add: zero_run_def)
  moreover have "8 - length (take (fst ?z) (segments ip)) - length (drop (fst ?z + snd ?z) (segments ip)) = snd ?z"
    using calculation(2) by simp
  ultimately show thesis
    using mapped run [of "take (fst ?z) (segments ip)" "drop (fst ?z + snd ?z) (segments ip)"] plain
    by (cases "to_ipv4_mapped ip"; cases "snd ?z > 1") (simp_all add: ipv6_to_string_def compressed_def Let_def)
qed

lemma hex_text_chars: "c \<in> set (join_with '':'' (map hex_string ss)) \<Longrightarrow> c \<noteq> CHR ''.''"
  using set_join_with [of "'':''" "map hex_string ss"] hex_string_chars by fastforce

lemma ipv6_no_dot:
  "CHR ''.'' \<notin> set (compressed as bs)" "CHR ''.'' \<notin> set (join_with '':'' (map hex_string ss))"
  "CHR ''.'' \<in> set (''::ffff:'' @ ipv4_to_string v)"
  using hex_text_chars ipv4_to_string_chars(2) by (fastforce simp: compressed_def)+

lemma plain_not_compressed: "join_with '':'' (map hex_string (segments ip)) \<noteq> compressed as bs"
proof
  assume "join_with '':'' (map hex_string (segments ip)) = compressed as bs"
  then have "pieces (segments ip) = pieces as @ [] # pieces bs" using split_pieces split_compressed by metis
  moreover have "[] \<notin> set (pieces (segments ip))" by (auto simp: pieces_def segments_def)
  ultimately show False by simp
qed

lemma compressed_segments:
  assumes "segments a = as @ replicate (8 - length as - length bs) 0 @ bs" "compressed as bs = compressed cs ds"
    "segments b = cs @ replicate (8 - length cs - length ds) 0 @ ds"
  shows "a = b"
  using compressed_inject [OF assms(2)] assms(1,3) by (intro segments_inject) simp

lemma plain_segments:
  assumes "join_with '':'' (map hex_string (segments a)) = join_with '':'' (map hex_string (segments b))"
  shows "a = b"
proof -
  have "pieces (segments a) = pieces (segments b)" using arg_cong [OF assms, of "split_on (CHR '':'')"] by (simp only: split_pieces)
  moreover have "segments a \<noteq> []" "segments b \<noteq> []" by (simp_all add: segments_def)
  ultimately show ?thesis by (intro segments_inject) (simp add: pieces_def)
qed

lemma mapped_not_hex:
  "''::ffff:'' @ ipv4_to_string v \<noteq> compressed as bs"
  "''::ffff:'' @ ipv4_to_string v \<noteq> join_with '':'' (map hex_string ss)"
  by (rule notI, drule arg_cong [of _ _ set], use ipv6_no_dot in blast)+

lemma ipv6_to_string_injectD:
  assumes "ipv6_to_string a = ipv6_to_string b"
  shows "a = b"
proof (cases rule: ipv6_forms [of a])
  case a: (mapped v)
  show ?thesis
  proof (cases rule: ipv6_forms [of b])
    case b: (mapped w)
    then have "v = w" using assms a(2) by simp
    then show ?thesis using a(1) b(1) to_ipv4_mapped_inject by blast
  qed (use assms a(2) mapped_not_hex in simp_all)
next
  case a: (run as bs)
  show ?thesis
  proof (cases rule: ipv6_forms [of b])
    case b: (run cs ds)
    show ?thesis by (rule compressed_segments [OF a(2) _ b(2)]) (use assms a(1) b(1) in simp)
  qed (use assms a(1) mapped_not_hex(1) plain_not_compressed in metis)+
next
  case a: plain
  show ?thesis
  proof (cases rule: ipv6_forms [of b])
    case b: plain
    show ?thesis by (rule plain_segments) (use assms a b in simp)
  qed (use assms a mapped_not_hex(2) plain_not_compressed in metis)+
qed

lemma ipv6_to_string_inject [simp]: "ipv6_to_string a = ipv6_to_string b \<longleftrightarrow> a = b"
  using ipv6_to_string_injectD by auto

lemma ipv6_has_colon: "CHR '':'' \<in> set (ipv6_to_string ip)"
  by (cases rule: ipv6_forms [of ip]) (auto simp: compressed_def segments_def)

lemma ip_to_string_inject [simp]: "ip_to_string a = ip_to_string b \<longleftrightarrow> a = b"
  using ipv4_to_string_chars(1) ipv6_has_colon by (cases a; cases b) (simp_all, metis+)

lemma ip_to_string_neq_Nil [simp]: "ip_to_string ip \<noteq> []"
  using ipv4_to_string_chars(2) ipv6_has_colon by (cases ip) (simp_all, metis empty_iff empty_set, metis empty_iff empty_set)

lemma ipv4_no_comma: "CHR '','' \<notin> set (ipv4_to_string ip)"
  using decimal_chars by (auto simp: ipv4_to_string_def)

lemma hex_text_no_comma: "CHR '','' \<notin> set (join_with '':'' (map hex_string ss))"
  using set_join_with [of "'':''" "map hex_string ss"] hex_string_chars by fastforce

lemma ip_to_string_chars: "CHR '','' \<notin> set (ip_to_string ip)"
proof (cases ip)
  case (V6 a)
  then show ?thesis
    by (cases rule: ipv6_forms [of a]) (simp_all add: compressed_def ipv4_no_comma hex_text_no_comma)
qed (simp add: ipv4_no_comma)

end
