(* ===== verification/Transport.thy ===== *)
theory Transport
  imports Identifiers Ip_Text "HOL-Library.AList"
begin

text \<open>
  The crate \<open>nxb-transport\<close>: one-use connection tickets. An authority issues a ticket bound to a
  decision, a host and an address, and turns the first matching use of it into a permit. The
  ticket store is the association list of its \<open>BTreeMap\<close>; SHA-256 is the parameter \<open>sha\<close>.
\<close>

section \<open>Data\<close>

definition MAX_TICKET_TTL_MILLISECONDS :: u64 where
  "MAX_TICKET_TTL_MILLISECONDS = 30000"

datatype transport_scheme = Http | Https

fun transport_scheme_code :: "transport_scheme \<Rightarrow> string" where
  "transport_scheme_code Http = ''http''"
| "transport_scheme_code Https = ''https''"

fun default_port :: "transport_scheme \<Rightarrow> u16" where
  "default_port Http = 80"
| "default_port Https = 443"

record ticket_binding =
  tb_decision_id :: string
  tb_dns_context_id :: string
  tb_host :: string
  tb_scheme :: transport_scheme
  tb_port :: u16
  tb_sni :: "string option"
  tb_http_host :: string
  tb_pinned_addresses :: "ip_addr fset"
  tb_selected_ip :: ip_addr
  tb_redirect_depth :: u8

record ticket_issue_request =
  req_binding :: ticket_binding
  req_issued_at :: u64
  req_ttl :: u64
  req_audit_anchor :: string

record connection_ticket =
  ct_ticket_id :: string
  ct_decision_id :: string
  ct_dns_context_id :: string
  ct_host :: string
  ct_scheme :: transport_scheme
  ct_port :: u16
  ct_sni :: "string option"
  ct_http_host :: string
  ct_pinned_addresses :: "ip_addr fset"
  ct_selected_ip :: ip_addr
  ct_redirect_depth :: u8
  ct_issued_at :: u64
  ct_expires_at :: u64
  ct_audit_anchor :: string
  ct_binding_hash :: string

record connection_attempt =
  at_ticket_id :: string
  at_dns_context_id :: string
  at_scheme :: transport_scheme
  at_remote_ip :: ip_addr
  at_port :: u16
  at_sni :: "string option"
  at_http_host :: string
  at_redirect_depth :: u8

record transport_permit =
  pm_ticket_id :: string
  pm_decision_id :: string
  pm_dns_context_id :: string
  pm_scheme :: transport_scheme
  pm_remote_ip :: ip_addr
  pm_port :: u16
  pm_sni :: "string option"
  pm_http_host :: string
  pm_redirect_depth :: u8
  pm_binding_hash :: string

datatype binding_field =
  FDnsContextId | FScheme | FRemoteIp | FPort | FSni | FHttpHost | FRedirectDepth

fun binding_field_code :: "binding_field \<Rightarrow> string" where
  "binding_field_code FDnsContextId = ''dns_context_id''"
| "binding_field_code FScheme = ''scheme''"
| "binding_field_code FRemoteIp = ''remote_ip''"
| "binding_field_code FPort = ''port''"
| "binding_field_code FSni = ''sni''"
| "binding_field_code FHttpHost = ''http_host''"
| "binding_field_code FRedirectDepth = ''redirect_depth''"

datatype ticket_use_outcome =
  UseConsumed | UnknownTicket | AlreadyConsumed | UseRevoked | UseExpired | UseClockRegression
| BindingMismatch binding_field

fun ticket_use_outcome_code :: "ticket_use_outcome \<Rightarrow> string" where
  "ticket_use_outcome_code UseConsumed = ''consumed''"
| "ticket_use_outcome_code UnknownTicket = ''unknown_ticket''"
| "ticket_use_outcome_code AlreadyConsumed = ''already_consumed''"
| "ticket_use_outcome_code UseRevoked = ''revoked''"
| "ticket_use_outcome_code UseExpired = ''expired''"
| "ticket_use_outcome_code UseClockRegression = ''clock_regression''"
| "ticket_use_outcome_code (BindingMismatch _) = ''binding_mismatch''"

record ticket_use_result =
  use_outcome :: ticket_use_outcome
  use_ticket :: "connection_ticket option"
  use_attempt :: connection_attempt
  use_permit :: "transport_permit option"

datatype ticket_issue_error =
  InvalidDecisionId | InvalidDnsContextId | InvalidHost | InvalidPort | EmptyPinnedAddressSet
| SelectedIpNotPinned | InvalidTlsSni | UnexpectedTlsSni | InvalidHttpHost | InvalidTtl
| ExpiryOverflow | InvalidAuditAnchor

datatype stored_ticket_state = Issued | Consumed | Revoked

record stored_ticket =
  st_ticket :: connection_ticket
  st_state :: stored_ticket_state

record ticket_authority =
  tickets :: "(string \<times> stored_ticket) list"
  next_ticket_id :: u64

section \<open>Validation\<close>

definition normalize_authority :: "string \<Rightarrow> string" where
  "normalize_authority value = to_ascii_lowercase (trim value)"

definition expected_http_host :: "string \<Rightarrow> transport_scheme \<Rightarrow> u16 \<Rightarrow> string" where
  "expected_http_host host0 scheme port =
     (let host = normalize_host host0 in
      if port = default_port scheme then host else host @ '':'' @ decimal (unat port))"

definition normalize_and_validate_binding :: "ticket_binding \<Rightarrow> ticket_issue_error + ticket_binding" where
  "normalize_and_validate_binding b =
     (if \<not> is_valid_identifier (tb_decision_id b) then Inl InvalidDecisionId
      else if \<not> is_valid_identifier (tb_dns_context_id b) then Inl InvalidDnsContextId
      else
        let b = b\<lparr>tb_decision_id := normalize_identifier (tb_decision_id b),
                  tb_dns_context_id := normalize_identifier (tb_dns_context_id b),
                  tb_host := normalize_host (tb_host b)\<rparr> in
        if \<not> transport_is_valid_host (tb_host b) then Inl InvalidHost
        else if tb_port b = 0 then Inl InvalidPort
        else if tb_pinned_addresses b = {||} then Inl EmptyPinnedAddressSet
        else if tb_selected_ip b |\<notin>| tb_pinned_addresses b then Inl SelectedIpNotPinned
        else
          let b = b\<lparr>tb_sni := map_option normalize_host (tb_sni b)\<rparr> in
          if tb_scheme b = Https \<and> tb_sni b \<noteq> Some (tb_host b) then Inl InvalidTlsSni
          else if tb_scheme b = Http \<and> tb_sni b \<noteq> None then Inl UnexpectedTlsSni
          else
            let expected_authority = expected_http_host (tb_host b) (tb_scheme b) (tb_port b);
                b = b\<lparr>tb_http_host := normalize_authority (tb_http_host b)\<rparr> in
            if tb_http_host b \<noteq> expected_authority then Inl InvalidHttpHost
            else Inr b)"

text \<open>The material of the binding hash: fifteen lines.\<close>

definition binding_lines ::
  "string \<Rightarrow> ticket_binding \<Rightarrow> u64 \<Rightarrow> u64 \<Rightarrow> string \<Rightarrow> string list" where
  "binding_lines ticket_id b issued expires anchor =
     [''nxb.transport.v1'', ticket_id, tb_decision_id b, tb_dns_context_id b, tb_host b,
      transport_scheme_code (tb_scheme b), decimal (unat (tb_port b)),
      (case tb_sni b of None \<Rightarrow> [] | Some s \<Rightarrow> s), tb_http_host b,
      join_with '','' (map ip_to_string (sorted_list_of_fset (tb_pinned_addresses b))),
      ip_to_string (tb_selected_ip b), decimal (unat (tb_redirect_depth b)),
      decimal (unat issued), decimal (unat expires), anchor]"

definition binding_hash ::
  "(string \<Rightarrow> string) \<Rightarrow> string \<Rightarrow> ticket_binding \<Rightarrow> u64 \<Rightarrow> u64 \<Rightarrow> string \<Rightarrow> string" where
  "binding_hash sha ticket_id b issued expires anchor =
     to_lower_hex (sha (join_with [CHR 0x0A] (binding_lines ticket_id b issued expires anchor)))"

section \<open>The authority\<close>

definition ticket_authority_new :: ticket_authority where
  "ticket_authority_new = \<lparr>tickets = [], next_ticket_id = 1\<rparr>"

definition allocate_ticket_id :: "ticket_authority \<Rightarrow> ticket_authority \<times> string" where
  "allocate_ticket_id a =
     (let v = next_ticket_id a in
      (a\<lparr>next_ticket_id := saturating_add v 1\<rparr>, ''ticket-'' @ decimal_pad 20 (unat v)))"

definition issue ::
  "(string \<Rightarrow> string) \<Rightarrow> ticket_authority \<Rightarrow> ticket_issue_request
     \<Rightarrow> ticket_authority \<times> (ticket_issue_error + connection_ticket)" where
  "issue sha a0 r =
     (case normalize_and_validate_binding (req_binding r) of
        Inl e \<Rightarrow> (a0, Inl e)
      | Inr b \<Rightarrow>
          if req_ttl r = 0 \<or> req_ttl r > MAX_TICKET_TTL_MILLISECONDS then (a0, Inl InvalidTtl)
          else if \<not> is_lower_hex_sha256 (req_audit_anchor r) then (a0, Inl InvalidAuditAnchor)
          else case checked_add (req_issued_at r) (req_ttl r) of
            None \<Rightarrow> (a0, Inl ExpiryOverflow)
          | Some expires \<Rightarrow>
              let (a, ticket_id) = allocate_ticket_id a0;
                  digest = binding_hash sha ticket_id b (req_issued_at r) expires (req_audit_anchor r);
                  ticket =
                    \<lparr>ct_ticket_id = ticket_id, ct_decision_id = tb_decision_id b,
                     ct_dns_context_id = tb_dns_context_id b, ct_host = tb_host b,
                     ct_scheme = tb_scheme b, ct_port = tb_port b, ct_sni = tb_sni b,
                     ct_http_host = tb_http_host b, ct_pinned_addresses = tb_pinned_addresses b,
                     ct_selected_ip = tb_selected_ip b, ct_redirect_depth = tb_redirect_depth b,
                     ct_issued_at = req_issued_at r, ct_expires_at = expires,
                     ct_audit_anchor = req_audit_anchor r, ct_binding_hash = digest\<rparr> in
              (a\<lparr>tickets := AList.update ticket_id \<lparr>st_ticket = ticket, st_state = Issued\<rparr> (tickets a)\<rparr>,
               Inr ticket))"

definition failed_use ::
  "ticket_use_outcome \<Rightarrow> connection_ticket \<Rightarrow> connection_attempt \<Rightarrow> ticket_use_result" where
  "failed_use outcome t att =
     \<lparr>use_outcome = outcome, use_ticket = Some t, use_attempt = att, use_permit = None\<rparr>"

text \<open>The table of comparisons in \<open>consume\<close>; the first that fails is reported.\<close>

definition binding_checks :: "connection_attempt \<Rightarrow> connection_ticket \<Rightarrow> (bool \<times> binding_field) list" where
  "binding_checks att t =
     [(normalize_identifier (at_dns_context_id att) = ct_dns_context_id t, FDnsContextId),
      (at_scheme att = ct_scheme t, FScheme),
      (at_remote_ip att = ct_selected_ip t, FRemoteIp),
      (at_port att = ct_port t, FPort),
      (map_option normalize_host (at_sni att) = ct_sni t, FSni),
      (normalize_authority (at_http_host att) = ct_http_host t, FHttpHost),
      (at_redirect_depth att = ct_redirect_depth t, FRedirectDepth)]"

definition permit_of :: "connection_ticket \<Rightarrow> transport_permit" where
  "permit_of t =
     \<lparr>pm_ticket_id = ct_ticket_id t, pm_decision_id = ct_decision_id t,
      pm_dns_context_id = ct_dns_context_id t, pm_scheme = ct_scheme t,
      pm_remote_ip = ct_selected_ip t, pm_port = ct_port t, pm_sni = ct_sni t,
      pm_http_host = ct_http_host t, pm_redirect_depth = ct_redirect_depth t,
      pm_binding_hash = ct_binding_hash t\<rparr>"

definition consume ::
  "ticket_authority \<Rightarrow> connection_attempt \<Rightarrow> u64 \<Rightarrow> ticket_authority \<times> ticket_use_result" where
  "consume a att now =
     (case map_of (tickets a) (at_ticket_id att) of
        None \<Rightarrow> (a, \<lparr>use_outcome = UnknownTicket, use_ticket = None, use_attempt = att, use_permit = None\<rparr>)
      | Some stored \<Rightarrow>
          let t = st_ticket stored in
          (case st_state stored of
             Consumed \<Rightarrow> (a, failed_use AlreadyConsumed t att)
           | Revoked \<Rightarrow> (a, failed_use UseRevoked t att)
           | Issued \<Rightarrow>
               let a = a\<lparr>tickets := AList.update (at_ticket_id att) (stored\<lparr>st_state := Consumed\<rparr>) (tickets a)\<rparr> in
               if now < ct_issued_at t then (a, failed_use UseClockRegression t att)
               else if now > ct_expires_at t then (a, failed_use UseExpired t att)
               else case find (\<lambda>(matches, _). \<not> matches) (binding_checks att t) of
                 Some (_, field) \<Rightarrow> (a, failed_use (BindingMismatch field) t att)
               | None \<Rightarrow>
                   (a, \<lparr>use_outcome = UseConsumed, use_ticket = Some t, use_attempt = att,
                        use_permit = Some (permit_of t)\<rparr>)))"

text \<open>The test and the body of the loop over the stored tickets.\<close>

definition revocable :: "string \<Rightarrow> stored_ticket \<Rightarrow> bool" where
  "revocable normalized stored \<longleftrightarrow>
     ct_dns_context_id (st_ticket stored) = normalized \<and> st_state stored = Issued"

definition revoke_context :: "ticket_authority \<Rightarrow> string \<Rightarrow> ticket_authority \<times> nat" where
  "revoke_context a context_id =
     (let normalized = normalize_identifier context_id in
      (a\<lparr>tickets := map (\<lambda>(k, stored).
            (k, if revocable normalized stored then stored\<lparr>st_state := Revoked\<rparr> else stored)) (tickets a)\<rparr>,
       length (filter (\<lambda>(_, stored). revocable normalized stored) (tickets a))))"

definition ticket_of :: "ticket_authority \<Rightarrow> string \<Rightarrow> connection_ticket option" where
  "ticket_of a ticket_id = map_option st_ticket (map_of (tickets a) ticket_id)"

definition issued_count :: "ticket_authority \<Rightarrow> nat" where
  "issued_count a = length (filter (\<lambda>(_, stored). st_state stored = Issued) (tickets a))"

definition consumed_count :: "ticket_authority \<Rightarrow> nat" where
  "consumed_count a = length (filter (\<lambda>(_, stored). st_state stored = Consumed) (tickets a))"

section \<open>Invariant\<close>

text \<open>What holds of every ticket an authority has issued.\<close>

definition ticket_wf :: "connection_ticket \<Rightarrow> bool" where
  "ticket_wf t \<longleftrightarrow>
     unat (ct_issued_at t) < unat (ct_expires_at t)
     \<and> unat (ct_expires_at t) \<le> unat (ct_issued_at t) + 30000
     \<and> is_valid_identifier (ct_decision_id t) \<and> normalize_identifier (ct_dns_context_id t) = ct_dns_context_id t
     \<and> is_valid_identifier (ct_dns_context_id t)
     \<and> is_valid_host (ct_host t)
     \<and> ct_port t \<noteq> 0 \<and> ct_selected_ip t |\<in>| ct_pinned_addresses t
     \<and> ct_sni t = (case ct_scheme t of Http \<Rightarrow> None | Https \<Rightarrow> Some (ct_host t))
     \<and> ct_http_host t = expected_http_host (ct_host t) (ct_scheme t) (ct_port t)
     \<and> is_lower_hex_sha256 (ct_audit_anchor t)"

definition ticket_name :: "nat \<Rightarrow> string" where
  "ticket_name n = ''ticket-'' @ decimal_pad 20 n"

lemma ticket_name_inject [simp]: "ticket_name m = ticket_name n \<longleftrightarrow> m = n"
  by (simp add: ticket_name_def decimal_pad_inject)

definition authority_wf :: "ticket_authority \<Rightarrow> bool" where
  "authority_wf a \<longleftrightarrow>
     distinct (map fst (tickets a))
     \<and> (\<forall>k s. map_of (tickets a) k = Some s \<longrightarrow> ct_ticket_id (st_ticket s) = k \<and> ticket_wf (st_ticket s))
     \<and> (\<forall>k \<in> dom (map_of (tickets a)). \<exists>n \<le> unat (next_ticket_id a). k = ticket_name n
          \<and> (next_ticket_id a \<noteq> - 1 \<longrightarrow> n < unat (next_ticket_id a)))"

text \<open>The abstract view: the tickets that can still be used.\<close>

definition live :: "ticket_authority \<Rightarrow> string set" where
  "live a = {k. \<exists>s. map_of (tickets a) k = Some s \<and> st_state s = Issued}"

lemma authority_new_wf: "authority_wf ticket_authority_new"
  by (simp add: authority_wf_def ticket_authority_new_def)

lemma normalize_and_validate_binding_Inr:
  assumes "normalize_and_validate_binding b0 = Inr b"
  shows "is_valid_identifier (tb_decision_id b)" "is_valid_identifier (tb_dns_context_id b)"
    "normalize_identifier (tb_dns_context_id b) = tb_dns_context_id b"
    "is_valid_host (tb_host b)" "tb_port b \<noteq> 0"
    "tb_selected_ip b |\<in>| tb_pinned_addresses b"
    "tb_sni b = (case tb_scheme b of Http \<Rightarrow> None | Https \<Rightarrow> Some (tb_host b))"
    "tb_http_host b = expected_http_host (tb_host b) (tb_scheme b) (tb_port b)"
proof -
  note n = assms [unfolded normalize_and_validate_binding_def Let_def]
  have b: "is_valid_identifier (tb_decision_id b0)" "is_valid_identifier (tb_dns_context_id b0)"
    "transport_is_valid_host (normalize_host (tb_host b0))"
    "tb_decision_id b = normalize_identifier (tb_decision_id b0)"
    "tb_dns_context_id b = normalize_identifier (tb_dns_context_id b0)"
    "tb_host b = normalize_host (tb_host b0)"
    using n by (auto split: if_split_asm)
  then show "is_valid_identifier (tb_decision_id b)" "is_valid_identifier (tb_dns_context_id b)"
    "normalize_identifier (tb_dns_context_id b) = tb_dns_context_id b"
    by (simp_all add: normalize_identifier_valid normalize_identifier_idem)
  show "is_valid_host (tb_host b)" using b(3,6) by (simp add: transport_valid_host_eq)
  show "tb_port b \<noteq> 0" "tb_selected_ip b |\<in>| tb_pinned_addresses b"
    "tb_http_host b = expected_http_host (tb_host b) (tb_scheme b) (tb_port b)"
    using n by (auto split: if_split_asm)
  show "tb_sni b = (case tb_scheme b of Http \<Rightarrow> None | Https \<Rightarrow> Some (tb_host b))"
    using n by (cases "tb_scheme b0") (auto split: if_split_asm)
qed

lemma issue_Inr:
  assumes "issue sha a r = (a', Inr t)"
  obtains b where "normalize_and_validate_binding (req_binding r) = Inr b"
    "ct_ticket_id t = ticket_name (unat (next_ticket_id a))"
    "tickets a' = AList.update (ct_ticket_id t) \<lparr>st_ticket = t, st_state = Issued\<rparr> (tickets a)"
    "next_ticket_id a' = saturating_add (next_ticket_id a) 1" "ticket_wf t"
    "ct_binding_hash t = binding_hash sha (ct_ticket_id t) b (ct_issued_at t) (ct_expires_at t) (ct_audit_anchor t)"
    "ct_decision_id t = tb_decision_id b" "ct_dns_context_id t = tb_dns_context_id b" "ct_host t = tb_host b"
    "ct_scheme t = tb_scheme b" "ct_port t = tb_port b" "ct_sni t = tb_sni b" "ct_http_host t = tb_http_host b"
    "ct_pinned_addresses t = tb_pinned_addresses b" "ct_selected_ip t = tb_selected_ip b"
    "ct_redirect_depth t = tb_redirect_depth b" "ct_issued_at t = req_issued_at r"
    "ct_expires_at t = req_issued_at r + req_ttl r" "ct_audit_anchor t = req_audit_anchor r"
proof -
  from assms obtain b where b: "normalize_and_validate_binding (req_binding r) = Inr b"
    by (auto simp: issue_def split: sum.splits)
  note i = assms [unfolded issue_def b sum.case]
  have ttl: "req_ttl r \<noteq> 0" "req_ttl r \<le> 30000" "is_lower_hex_sha256 (req_audit_anchor r)"
    using i by (auto simp: MAX_TICKET_TTL_MILLISECONDS_def not_less split: if_split_asm)
  obtain e where e: "checked_add (req_issued_at r) (req_ttl r) = Some e"
    using i by (auto split: if_split_asm option.splits)
  have "unat (req_ttl r) \<le> 30000" "0 < unat (req_ttl r)"
    using ttl(1,2) by (simp_all add: word_le_nat_alt unat_gt_0)
  moreover have "e = req_issued_at r + req_ttl r" "unat e = unat (req_issued_at r) + unat (req_ttl r)"
    using checked_add_SomeD [OF e] e by (auto simp: checked_add_def split: if_split_asm)
  ultimately have x: "unat (req_issued_at r) < unat e" "unat e \<le> unat (req_issued_at r) + 30000"
    "e = req_issued_at r + req_ttl r" by auto
  let ?id = "ticket_name (unat (next_ticket_id a))"
  define t0 where "t0 = \<lparr>ct_ticket_id = ?id, ct_decision_id = tb_decision_id b,
    ct_dns_context_id = tb_dns_context_id b, ct_host = tb_host b, ct_scheme = tb_scheme b, ct_port = tb_port b,
    ct_sni = tb_sni b, ct_http_host = tb_http_host b, ct_pinned_addresses = tb_pinned_addresses b,
    ct_selected_ip = tb_selected_ip b, ct_redirect_depth = tb_redirect_depth b,
    ct_issued_at = req_issued_at r, ct_expires_at = e, ct_audit_anchor = req_audit_anchor r,
    ct_binding_hash = binding_hash sha ?id b (req_issued_at r) e (req_audit_anchor r)\<rparr>"
  have "\<not> (req_ttl r = 0 \<or> MAX_TICKET_TTL_MILLISECONDS < req_ttl r)"
    using ttl(1,2) by (simp add: MAX_TICKET_TTL_MILLISECONDS_def not_less)
  then have eq: "t = t0" "tickets a' = AList.update ?id \<lparr>st_ticket = t0, st_state = Issued\<rparr> (tickets a)"
    "next_ticket_id a' = saturating_add (next_ticket_id a) 1"
    using i ttl(3) unfolding e t0_def ticket_name_def by (auto simp: allocate_ticket_id_def Let_def)
  show thesis
    using x ttl(3) normalize_and_validate_binding_Inr [OF b]
    by (intro that [OF b]) (simp_all add: eq, simp_all add: t0_def ticket_wf_def split: transport_scheme.split)
qed

lemma issue_Inl: "issue sha a r = (a', Inl e) \<Longrightarrow> a' = a"
  by (auto simp: issue_def allocate_ticket_id_def Let_def split: sum.splits if_split_asm option.splits)

lemma consume_tickets:
  assumes "consume a att now = (a', r)"
  shows "next_ticket_id a' = next_ticket_id a"
    and "tickets a' = tickets a \<or> (\<exists>s. map_of (tickets a) (at_ticket_id att) = Some s \<and> st_state s = Issued
           \<and> tickets a' = AList.update (at_ticket_id att) (s\<lparr>st_state := Consumed\<rparr>) (tickets a))"
  using assms
  by (auto simp: consume_def Let_def split: option.splits stored_ticket_state.splits if_split_asm)

text \<open>A use of a ticket succeeds exactly for a live ticket, within its time and with its binding.\<close>

lemma find_none_all: "find (\<lambda>(m, _). \<not> m) xs = None \<longleftrightarrow> list_all fst xs"
  by (auto simp: find_None_iff list_all_iff)

lemma consume_permit:
  assumes "consume a att now = (a', r)" "use_permit r = Some p"
  shows "\<exists>s. map_of (tickets a) (at_ticket_id att) = Some s \<and> st_state s = Issued
    \<and> p = permit_of (st_ticket s) \<and> ct_issued_at (st_ticket s) \<le> now \<and> now \<le> ct_expires_at (st_ticket s)
    \<and> list_all fst (binding_checks att (st_ticket s))
    \<and> tickets a' = AList.update (at_ticket_id att) (s\<lparr>st_state := Consumed\<rparr>) (tickets a)"
  using assms
  by (auto simp: consume_def failed_use_def Let_def not_less find_none_all
      split: option.splits stored_ticket_state.splits if_split_asm)

lemma consume_live: "consume a att now = (a', r) \<Longrightarrow> live a' = live a - {at_ticket_id att}"
  by (auto simp: consume_def live_def Let_def update_conv'
      split: option.splits stored_ticket_state.splits if_split_asm)

lemma map_of_revoke:
  "map_of (tickets (fst (revoke_context a c))) k =
     map_option (\<lambda>s. if revocable (normalize_identifier c) s then s\<lparr>st_state := Revoked\<rparr> else s)
       (map_of (tickets a) k)"
  by (simp add: revoke_context_def Let_def map_of_map)

lemma revoke_live: "live (fst (revoke_context a c)) = live a - {k. \<exists>s. map_of (tickets a) k = Some s
    \<and> ct_dns_context_id (st_ticket s) = normalize_identifier c}"
  by (auto simp: live_def map_of_revoke revocable_def split: if_split_asm)
    (drule arg_cong [where f = st_state], simp)

lemma issue_live: "issue sha a r = (a', Inr t) \<Longrightarrow> live a' = insert (ct_ticket_id t) (live a)"
  by (erule issue_Inr) (auto simp: live_def update_conv')

lemma issue_wf:
  assumes "authority_wf a" "issue sha a r = (a', q)"
  shows "authority_wf a'"
proof (cases q)
  case (Inl e)
  then show ?thesis using issue_Inl assms by blast
next
  case (Inr t)
  with assms(2) obtain t: "ct_ticket_id t = ticket_name (unat (next_ticket_id a))"
    "tickets a' = AList.update (ct_ticket_id t) \<lparr>st_ticket = t, st_state = Issued\<rparr> (tickets a)"
    "next_ticket_id a' = saturating_add (next_ticket_id a) 1" "ticket_wf t"
    using issue_Inr by metis
  have old: "\<exists>n \<le> unat (next_ticket_id a). k = ticket_name n
      \<and> (next_ticket_id a \<noteq> - 1 \<longrightarrow> n < unat (next_ticket_id a))" if "k \<in> dom (map_of (tickets a))" for k
    using assms(1) that by (auto simp: authority_wf_def)
  have next': "unat (next_ticket_id a) \<le> unat (next_ticket_id a')
      \<and> (next_ticket_id a' \<noteq> - 1 \<longrightarrow> unat (next_ticket_id a) < unat (next_ticket_id a'))"
    using saturating_add_one [of "next_ticket_id a"] unat_bounds(4) [of "next_ticket_id a"]
    by (cases "next_ticket_id a = - 1") (auto simp: t(3) saturating_add_def unat_minus_one_max)
  have "\<exists>n \<le> unat (next_ticket_id a'). k = ticket_name n
      \<and> (next_ticket_id a' \<noteq> - 1 \<longrightarrow> n < unat (next_ticket_id a'))" if "k \<in> dom (map_of (tickets a'))" for k
  proof (cases "k = ct_ticket_id t")
    case True
    then show ?thesis using next' t(1) by blast
  next
    case False
    then have "k \<in> dom (map_of (tickets a))" using that by (auto simp: t(2) update_conv')
    then show ?thesis using old [of k] next' by (meson le_less_trans le_trans)
  qed
  then show ?thesis
    using assms(1) t(4) unfolding authority_wf_def t(2)
    by (auto simp: distinct_update update_conv' t(2))
qed

lemma dom_update: "dom (map_of (AList.update k v xs)) = insert k (dom (map_of xs))"
  by (simp add: update_conv')

lemma consume_wf:
  assumes "authority_wf a" "consume a att now = (a', r)"
  shows "authority_wf a'"
  using consume_tickets [OF assms(2)] assms(1)
proof (elim disjE exE conjE)
  fix s assume s: "map_of (tickets a) (at_ticket_id att) = Some s"
    "tickets a' = AList.update (at_ticket_id att) (s\<lparr>st_state := Consumed\<rparr>) (tickets a)"
    "next_ticket_id a' = next_ticket_id a"
  have "dom (map_of (tickets a')) = dom (map_of (tickets a))"
    using s(1,2) by (auto simp: dom_update)
  then show ?thesis
    using assms(1) s unfolding authority_wf_def by (auto simp: distinct_update update_conv')
qed (simp add: authority_wf_def)

lemma revoke_wf: "authority_wf a \<Longrightarrow> authority_wf (fst (revoke_context a c))"
proof -
  assume wf: "authority_wf a"
  have d: "dom (map_of (tickets (fst (revoke_context a c)))) = dom (map_of (tickets a))"
    by (auto simp: map_of_revoke dom_def)
  have "map fst (tickets (fst (revoke_context a c))) = map fst (tickets a)"
    by (simp add: revoke_context_def Let_def case_prod_unfold)
  moreover have "next_ticket_id (fst (revoke_context a c)) = next_ticket_id a"
    by (simp add: revoke_context_def Let_def)
  ultimately show ?thesis
    using wf unfolding authority_wf_def d by (auto simp: map_of_revoke split: if_split_asm)
qed

section \<open>Histories\<close>

datatype ticket_op = OpIssue ticket_issue_request | OpConsume connection_attempt u64 | OpRevoke string

text \<open>A history with the results of its uses.\<close>

fun ticket_run ::
  "(string \<Rightarrow> string) \<Rightarrow> ticket_op list \<Rightarrow> ticket_authority \<Rightarrow> ticket_authority \<times> ticket_use_result list" where
  "ticket_run sha [] a = (a, [])"
| "ticket_run sha (OpIssue r # ops) a = ticket_run sha ops (fst (issue sha a r))"
| "ticket_run sha (OpRevoke c # ops) a = ticket_run sha ops (fst (revoke_context a c))"
| "ticket_run sha (OpConsume att now # ops) a =
     (let (a1, r) = consume a att now; (a2, rs) = ticket_run sha ops a1 in (a2, r # rs))"

definition permits :: "ticket_use_result list \<Rightarrow> transport_permit list" where
  "permits rs = List.map_filter use_permit rs"

lemma permits_simps [simp]:
  "permits [] = []" "permits (r # rs) = (case use_permit r of None \<Rightarrow> permits rs | Some p \<Rightarrow> p # permits rs)"
  by (simp_all add: permits_def List.map_filter_simps split: option.split)

lemma ticket_run_wf: "authority_wf a \<Longrightarrow> authority_wf (fst (ticket_run sha ops a))"
proof (induction sha ops a rule: ticket_run.induct)
  case (2 sha r ops a)
  then show ?case using issue_wf [OF "2.prems", of sha r "fst (issue sha a r)" "snd (issue sha a r)"] by simp
next
  case (3 sha c ops a)
  then show ?case by (simp add: revoke_wf)
next
  case (4 sha att now ops a)
  obtain a1 r where c: "consume a att now = (a1, r)" by fastforce
  then show ?case using "4.IH" [OF c [symmetric]] consume_wf [OF "4.prems" c]
    by (auto simp: case_prod_unfold Let_def)
qed simp

lemma issue_next: "next_ticket_id (fst (issue sha a r)) \<in> {next_ticket_id a, saturating_add (next_ticket_id a) 1}"
proof (cases "snd (issue sha a r)")
  case (Inl e)
  then show ?thesis using issue_Inl [of sha a r "fst (issue sha a r)" e] by (simp add: prod_eq_iff)
next
  case (Inr t)
  then have "issue sha a r = (fst (issue sha a r), Inr t)" by (simp add: prod_eq_iff)
  then show ?thesis using issue_Inr [of sha a r "fst (issue sha a r)" t] by blast
qed

lemma live_names:
  assumes "authority_wf a" "k \<in> live a" "next_ticket_id a \<noteq> - 1"
  shows "\<exists>n < unat (next_ticket_id a). k = ticket_name n"
  using assms by (auto simp: authority_wf_def live_def domI)

lemma issue_live_names:
  assumes "authority_wf a"
  shows "live (fst (issue sha a r)) \<union> {ticket_name n | n. unat (next_ticket_id (fst (issue sha a r))) \<le> n}
    \<subseteq> live a \<union> {ticket_name n | n. unat (next_ticket_id a) \<le> n}"
proof (cases "snd (issue sha a r)")
  case (Inl e)
  then have "fst (issue sha a r) = a" using issue_Inl [of sha a r "fst (issue sha a r)" e] by (simp add: prod_eq_iff)
  then show ?thesis by simp
next
  case (Inr t)
  then have i: "issue sha a r = (fst (issue sha a r), Inr t)" by (simp add: prod_eq_iff)
  then obtain t: "ct_ticket_id t = ticket_name (unat (next_ticket_id a))"
    "next_ticket_id (fst (issue sha a r)) = saturating_add (next_ticket_id a) 1"
    using issue_Inr by metis
  have "unat (next_ticket_id a) \<le> unat (saturating_add (next_ticket_id a) 1)"
    using unat_bounds(4) [of "next_ticket_id a"] by (simp add: unat_saturating_add)
  then show ?thesis using issue_live [OF i] t by auto
qed

lemma ticket_run_permits:
  assumes "authority_wf a" "unat (next_ticket_id a) + length ops < 2 ^ 64 - 1"
  shows "distinct (map pm_ticket_id (permits (snd (ticket_run sha ops a))))
    \<and> pm_ticket_id ` set (permits (snd (ticket_run sha ops a)))
        \<subseteq> live a \<union> {ticket_name n | n. unat (next_ticket_id a) \<le> n}"
  using assms
proof (induction sha ops a rule: ticket_run.induct)
  case (2 sha r ops a)
  let ?a = "fst (issue sha a r)"
  have "unat (next_ticket_id ?a) + length ops < 2 ^ 64 - 1"
    using issue_next [of sha a r] "2.prems"(2) unat_saturating_add [of "next_ticket_id a" 1] by auto
  moreover have "authority_wf ?a" using issue_wf [OF "2.prems"(1)] by (metis prod.collapse)
  ultimately show ?case using "2.IH" issue_live_names [OF "2.prems"(1), of sha r] by simp blast
next
  case (3 sha c ops a)
  have "next_ticket_id (fst (revoke_context a c)) = next_ticket_id a"
    by (simp add: revoke_context_def Let_def)
  then show ?case using 3 revoke_wf [of a c] revoke_live [of a c] by auto
next
  case (4 sha att now ops a)
  obtain a1 r where c: "consume a att now = (a1, r)" by fastforce
  note n = consume_tickets(1) [OF c] and l = consume_live [OF c]
  have ih: "distinct (map pm_ticket_id (permits (snd (ticket_run sha ops a1))))"
    "pm_ticket_id ` set (permits (snd (ticket_run sha ops a1)))
        \<subseteq> live a1 \<union> {ticket_name n | n. unat (next_ticket_id a1) \<le> n}"
    using "4.IH" [OF c [symmetric]] consume_wf [OF "4.prems"(1) c] "4.prems"(2) n by auto
  show ?case
  proof (cases "use_permit r")
    case None
    then show ?thesis using ih l n c by (auto simp: case_prod_unfold Let_def)
  next
    case (Some p)
    obtain s where s: "map_of (tickets a) (at_ticket_id att) = Some s" "st_state s = Issued"
      "p = permit_of (st_ticket s)" using consume_permit [OF c Some] by blast
    have p: "pm_ticket_id p = at_ticket_id att" "at_ticket_id att \<in> live a"
      using "4.prems"(1) s by (auto simp: authority_wf_def permit_of_def live_def)
    have "next_ticket_id a \<noteq> - 1" using "4.prems"(2) by (auto simp: unat_minus_one_max)
    then obtain m where "m < unat (next_ticket_id a)" "at_ticket_id att = ticket_name m"
      using live_names [OF "4.prems"(1) p(2)] by blast
    then have "at_ticket_id att \<notin> live a1 \<union> {ticket_name n | n. unat (next_ticket_id a1) \<le> n}"
      using l n by auto
    then show ?thesis using ih l n c Some p by (auto simp: case_prod_unfold Let_def)
  qed
qed simp

lemma ticket_run_next:
  "unat (next_ticket_id (fst (ticket_run sha ops a))) \<le> unat (next_ticket_id a) + length ops"
proof (induction sha ops a rule: ticket_run.induct)
  case (2 sha r ops a)
  then show ?case using issue_next [of sha a r] unat_saturating_add [of "next_ticket_id a" 1] by auto
next
  case (3 sha c ops a)
  then show ?case by (simp add: revoke_context_def Let_def)
next
  case (4 sha att now ops a)
  obtain a1 r where c: "consume a att now = (a1, r)" by fastforce
  then show ?case using "4.IH" [OF c [symmetric]] consume_tickets(1) [OF c] by (simp add: case_prod_unfold Let_def)
qed simp

text \<open>What holds of every issued ticket holds of the tickets behind the permits.\<close>

lemma ticket_run_permits_all:
  assumes "p \<in> set (permits (snd (ticket_run sha ops a)))"
    "\<And>k s. map_of (tickets a) k = Some s \<Longrightarrow> Q (st_ticket s)"
    "\<And>a r a' t. issue sha a r = (a', Inr t) \<Longrightarrow> Q t"
  shows "\<exists>t. p = permit_of t \<and> Q t"
  using assms
proof (induction sha ops a rule: ticket_run.induct)
  case (2 sha r ops a)
  let ?a = "fst (issue sha a r)"
  have "Q (st_ticket s)" if s: "map_of (tickets ?a) k = Some s" for k s
  proof (cases "snd (issue sha a r)")
    case (Inl e)
    then have "?a = a" using issue_Inl [of sha a r ?a e] by (simp add: prod_eq_iff)
    then show ?thesis using s "2.prems"(2) by simp
  next
    case (Inr t)
    then have i: "issue sha a r = (?a, Inr t)" by (simp add: prod_eq_iff)
    have "tickets ?a = AList.update (ct_ticket_id t) \<lparr>st_ticket = t, st_state = Issued\<rparr> (tickets a)"
      by (rule issue_Inr [OF i])
    then show ?thesis using s "2.prems"(2) "2.prems"(3) [OF i] by (auto simp: update_conv' split: if_split_asm)
  qed
  then show ?case using 2 by auto
next
  case (3 sha c ops a)
  have "Q (st_ticket s)" if "map_of (tickets (fst (revoke_context a c))) k = Some s" for k s
    using that "3.prems"(2) by (auto simp: map_of_revoke split: if_split_asm)
  then show ?case using "3.IH" "3.prems"(1,3) by simp
next
  case (4 sha att now ops a)
  obtain a1 r where c: "consume a att now = (a1, r)" by fastforce
  have "Q (st_ticket s)" if "map_of (tickets a1) k = Some s" for k s
    using consume_tickets(2) [OF c] that "4.prems"(2) by (auto simp: update_conv' split: if_split_asm)
  moreover have "\<exists>t. q = permit_of t \<and> Q t" if "use_permit r = Some q" for q
    using consume_permit [OF c that] "4.prems"(2) by blast
  ultimately show ?case
    using "4.IH" [OF c [symmetric] refl] "4.prems"(1,3) c
    by (auto simp: case_prod_unfold Let_def split: option.splits)
qed simp

section \<open>The commitment of the binding hash\<close>

lemma graphic_no_newline: "(\<And>c. c \<in> set s \<Longrightarrow> graphic c) \<Longrightarrow> CHR 0x0A \<notin> set s"
  by (rule notI, drule meta_spec, drule meta_mp, assumption) (simp add: graphic_def byte_def)

lemma hex_digit_graphic: "n < 16 \<Longrightarrow> graphic (hex_digit n)"
  by (simp add: graphic_def byte_hex_digit)

lemma hex_string_graphic: "c \<in> set (hex_string n) \<Longrightarrow> graphic c"
proof (induction n rule: hex_string.induct)
  case (1 n)
  then show ?case by (subst (asm) hex_string.simps) (auto split: if_split_asm intro: hex_digit_graphic)
qed

lemma decimal_graphic: "c \<in> set (decimal n) \<Longrightarrow> graphic c"
  by (drule decimal_digits) (simp add: byte_class_defs graphic_def)

lemma graphic_punct: "graphic (CHR '':'')" "graphic (CHR ''.'')" "graphic (CHR '','')" "graphic (CHR ''f'')"
  by (simp_all add: graphic_def byte_def)

lemma ipv4_to_string_graphic: "c \<in> set (ipv4_to_string ip) \<Longrightarrow> graphic c"
  by (auto simp: ipv4_to_string_def graphic_punct decimal_graphic)

lemma hex_segments_graphic: "c \<in> set (join_with '':'' (map hex_string ss)) \<Longrightarrow> graphic c"
  using set_join_with [of "'':''" "map hex_string ss"] by (auto simp: graphic_punct hex_string_graphic)

lemma ip_to_string_graphic: "c \<in> set (ip_to_string ip) \<Longrightarrow> graphic c"
  by (cases ip)
    (auto simp: ipv4_to_string_graphic ipv6_to_string_def Let_def graphic_punct
      hex_segments_graphic split: option.splits if_split_asm)

lemma ip_list_graphic: "c \<in> set (join_with '','' (map ip_to_string ips)) \<Longrightarrow> graphic c"
  using set_join_with [of "'',''" "map ip_to_string ips"] by (auto simp: graphic_punct ip_to_string_graphic)

lemma valid_host_graphic: "is_valid_host v \<Longrightarrow> c \<in> set (normalize_host v) \<Longrightarrow> graphic c"
  using labels_host_bytes [OF valid_host_labels(1)] host_byte_graphic by blast

lemma valid_identifier_graphic: "is_valid_identifier v \<Longrightarrow> c \<in> set (normalize_identifier v) \<Longrightarrow> graphic c"
  using valid_identifier_bytes(1) [of v] by (auto simp: list_all_iff identifier_byte_graphic)

lemma sha256_text_graphic: "is_lower_hex_sha256 v \<Longrightarrow> c \<in> set v \<Longrightarrow> graphic c"
  by (auto simp: is_lower_hex_sha256_def list_all_iff byte_class_defs graphic_def)

lemma expected_http_host_graphic:
  "is_valid_host h \<Longrightarrow> c \<in> set (expected_http_host h s p) \<Longrightarrow> graphic c"
  by (auto simp: expected_http_host_def Let_def valid_host_graphic graphic_punct decimal_graphic split: if_split_asm)

lemma ticket_name_graphic: "c \<in> set (ticket_name n) \<Longrightarrow> graphic c"
  using decimal_pad_digits [of c 20 n]
  by (auto simp: ticket_name_def byte_class_defs graphic_def) (simp_all add: byte_def)

lemma binding_lines_graphic:
  assumes "normalize_and_validate_binding b0 = Inr b" "normalize_host (tb_host b) = tb_host b"
    "is_lower_hex_sha256 anchor"
  shows "\<forall>l \<in> set (binding_lines (ticket_name n) b issued expires anchor). CHR 0x0A \<notin> set l"
proof -
  note v = normalize_and_validate_binding_Inr [OF assms(1)]
  have d: "normalize_identifier (tb_decision_id b) = tb_decision_id b"
    using assms(1) by (auto simp: normalize_and_validate_binding_def Let_def normalize_identifier_idem split: if_split_asm)
  have code: "graphic (CHR ''h'')" "graphic (CHR ''t'')" "graphic (CHR ''p'')" "graphic (CHR ''s'')"
    by (simp_all add: graphic_def byte_def)
  have "graphic c" if "c \<in> set l" "l \<in> set (tl (binding_lines (ticket_name n) b issued expires anchor))" for l c
    using that v assms(2,3) d valid_host_graphic [OF v(4), of c] valid_identifier_graphic [OF v(1), of c]
      valid_identifier_graphic [OF v(2), of c] expected_http_host_graphic [OF v(4), of c]
    by (auto simp: binding_lines_def ticket_name_graphic decimal_graphic ip_to_string_graphic
        ip_list_graphic sha256_text_graphic code split: transport_scheme.splits)
  then have "CHR 0x0A \<notin> set l" if "l \<in> set (tl (binding_lines (ticket_name n) b issued expires anchor))" for l
    using that graphic_no_newline by blast
  then show ?thesis by (simp add: binding_lines_def)
qed

lemma scheme_code_inject [simp]: "transport_scheme_code s = transport_scheme_code t \<longleftrightarrow> s = t"
  by (cases s; cases t) auto

text \<open>The bytes the hash of a ticket is taken of, read off the ticket.\<close>

definition ticket_lines :: "connection_ticket \<Rightarrow> string list" where
  "ticket_lines t =
     [''nxb.transport.v1'', ct_ticket_id t, ct_decision_id t, ct_dns_context_id t, ct_host t,
      transport_scheme_code (ct_scheme t), decimal (unat (ct_port t)),
      (case ct_sni t of None \<Rightarrow> [] | Some s \<Rightarrow> s), ct_http_host t,
      join_with '','' (map ip_to_string (sorted_list_of_fset (ct_pinned_addresses t))),
      ip_to_string (ct_selected_ip t), decimal (unat (ct_redirect_depth t)),
      decimal (unat (ct_issued_at t)), decimal (unat (ct_expires_at t)), ct_audit_anchor t]"

definition ticket_text :: "connection_ticket \<Rightarrow> string" where
  "ticket_text t = join_with [CHR 0x0A] (ticket_lines t)"

lemma issue_text:
  assumes "issue sha a r = (a', Inr t)"
  shows "ticket_wf t" "ct_binding_hash t = to_lower_hex (sha (ticket_text t))"
    "normalize_host (ct_host t) = ct_host t \<Longrightarrow> split_on (CHR 0x0A) (ticket_text t) = ticket_lines t"
proof (atomize (full), rule issue_Inr [OF assms], goal_cases)
  case (1 b)
  have l: "ticket_lines t = binding_lines (ct_ticket_id t) b (ct_issued_at t) (ct_expires_at t) (ct_audit_anchor t)"
    using 1 by (simp add: ticket_lines_def binding_lines_def)
  have "\<forall>l \<in> set (ticket_lines t). CHR 0x0A \<notin> set l" if "normalize_host (ct_host t) = ct_host t"
    using binding_lines_graphic [of "req_binding r" b "ct_audit_anchor t"] 1 that unfolding l ticket_wf_def by metis
  then show ?case using 1 l unfolding ticket_text_def
    by (auto simp: binding_hash_def intro!: split_on_join) (simp add: binding_lines_def)
qed

lemma ip_list_inject:
  assumes "join_with '','' (map ip_to_string (sorted_list_of_fset A)) = join_with '','' (map ip_to_string (sorted_list_of_fset B))"
    "a |\<in>| A" "b |\<in>| B"
  shows "A = B"
proof -
  have "sorted_list_of_fset F \<noteq> []" if "x |\<in>| F" for x and F :: "ip_addr fset"
    using that sorted_list_of_fset_simps(1) [of F] by (metis empty_iff empty_set)
  then have ne: "map ip_to_string (sorted_list_of_fset A) \<noteq> []" "map ip_to_string (sorted_list_of_fset B) \<noteq> []"
    using assms(2,3) by auto
  have "CHR '','' \<notin> set (ip_to_string ip)" for ip using ip_to_string_chars by blast
  then have "map ip_to_string (sorted_list_of_fset A) = map ip_to_string (sorted_list_of_fset B)"
    using arg_cong [OF assms(1), of "split_on (CHR '','')"] ne by (simp add: split_on_join)
  then have "sorted_list_of_fset A = sorted_list_of_fset B" by (simp add: inj_def inj_map_eq_map)
  then show ?thesis by (metis sorted_list_of_fset_simps(1) fset_inject)
qed

lemma ticket_lines_same:
  assumes "ticket_lines t = ticket_lines u" "ticket_wf t" "ticket_wf u" "ct_binding_hash t = ct_binding_hash u"
  shows "t = u"
proof -
  have "ct_scheme t = ct_scheme u" "ct_host t = ct_host u" using assms(1) by (simp_all add: ticket_lines_def)
  then have "ct_sni t = ct_sni u" using assms(2,3) by (cases "ct_scheme t") (simp_all add: ticket_wf_def)
  moreover have "ct_pinned_addresses t = ct_pinned_addresses u"
  proof (rule ip_list_inject)
    show "ct_selected_ip t |\<in>| ct_pinned_addresses t" "ct_selected_ip u |\<in>| ct_pinned_addresses u"
      using assms(2,3) by (simp_all add: ticket_wf_def)
  qed (use assms(1) in \<open>simp add: ticket_lines_def\<close>)
  ultimately show ?thesis using assms(1,4) by (intro connection_ticket.equality) (simp_all add: ticket_lines_def word_unat_eq_iff)
qed

section \<open>Properties\<close>

text \<open>
  C15: A ticket is used at most once. Over any history of issues, uses and revocations from a new
  authority (short of exhausting the 64-bit counter), no two permits carry the same ticket id.
\<close>

theorem tickets_single_use:
  assumes "length ops < 2 ^ 64 - 2"
  shows "distinct (map pm_ticket_id (permits (snd (ticket_run sha ops ticket_authority_new))))"
  using ticket_run_permits [OF authority_new_wf, of ops sha] assms by (simp add: ticket_authority_new_def)

text \<open>
  C17: Exactly when a use yields a permit. In any reachable authority the use of a ticket yields a
  permit if and only if the ticket is stored and still issued, the clock lies between its issue and
  its expiry, and context, scheme, address, port, server name, authority and redirect depth of the
  attempt are those of the ticket. The permit then names the ticket's address, which is one of the
  pinned ones, the window is at most thirty seconds, and the ticket is no longer live; a failed use
  of a live ticket burns it as well.
\<close>

theorem permit_iff_bound:
  assumes "a = fst (ticket_run sha ops ticket_authority_new)" "consume a att now = (a', r)"
  shows "((\<exists>p. use_permit r = Some p) \<longleftrightarrow>
      (\<exists>t. ticket_of a (at_ticket_id att) = Some t \<and> at_ticket_id att \<in> live a
        \<and> ct_issued_at t \<le> now \<and> now \<le> ct_expires_at t
        \<and> normalize_identifier (at_dns_context_id att) = ct_dns_context_id t \<and> at_scheme att = ct_scheme t
        \<and> at_remote_ip att = ct_selected_ip t \<and> at_port att = ct_port t
        \<and> map_option normalize_host (at_sni att) = ct_sni t
        \<and> normalize_authority (at_http_host att) = ct_http_host t
        \<and> at_redirect_depth att = ct_redirect_depth t))
    \<and> (\<forall>p. use_permit r = Some p \<longrightarrow>
      (\<exists>t. ticket_of a (at_ticket_id att) = Some t \<and> p = permit_of t \<and> pm_ticket_id p = at_ticket_id att
        \<and> pm_remote_ip p |\<in>| ct_pinned_addresses t
        \<and> unat (ct_expires_at t) \<le> unat (ct_issued_at t) + 30000))
    \<and> live a' = live a - {at_ticket_id att}" (is "(?L \<longleftrightarrow> ?R) \<and> ?P \<and> ?N")
proof (intro conjI)
  have wf: "authority_wf a" unfolding assms(1) by (rule ticket_run_wf [OF authority_new_wf])
  show ?N by (rule consume_live [OF assms(2)])
  show "?L \<longleftrightarrow> ?R"
  proof
    assume ?L
    then show ?R using consume_permit [OF assms(2)] by (auto simp: ticket_of_def live_def binding_checks_def)
  next
    assume ?R
    then show ?L using assms(2)
      by (auto simp: ticket_of_def live_def consume_def binding_checks_def Let_def not_less [symmetric])
  qed
  show ?P
    using consume_permit [OF assms(2)] wf
    by (fastforce simp: ticket_of_def authority_wf_def ticket_wf_def permit_of_def)
qed

text \<open>
  Revocation is final. Once the tickets of a DNS context have been revoked, no later sequence of
  operations yields a permit for a ticket of that context that existed when it was revoked.
\<close>

theorem revoked_never_used:
  assumes "a = fst (ticket_run sha ops ticket_authority_new)" "length ops + length later < 2 ^ 64 - 2"
    "ticket_of a k = Some t" "ct_dns_context_id t = normalize_identifier c"
  shows "k \<notin> pm_ticket_id ` set (permits (snd (ticket_run sha later (fst (revoke_context a c)))))"
proof -
  let ?a = "fst (revoke_context a c)"
  have wf: "authority_wf a" unfolding assms(1) by (rule ticket_run_wf [OF authority_new_wf])
  have "unat (next_ticket_id a) \<le> 1 + length ops"
    using ticket_run_next [of sha ops ticket_authority_new] assms(1) by (simp add: ticket_authority_new_def)
  moreover have n: "next_ticket_id ?a = next_ticket_id a" by (simp add: revoke_context_def Let_def)
  ultimately have b: "unat (next_ticket_id ?a) + length later < 2 ^ 64 - 1" using assms(2) by simp
  have "next_ticket_id a \<noteq> - 1" using b n by (auto simp: unat_minus_one_max)
  moreover have d: "k \<in> dom (map_of (tickets a))" using assms(3) by (auto simp: ticket_of_def)
  ultimately obtain m where "m < unat (next_ticket_id a)" "k = ticket_name m"
    using wf unfolding authority_wf_def by blast
  then have "k \<notin> live ?a \<union> {ticket_name n | n. unat (next_ticket_id ?a) \<le> n}"
    using assms(3,4) n by (auto simp: revoke_live ticket_of_def)
  then show ?thesis using ticket_run_permits [OF revoke_wf [OF wf] b, of sha] by blast
qed

text \<open>
  C24: The binding hash commits to the ticket. If two issued tickets whose host is normalized have the
  same binding hash, and SHA-256 does not map the two different texts hashed to one digest, then they
  are the same ticket: every field agrees, the selected address and the set of pinned addresses
  included (they are hashed in their printed form, which determines them).
\<close>

theorem binding_hash_commits:
  assumes "issue sha a r = (a', Inr t)" "normalize_host (ct_host t) = ct_host t"
    "issue sha b q = (b', Inr u)" "normalize_host (ct_host u) = ct_host u"
    "ct_binding_hash t = ct_binding_hash u" "inj_on sha {ticket_text t, ticket_text u}"
  shows "t = u"
proof -
  note t = issue_text [OF assms(1)] and u = issue_text [OF assms(3)]
  have "sha (ticket_text t) = sha (ticket_text u)"
    using assms(5) [unfolded t(2) u(2)] by (simp add: to_lower_hex_inject)
  then have "ticket_text t = ticket_text u" by (rule inj_onD [OF assms(6)]) simp_all
  then have "ticket_lines t = ticket_lines u" using t(3) [OF assms(2)] u(3) [OF assms(4)] by metis
  then show ?thesis using t(1) u(1) assms(5) by (rule ticket_lines_same)
qed

section \<open>Witnesses\<close>

definition sample_binding :: ticket_binding where
  "sample_binding =
     \<lparr>tb_decision_id = ''decision-1'', tb_dns_context_id = ''ctx-1'', tb_host = ''a.b'', tb_scheme = Https,
      tb_port = 443, tb_sni = Some ''a.b'', tb_http_host = ''a.b'', tb_pinned_addresses = {|V4 9|},
      tb_selected_ip = V4 9, tb_redirect_depth = 0\<rparr>"

definition sample_request :: ticket_issue_request where
  "sample_request =
     \<lparr>req_binding = sample_binding, req_issued_at = 1000, req_ttl = 5000,
      req_audit_anchor = replicate 64 (CHR ''a'')\<rparr>"

definition sample_attempt :: connection_attempt where
  "sample_attempt =
     \<lparr>at_ticket_id = ''ticket-00000000000000000001'', at_dns_context_id = ''ctx-1'', at_scheme = Https,
      at_remote_ip = V4 9, at_port = 443, at_sni = Some ''a.b'', at_http_host = ''a.b'',
      at_redirect_depth = 0\<rparr>"

definition ticket_sample_ops :: "ticket_op list" where
  "ticket_sample_ops = [OpIssue sample_request, OpConsume sample_attempt 2000, OpConsume sample_attempt 2000]"

lemma sample_run:
  "length (permits (snd (ticket_run (\<lambda>s. s) ticket_sample_ops ticket_authority_new))) = 1"
  by code_simp

theorem tickets_single_use_witness:
  "length (permits (snd (ticket_run (\<lambda>s. s) ticket_sample_ops ticket_authority_new))) = 1
   \<and> distinct (map pm_ticket_id (permits (snd (ticket_run (\<lambda>s. s) ticket_sample_ops ticket_authority_new))))"
  using tickets_single_use [of ticket_sample_ops "\<lambda>s. s"] sample_run by (simp add: ticket_sample_ops_def)

definition sample_authority :: ticket_authority where
  "sample_authority = fst (ticket_run (\<lambda>s. s) [OpIssue sample_request] ticket_authority_new)"

lemma sample_consume_permit:
  "map_option pm_remote_ip (use_permit (snd (consume sample_authority sample_attempt 2000))) = Some (V4 9)"
  by code_simp

theorem permit_iff_bound_witness:
  "\<exists>t. ticket_of sample_authority (at_ticket_id sample_attempt) = Some t \<and> ct_selected_ip t = V4 9
     \<and> at_ticket_id sample_attempt \<in> live sample_authority"
proof -
  obtain p where "use_permit (snd (consume sample_authority sample_attempt 2000)) = Some p" "pm_remote_ip p = V4 9"
    using sample_consume_permit by auto
  then show ?thesis
    using permit_iff_bound [OF sample_authority_def prod.collapse [symmetric, of "consume sample_authority sample_attempt 2000"]]
    by (auto simp: permit_of_def)
qed

text \<open>The sample request with a second pinned address.\<close>

definition sample_request_pinned :: ticket_issue_request where
  "sample_request_pinned = sample_request\<lparr>req_binding := sample_binding\<lparr>tb_pinned_addresses := {|V4 9, V6 9|}\<rparr>\<rparr>"

lemma sample_issue:
  "\<not> isl (snd (issue (\<lambda>s. s) ticket_authority_new sample_request))"
  "\<not> isl (snd (issue (\<lambda>s. s) ticket_authority_new sample_request_pinned))"
  "map_sum id (\<lambda>b. (tb_host b, tb_pinned_addresses b)) (normalize_and_validate_binding (req_binding sample_request))
     = Inr (''a.b'', {|V4 9|})"
  "map_sum id (\<lambda>b. (tb_host b, tb_pinned_addresses b)) (normalize_and_validate_binding (req_binding sample_request_pinned))
     = Inr (''a.b'', {|V4 9, V6 9|})"
  "normalize_host ''a.b'' = ''a.b''" "V6 9 |\<notin>| {|V4 9|}"
  by code_simp+

lemma sample_issued:
  assumes "\<not> isl (snd (issue sha a r))"
    "map_sum id (\<lambda>b. (tb_host b, tb_pinned_addresses b)) (normalize_and_validate_binding (req_binding r)) = Inr (h, ips)"
  shows "\<exists>a' t. issue sha a r = (a', Inr t) \<and> ct_host t = h \<and> ct_pinned_addresses t = ips"
proof -
  obtain a' t where i: "issue sha a r = (a', Inr t)" using assms(1) by (cases "snd (issue sha a r)") (auto simp: prod_eq_iff)
  have "ct_host t = h \<and> ct_pinned_addresses t = ips" by (rule issue_Inr [OF i]) (use assms(2) in simp)
  then show ?thesis using i by blast
qed

text \<open>Two tickets that differ in one pinned address only have different hashes.\<close>

theorem binding_hash_commits_witness:
  "\<exists>a t b u. issue (\<lambda>s. s) ticket_authority_new sample_request = (a, Inr t)
     \<and> issue (\<lambda>s. s) ticket_authority_new sample_request_pinned = (b, Inr u)
     \<and> ct_binding_hash t \<noteq> ct_binding_hash u"
proof -
  obtain a t where t: "issue (\<lambda>s. s) ticket_authority_new sample_request = (a, Inr t)" "ct_host t = ''a.b''"
    "ct_pinned_addresses t = {|V4 9|}" using sample_issued [OF sample_issue(1,3)] by blast
  obtain b u where u: "issue (\<lambda>s. s) ticket_authority_new sample_request_pinned = (b, Inr u)" "ct_host u = ''a.b''"
    "ct_pinned_addresses u = {|V4 9, V6 9|}" using sample_issued [OF sample_issue(2,4)] by blast
  have "ct_binding_hash t \<noteq> ct_binding_hash u"
  proof
    assume "ct_binding_hash t = ct_binding_hash u"
    then have "t = u" using binding_hash_commits [OF t(1) _ u(1)] sample_issue(5) t(2) u(2) by (simp add: inj_on_def)
    then show False using t(3) u(3) sample_issue(6) by auto
  qed
  then show ?thesis using t(1) u(1) by blast
qed

section \<open>A host that is not normalized\<close>

text \<open>
  The host is normalized once and validated after a second normalization, so a host whose dots
  hide white space is accepted and stored with that white space: here a line feed.
\<close>

lemma issue_keeps_newline_host:
  "map_sum id ct_host (snd (issue (\<lambda>s. s) ticket_authority_new
     (sample_request\<lparr>req_binding := sample_binding\<lparr>tb_host := ''a'' @ [CHR 0x0A] @ ''.'',
        tb_sni := Some (''a'' @ [CHR 0x0A] @ ''.''), tb_http_host := ''a''\<rparr>\<rparr>))) = Inr [CHR ''a'', CHR 0x0A]"
  by code_simp

end
