(* ===== verification/Pinned_Transport.thy ===== *)
theory Pinned_Transport
  imports Gateway Transport
begin

text \<open>
  The crate \<open>nxb-pinned-transport\<close>: the coordinator that turns an allowed request into a one-use
  ticket and a ticket into a permit, with its own audit chain. Its state is the gateway, the ticket
  authority and the chain; the serializer of its events is the parameter \<open>ser_transport\<close>.
\<close>

section \<open>Data\<close>

definition DEFAULT_TICKET_TTL_MILLISECONDS :: u64 where
  "DEFAULT_TICKET_TTL_MILLISECONDS = 5000"

definition TRANSPORT_AUDIT_GENESIS_HASH :: string where
  "TRANSPORT_AUDIT_GENESIS_HASH = replicate 64 (CHR ''0'')"

record connection_authorization =
  ca_decision :: gateway_decision
  ca_ticket :: "connection_ticket option"

record transport_audit_event =
  te_event_id :: string
  te_action :: string
  te_status :: string
  te_reason :: string
  te_gateway_audit_anchor :: string
  te_ticket_id :: "string option"
  te_decision_id :: "string option"
  te_binding_hash :: "string option"
  te_dns_context_id :: string
  te_host :: string
  te_scheme :: string
  te_selected_ip :: string
  te_port :: u16
  te_sni :: "string option"
  te_http_host :: string
  te_redirect_depth :: u8
  te_elapsed_milliseconds :: u64

record transport_audit_chain = "transport_audit_event chain" +
  next_event_id :: u64

datatype pinned_transport_error =
  PtGateway gateway_error | PtTicket ticket_issue_error | PtAudit chain_error
| SelectedIpNotResolved | MissingHost | MissingPort | UnsupportedScheme

record coordinator =
  co_gateway :: scope_gateway
  co_tickets :: ticket_authority
  co_audit :: transport_audit_chain
  co_ttl :: u64

record transport_ext = gateway_ext +
  ser_transport :: "u64 \<times> string \<times> transport_audit_event \<Rightarrow> string + string"

section \<open>The audit chain\<close>

definition transport_audit_new :: transport_audit_chain where
  "transport_audit_new = \<lparr>chain_records = [], tail_hash = TRANSPORT_AUDIT_GENESIS_HASH, next_event_id = 1\<rparr>"

definition allocate_event_id :: "transport_audit_chain \<Rightarrow> transport_audit_chain \<times> string" where
  "allocate_event_id c =
     (let v = next_event_id c in
      (c\<lparr>next_event_id := saturating_add v 1\<rparr>, ''transport-event-'' @ decimal_pad 20 (unat v)))"

definition transport_record_hash :: "'z transport_ext_scheme \<Rightarrow> transport_audit_event record_hash" where
  "transport_record_hash x = chain_hash (ser_transport x) (sha256 x)"

definition transport_append ::
  "'z transport_ext_scheme \<Rightarrow> transport_audit_chain \<Rightarrow> transport_audit_event
     \<Rightarrow> transport_audit_chain \<times> (chain_error + transport_audit_event chain_record)" where
  "transport_append x = chain_append (transport_record_hash x)"

definition transport_verify :: "'z transport_ext_scheme \<Rightarrow> transport_audit_chain \<Rightarrow> chain_error + unit" where
  "transport_verify x = chain_verify (transport_record_hash x) TRANSPORT_AUDIT_GENESIS_HASH"

interpretation transport_log: audit_log "transport_append x" "transport_verify x" chain_events
  for x
  by unfold_locales
    (auto simp: transport_append_def transport_verify_def chain_append_Inr dest: chain_append_Inl
      intro: chain_append_verify)

section \<open>What is written to it\<close>

definition sanitize_identifier :: "string \<Rightarrow> string" where
  "sanitize_identifier value =
     (let v = trim value in
      if v = [] \<or> length v > 128 \<or> \<not> list_all is_identifier_byte v then ''[invalid]''
      else to_ascii_lowercase v)"

definition sanitize_host :: "string \<Rightarrow> string" where
  "sanitize_host value =
     (let v = to_ascii_lowercase (trim_end_matches (CHR ''.'') (trim value)) in
      if v = [] \<or> length v > 253 \<or> CHR ''/'' \<in> set v \<or> CHR 0x5C \<in> set v \<or> CHR ''@'' \<in> set v
      then ''[invalid]'' else v)"

definition sanitize_authority :: "string \<Rightarrow> string" where
  "sanitize_authority value =
     (let v = to_ascii_lowercase (trim value) in
      if v = [] \<or> length v > 260 \<or> CHR ''/'' \<in> set v \<or> CHR 0x5C \<in> set v \<or> CHR ''@'' \<in> set v
      then ''[invalid]'' else v)"

definition rejection_event :: "string \<Rightarrow> string \<Rightarrow> request_intent \<Rightarrow> ip_addr \<Rightarrow> duration \<Rightarrow> transport_audit_event" where
  "rejection_event event_id anchor intent selected_ip elapsed =
     \<lparr>te_event_id = event_id, te_action = ''issue'', te_status = ''rejected'',
      te_reason = ''selected_ip_not_resolved'', te_gateway_audit_anchor = anchor,
      te_ticket_id = None, te_decision_id = None, te_binding_hash = None,
      te_dns_context_id = sanitize_identifier (intent_dns_context_id intent),
      te_host = to_ascii_lowercase (case url_host_str (intent_url intent) of None \<Rightarrow> ''[missing]'' | Some h \<Rightarrow> h),
      te_scheme = to_ascii_lowercase (url_scheme (intent_url intent)),
      te_selected_ip = ip_to_string selected_ip,
      te_port = (case url_port_or_known_default (intent_url intent) of None \<Rightarrow> 0 | Some p \<Rightarrow> p),
      te_sni = None, te_http_host = ''[not_issued]'',
      te_redirect_depth = intent_redirect_depth intent,
      te_elapsed_milliseconds = duration_milliseconds_saturated elapsed\<rparr>"

definition issue_event :: "string \<Rightarrow> connection_ticket \<Rightarrow> string \<Rightarrow> duration \<Rightarrow> transport_audit_event" where
  "issue_event event_id t anchor elapsed =
     \<lparr>te_event_id = event_id, te_action = ''issue'', te_status = ''issued'',
      te_reason = ''gateway_authorized'', te_gateway_audit_anchor = anchor,
      te_ticket_id = Some (ct_ticket_id t), te_decision_id = Some (ct_decision_id t),
      te_binding_hash = Some (ct_binding_hash t), te_dns_context_id = ct_dns_context_id t,
      te_host = ct_host t, te_scheme = transport_scheme_code (ct_scheme t),
      te_selected_ip = ip_to_string (ct_selected_ip t), te_port = ct_port t, te_sni = ct_sni t,
      te_http_host = ct_http_host t, te_redirect_depth = ct_redirect_depth t,
      te_elapsed_milliseconds = duration_milliseconds_saturated elapsed\<rparr>"

definition use_event :: "string \<Rightarrow> string \<Rightarrow> ticket_use_result \<Rightarrow> duration \<Rightarrow> transport_audit_event" where
  "use_event event_id gateway_tail r elapsed =
     (let ticket = use_ticket r; att = use_attempt r in
      \<lparr>te_event_id = event_id, te_action = ''consume'',
       te_status = ticket_use_outcome_code (use_outcome r),
       te_reason = (case use_outcome r of
           BindingMismatch field \<Rightarrow> ''binding_mismatch:'' @ binding_field_code field
         | other \<Rightarrow> ticket_use_outcome_code other),
       te_gateway_audit_anchor = (case ticket of None \<Rightarrow> gateway_tail | Some t \<Rightarrow> ct_audit_anchor t),
       te_ticket_id = Some (at_ticket_id att), te_decision_id = map_option ct_decision_id ticket,
       te_binding_hash = map_option ct_binding_hash ticket,
       te_dns_context_id =
         (case ticket of None \<Rightarrow> sanitize_identifier (at_dns_context_id att) | Some t \<Rightarrow> ct_dns_context_id t),
       te_host = (case ticket of None \<Rightarrow> ''[unknown]'' | Some t \<Rightarrow> ct_host t),
       te_scheme = transport_scheme_code (at_scheme att), te_selected_ip = ip_to_string (at_remote_ip att),
       te_port = at_port att, te_sni = map_option sanitize_host (at_sni att),
       te_http_host = sanitize_authority (at_http_host att), te_redirect_depth = at_redirect_depth att,
       te_elapsed_milliseconds = duration_milliseconds_saturated elapsed\<rparr>)"

section \<open>The coordinator\<close>

definition coordinator_new :: "scope_gateway \<Rightarrow> coordinator" where
  "coordinator_new g =
     \<lparr>co_gateway = g, co_tickets = ticket_authority_new, co_audit = transport_audit_new,
      co_ttl = DEFAULT_TICKET_TTL_MILLISECONDS\<rparr>"

definition append_issue_event ::
  "'z transport_ext_scheme \<Rightarrow> coordinator \<Rightarrow> connection_ticket \<Rightarrow> string \<Rightarrow> duration
     \<Rightarrow> coordinator \<times> (chain_error + unit)" where
  "append_issue_event x c t anchor elapsed =
     (let (audit, event_id) = allocate_event_id (co_audit c) in
      case transport_append x audit (issue_event event_id t anchor elapsed) of
        (audit, Inl e) \<Rightarrow> (c\<lparr>co_audit := audit\<rparr>, Inl e)
      | (audit, Inr _) \<Rightarrow> (c\<lparr>co_audit := audit\<rparr>, Inr ()))"

definition append_use_event ::
  "'z transport_ext_scheme \<Rightarrow> coordinator \<Rightarrow> ticket_use_result \<Rightarrow> duration
     \<Rightarrow> coordinator \<times> (chain_error + unit)" where
  "append_use_event x c r elapsed =
     (let (audit, event_id) = allocate_event_id (co_audit c) in
      case transport_append x audit (use_event event_id (tail_hash (gw_audit (co_gateway c))) r elapsed) of
        (audit, Inl e) \<Rightarrow> (c\<lparr>co_audit := audit\<rparr>, Inl e)
      | (audit, Inr _) \<Rightarrow> (c\<lparr>co_audit := audit\<rparr>, Inr ()))"

definition ticket_request ::
  "request_intent \<Rightarrow> ip_addr \<Rightarrow> duration \<Rightarrow> gateway_decision \<Rightarrow> string \<Rightarrow> transport_scheme \<Rightarrow> u16
     \<Rightarrow> u64 \<Rightarrow> string \<Rightarrow> ticket_issue_request" where
  "ticket_request intent selected_ip elapsed d host scheme port ttl anchor =
     \<lparr>req_binding =
        \<lparr>tb_decision_id = decision_id d, tb_dns_context_id = intent_dns_context_id intent,
         tb_host = host, tb_scheme = scheme, tb_port = port,
         tb_sni = (case scheme of Http \<Rightarrow> None | Https \<Rightarrow> Some host),
         tb_http_host = expected_http_host host scheme port,
         tb_pinned_addresses = fset_of_list (intent_resolved_ips intent),
         tb_selected_ip = selected_ip, tb_redirect_depth = intent_redirect_depth intent\<rparr>,
      req_issued_at = duration_milliseconds_saturated elapsed, req_ttl = ttl, req_audit_anchor = anchor\<rparr>"

text \<open>The part of \<open>authorize_connection\<close> after the gateway's approval.\<close>

definition issue_connection ::
  "'z transport_ext_scheme \<Rightarrow> coordinator \<Rightarrow> request_intent \<Rightarrow> ip_addr \<Rightarrow> duration \<Rightarrow> gateway_decision
     \<Rightarrow> coordinator \<times> (pinned_transport_error + connection_authorization)" where
  "issue_connection x c intent selected_ip elapsed d =
     (let url = intent_url intent;
          completed = c\<lparr>co_gateway := complete_request (co_gateway c)\<rparr> in
      case url_host_str url of
        None \<Rightarrow> (c, Inl MissingHost)
      | Some h \<Rightarrow>
          let host = to_ascii_lowercase h in
          (case (if url_scheme url = ''http'' then Some Http
                 else if url_scheme url = ''https'' then Some Https else None) of
             None \<Rightarrow> (completed, Inl UnsupportedScheme)
           | Some scheme \<Rightarrow>
               (case url_port_or_known_default url of
                  None \<Rightarrow> (c, Inl MissingPort)
                | Some port \<Rightarrow>
                    let anchor = tail_hash (gw_audit (co_gateway c));
                        request = ticket_request intent selected_ip elapsed d host scheme port (co_ttl c) anchor in
                    (case issue (sha256 x) (co_tickets c) request of
                       (auth, Inl e) \<Rightarrow> (completed\<lparr>co_tickets := auth\<rparr>, Inl (PtTicket e))
                     | (auth, Inr t) \<Rightarrow>
                         (case append_issue_event x (c\<lparr>co_tickets := auth\<rparr>) t anchor elapsed of
                            (c, Inl e) \<Rightarrow> (c, Inl (PtAudit e))
                          | (c, Inr _) \<Rightarrow> (c, Inr \<lparr>ca_decision = d, ca_ticket = Some t\<rparr>))))))"

definition authorize_connection ::
  "'z transport_ext_scheme \<Rightarrow> coordinator \<Rightarrow> request_intent \<Rightarrow> ip_addr \<Rightarrow> duration
     \<Rightarrow> (coordinator \<times> (pinned_transport_error + connection_authorization)) run" where
  "authorize_connection x c intent selected_ip elapsed =
     (if selected_ip \<notin> set (intent_resolved_ips intent) then
        let anchor = tail_hash (gw_audit (co_gateway c));
            (audit, event_id) = allocate_event_id (co_audit c) in
        (case transport_append x audit (rejection_event event_id anchor intent selected_ip elapsed) of
           (audit, Inl e) \<Rightarrow> Ret (c\<lparr>co_audit := audit\<rparr>, Inl (PtAudit e))
         | (audit, Inr _) \<Rightarrow> Ret (c\<lparr>co_audit := audit\<rparr>, Inl SelectedIpNotResolved))
      else
        (case authorize x (co_gateway c) intent elapsed of
           Panic \<Rightarrow> Panic
         | Ret (g, Inl e) \<Rightarrow> Ret (c\<lparr>co_gateway := g\<rparr>, Inl (PtGateway e))
         | Ret (g, Inr d) \<Rightarrow>
             let c = c\<lparr>co_gateway := g\<rparr> in
             if decision_outcome d = Deny then Ret (c, Inr \<lparr>ca_decision = d, ca_ticket = None\<rparr>)
             else Ret (issue_connection x c intent selected_ip elapsed d)))"

text \<open>The failed uses that hand the slot back.\<close>

fun releases_slot :: "ticket_use_outcome \<Rightarrow> bool" where
  "releases_slot UseExpired = True"
| "releases_slot UseClockRegression = True"
| "releases_slot (BindingMismatch _) = True"
| "releases_slot _ = False"

definition consume_connection_ticket ::
  "'z transport_ext_scheme \<Rightarrow> coordinator \<Rightarrow> connection_attempt \<Rightarrow> duration
     \<Rightarrow> coordinator \<times> (pinned_transport_error + ticket_use_result)" where
  "consume_connection_ticket x c att elapsed =
     (let (auth, r) = consume (co_tickets c) att (duration_milliseconds_saturated elapsed) in
      case append_use_event x (c\<lparr>co_tickets := auth\<rparr>) r elapsed of
        (c, Inl e) \<Rightarrow> (c, Inl (PtAudit e))
      | (c, Inr _) \<Rightarrow>
          (if releases_slot (use_outcome r) then c\<lparr>co_gateway := complete_request (co_gateway c)\<rparr> else c, Inr r))"

definition coordinator_complete :: "coordinator \<Rightarrow> coordinator" where
  "coordinator_complete c = c\<lparr>co_gateway := complete_request (co_gateway c)\<rparr>"

definition coordinator_release :: "coordinator \<Rightarrow> string \<Rightarrow> coordinator \<times> nat \<times> nat" where
  "coordinator_release c context_id =
     (let (auth, revoked) = revoke_context (co_tickets c) context_id;
          g = (complete_request ^^ revoked) (co_gateway c);
          (g, dns_pins) = release_dns_context g context_id in
      (c\<lparr>co_tickets := auth, co_gateway := g\<rparr>, dns_pins, revoked))"

definition coordinator_ticket :: "coordinator \<Rightarrow> string \<Rightarrow> connection_ticket option" where
  "coordinator_ticket c ticket_id = ticket_of (co_tickets c) ticket_id"

section \<open>An allowed request gets its ticket\<close>

text \<open>Lower-casing commutes with trimming, so the host may be lower-cased first.\<close>

lemma ws_char_lower [simp]:
  "ws1 (char_lower a) = ws1 a" "ws2 (char_lower a) (char_lower b) = ws2 a b"
  "ws3 (char_lower a) (char_lower b) (char_lower c) = ws3 a b c"
  by (auto simp: ws1_def ws2_def ws3_def byte_char_lower is_ascii_uppercase_def split: if_splits)

lemma ws_map_lower [simp]:
  "ws_front (map char_lower s) = ws_front s" "ws_back (map char_lower s) = ws_back s"
  by (cases s rule: ws_front.cases; simp)+

lemma trim_start_lower: "trim_start (map char_lower s) = map char_lower (trim_start s)"
proof (induction s rule: trim_start.induct)
  case (1 s)
  then show ?case
    by (subst (1 2) trim_start.simps) (simp add: drop_map)
qed

lemma trim_back_lower: "trim_back (map char_lower s) = map char_lower (trim_back s)"
proof (induction s rule: trim_back.induct)
  case (1 s)
  then show ?case
    by (subst (1 2) trim_back.simps) (simp add: drop_map)
qed

lemma trim_lower: "trim (to_ascii_lowercase s) = to_ascii_lowercase (trim s)"
  by (simp add: trim_def to_ascii_lowercase_def trim_start_lower trim_back_lower rev_map)

lemma char_lower_dot: "char_lower c = CHR ''.'' \<longleftrightarrow> c = CHR ''.''"
  by (rule char_lower_eq_other) (simp_all add: byte_class_defs byte_def)

lemma normalize_host_lower [simp]: "normalize_host (to_ascii_lowercase h) = normalize_host h"
proof -
  have "dropWhile (\<lambda>c. c = CHR ''.'') (map char_lower v) = map char_lower (dropWhile (\<lambda>c. c = CHR ''.'') v)" for v
    by (induction v) (auto simp: char_lower_dot)
  then have "trim_end_matches (CHR ''.'') (to_ascii_lowercase v) = to_ascii_lowercase (trim_end_matches (CHR ''.'') v)" for v
    by (simp add: trim_end_matches_def to_ascii_lowercase_def rev_map)
  then show ?thesis by (simp add: normalize_host_def trim_lower)
qed

lemma expected_http_host_normal:
  assumes "is_valid_host h"
  shows "normalize_authority (expected_http_host h s p) = expected_http_host h s p"
proof -
  have "char_lower c = c" if "c \<in> set (normalize_host h)" for c
    using that by (auto simp: normalize_host_def set_to_ascii_lowercase)
  moreover have "char_lower c = c" if "c \<in> set (decimal n)" for c n
    using decimal_digits [OF that] by (auto intro!: char_lower_other simp: byte_class_defs)
  moreover have "char_lower (CHR '':'') = CHR '':''" by (rule char_lower_other) (simp add: byte_class_defs byte_def)
  ultimately have "char_lower c = c" if "c \<in> set (expected_http_host h s p)" for c
    using that by (auto simp: expected_http_host_def Let_def split: if_split_asm)
  then have "to_ascii_lowercase (expected_http_host h s p) = expected_http_host h s p"
    by (simp add: to_ascii_lowercase_def map_idI)
  then show ?thesis
    using trim_graphic [OF expected_http_host_graphic [OF assms]] by (simp add: normalize_authority_def)
qed

lemma ticket_request_binding:
  assumes "is_valid_identifier (decision_id d)" "is_valid_identifier (intent_dns_context_id intent)"
    "is_valid_host h" "port \<noteq> 0" "ip \<in> set (intent_resolved_ips intent)"
  shows "normalize_and_validate_binding (req_binding (ticket_request intent ip elapsed d (to_ascii_lowercase h) s port ttl anchor))
    = Inr \<lparr>tb_decision_id = normalize_identifier (decision_id d),
           tb_dns_context_id = normalize_identifier (intent_dns_context_id intent),
           tb_host = normalize_host h, tb_scheme = s, tb_port = port,
           tb_sni = (case s of Http \<Rightarrow> None | Https \<Rightarrow> Some (normalize_host h)),
           tb_http_host = expected_http_host h s port,
           tb_pinned_addresses = fset_of_list (intent_resolved_ips intent), tb_selected_ip = ip,
           tb_redirect_depth = intent_redirect_depth intent\<rparr>"
proof -
  have idem: "normalize_host (normalize_host h) = normalize_host h"
    by (rule normalize_host_idem) (rule valid_host_labels(1) [OF assms(3)])
  then have "is_valid_host (normalize_host h)" using assms(3) by (simp add: is_valid_host_def)
  moreover have "expected_http_host (to_ascii_lowercase h) s port = expected_http_host h s port"
    "expected_http_host (normalize_host h) s port = expected_http_host h s port"
    by (simp_all add: expected_http_host_def idem)
  ultimately show ?thesis
    using assms idem expected_http_host_normal [OF assms(3)]
    by (cases s) (auto simp: normalize_and_validate_binding_def ticket_request_def Let_def
        transport_valid_host_eq fset_of_list_elem)
qed

lemma fresh_id_valid: "is_valid_identifier (fresh_id g)"
proof (rule identifier_bytes_valid)
  have "length (decimal_pad 20 (unat (gw_next_decision_id g))) = 20"
    using unat_bounds(4) [of "gw_next_decision_id g"] by (intro length_decimal_pad_20) simp
  then show "length (fresh_id g) \<le> 128" by (simp add: fresh_id_def)
  have "is_identifier_byte c" if "is_ascii_digit c" for c
    using that by (simp add: is_identifier_byte_def is_ascii_alphanumeric_def)
  then show "list_all is_identifier_byte (fresh_id g)"
    using decimal_pad_digits [of _ 20 "unat (gw_next_decision_id g)"]
    by (auto simp: fresh_id_def list_all_iff) (simp_all add: is_identifier_byte_def byte_class_defs byte_def)
qed (simp add: fresh_id_def)

lemma authorize_tail:
  assumes "authorize x g intent t = Ret (g', Inr d)" "\<And>b. length (sha256 x b) = 32"
  shows "decision_id d = fresh_id g \<and> is_lower_hex_sha256 (tail_hash (gw_audit g'))"
proof -
  have tail: "is_lower_hex_sha256 (tail_hash a)"
    if "audit_append (ser_audit x) (sha256 x) c ev = (a, Inr z)" for c ev a z
    using chain_append_hex [OF that [unfolded audit_append_def hash_material_def] assms(2)] .
  show ?thesis
  proof (cases rule: authorize_cases [where x = x and g = g and intent = intent and elapsed = t])
    case (denied a r d' st q)
    then show ?thesis using assms(1) tail by (cases q) auto
  next
    case (reached host pins status b s a r d' st q)
    then show ?thesis using assms(1) tail by (cases q) auto
  qed (use assms in simp)
qed

lemma issue_connection_cases:
  assumes "issue_connection x c intent ip e d = (c', r)"
  obtains (failed) "co_tickets c' = co_tickets c" "isl r"
      "co_gateway c' = co_gateway c \<or> co_gateway c' = complete_request (co_gateway c)" "co_ttl c' = co_ttl c"
      "r \<noteq> Inl MissingHost \<Longrightarrow> r \<noteq> Inl MissingPort \<Longrightarrow> co_gateway c' = complete_request (co_gateway c)"
  | (issued) h s port t where "url_host_str (intent_url intent) = Some h"
      "url_scheme (intent_url intent) = transport_scheme_code s"
      "url_port_or_known_default (intent_url intent) = Some port"
      "issue (sha256 x) (co_tickets c) (ticket_request intent ip e d (to_ascii_lowercase h) s port (co_ttl c)
         (tail_hash (gw_audit (co_gateway c)))) = (co_tickets c', Inr t)"
      "co_gateway c' = co_gateway c" "co_ttl c' = co_ttl c"
      "r = Inr \<lparr>ca_decision = d, ca_ticket = Some t\<rparr> \<or> (\<exists>a. r = Inl (PtAudit a))"
proof (cases "\<exists>h s port. url_host_str (intent_url intent) = Some h \<and> url_port_or_known_default (intent_url intent) = Some port
    \<and> url_scheme (intent_url intent) = transport_scheme_code s")
  case False
  then have "co_tickets c' = co_tickets c \<and> isl r \<and> co_ttl c' = co_ttl c
      \<and> (co_gateway c' = co_gateway c \<and> r \<in> {Inl MissingHost, Inl MissingPort} \<or> co_gateway c' = complete_request (co_gateway c))"
    using assms transport_scheme_code.simps
    by (auto simp: issue_connection_def Let_def split: option.splits if_split_asm) (metis transport_scheme_code.simps)+
  then show thesis using failed by blast
next
  case True
  then obtain h s port where u: "url_host_str (intent_url intent) = Some h"
    "url_port_or_known_default (intent_url intent) = Some port"
    "url_scheme (intent_url intent) = transport_scheme_code s" by blast
  have sc: "(if url_scheme (intent_url intent) = ''http'' then Some Http
      else if url_scheme (intent_url intent) = ''https'' then Some Https else None) = Some s"
    by (cases s) (simp_all add: u(3))
  let ?r = "ticket_request intent ip e d (to_ascii_lowercase h) s port (co_ttl c) (tail_hash (gw_audit (co_gateway c)))"
  obtain auth q where q: "issue (sha256 x) (co_tickets c) ?r = (auth, q)" by fastforce
  show thesis
  proof (cases q)
    case (Inl a)
    then show thesis using issue_Inl q assms
      by (intro failed) (auto simp: issue_connection_def u(1,2) sc Let_def)
  next
    case (Inr t)
    show thesis using assms q Inr
      by (intro issued [OF u(1,3,2), where t = t])
        (auto simp: issue_connection_def u(1,2) sc append_issue_event_def Let_def split: prod.splits sum.splits)
  qed
qed

section \<open>Histories\<close>

datatype coordinator_op =
  Connect request_intent ip_addr duration | Use connection_attempt duration | Complete | Release string

text \<open>A history with the permits it hands out; a panic of the gateway ends it.\<close>

definition granted :: "pinned_transport_error + ticket_use_result \<Rightarrow> transport_permit list" where
  "granted r = (case r of Inl _ \<Rightarrow> [] | Inr u \<Rightarrow> (case use_permit u of None \<Rightarrow> [] | Some p \<Rightarrow> [p]))"

fun coordinator_run ::
  "'z transport_ext_scheme \<Rightarrow> coordinator_op list \<Rightarrow> coordinator \<Rightarrow> (coordinator \<times> transport_permit list) run" where
  "coordinator_run x [] c = Ret (c, [])"
| "coordinator_run x (Connect intent ip e # ops) c =
     (case authorize_connection x c intent ip e of
        Panic \<Rightarrow> Panic
      | Ret (c1, _) \<Rightarrow> coordinator_run x ops c1)"
| "coordinator_run x (Use att e # ops) c =
     (let (c1, r) = consume_connection_ticket x c att e in
      case coordinator_run x ops c1 of
        Panic \<Rightarrow> Panic
      | Ret (c2, ps) \<Rightarrow> Ret (c2, granted r @ ps))"
| "coordinator_run x (Complete # ops) c = coordinator_run x ops (coordinator_complete c)"
| "coordinator_run x (Release ctx # ops) c = coordinator_run x ops (fst (coordinator_release c ctx))"

text \<open>
  The request a ticket comes from, among a set of operations: allowed by the policy, and with the
  destination, the server name, the authority and the addresses of the ticket.
\<close>

definition sanctioned_by :: "coordinator_op set \<Rightarrow> compiled_policy \<Rightarrow> u8 \<Rightarrow> connection_ticket \<Rightarrow> bool" where
  "sanctioned_by ops policy redirects t \<longleftrightarrow>
     (\<exists>intent ip e h. Connect intent ip e \<in> ops
        \<and> allows_request policy (intent_url intent) (intent_method intent)
        \<and> intent_redirect_depth intent \<le> redirects
        \<and> (\<forall>ip \<in> set (intent_resolved_ips intent). is_public_destination ip)
        \<and> ip \<in> set (intent_resolved_ips intent) \<and> ct_selected_ip t = ip
        \<and> url_host_str (intent_url intent) = Some h \<and> ct_host t = normalize_host h
        \<and> url_scheme (intent_url intent) = transport_scheme_code (ct_scheme t)
        \<and> url_port_or_known_default (intent_url intent) = Some (ct_port t)
        \<and> ct_sni t = (case ct_scheme t of Http \<Rightarrow> None | Https \<Rightarrow> Some (normalize_host h))
        \<and> ct_http_host t = expected_http_host (normalize_host h) (ct_scheme t) (ct_port t)
        \<and> ct_pinned_addresses t = fset_of_list (intent_resolved_ips intent)
        \<and> ct_dns_context_id t = normalize_identifier (intent_dns_context_id intent)
        \<and> ct_redirect_depth t = intent_redirect_depth intent
        \<and> ct_issued_at t = duration_milliseconds_saturated e
        \<and> unat (ct_expires_at t) = unat (ct_issued_at t) + 5000)"

text \<open>One call of \<open>authorize_connection\<close>: what becomes of gateway, slots and tickets.\<close>

lemma authorize_connection_cases:
  assumes "authorize_connection x c intent ip e = Ret (c', r)"
  obtains (unchanged) "co_tickets c' = co_tickets c" "co_gateway c' = co_gateway c" "co_ttl c' = co_ttl c" "isl r"
      "ip \<notin> set (intent_resolved_ips intent)"
  | (undecided) g q where "authorize x (co_gateway c) intent e = Ret (g, q)"
      "co_tickets c' = co_tickets c" "co_gateway c' = g" "co_ttl c' = co_ttl c"
      "\<And>d. q = Inr d \<Longrightarrow> decision_outcome d = Deny \<and> r = Inr \<lparr>ca_decision = d, ca_ticket = None\<rparr>"
      "\<And>a. q = Inl a \<Longrightarrow> r = Inl (PtGateway a)"
  | (allowed) g d where "authorize x (co_gateway c) intent e = Ret (g, Inr d)" "decision_outcome d = Allow"
      "ip \<in> set (intent_resolved_ips intent)"
      "issue_connection x (c\<lparr>co_gateway := g\<rparr>) intent ip e d = (c', r)"
proof (cases "ip \<in> set (intent_resolved_ips intent)")
  case False
  then show thesis using assms
    by (intro unchanged) (auto simp: authorize_connection_def Let_def case_prod_unfold split: sum.splits)
next
  case True
  then obtain g q where g: "authorize x (co_gateway c) intent e = Ret (g, q)"
    using assms by (auto simp: authorize_connection_def split: run.splits)
  show thesis
  proof (cases "\<exists>d. q = Inr d \<and> decision_outcome d = Allow")
    case True
    then show thesis using g assms \<open>ip \<in> _\<close>
      by (auto simp: authorize_connection_def Let_def intro: allowed)
  next
    case False
    then have "decision_outcome d = Deny" if "q = Inr d" for d
      using that by (cases "decision_outcome d") auto
    then show thesis using g assms \<open>ip \<in> _\<close>
      by (intro undecided [OF g]) (auto simp: authorize_connection_def Let_def split: sum.splits if_split_asm)
  qed
qed

lemma authorize_gateway_keeps:
  assumes "authorize x g intent e = Ret (g', r)"
  shows "gw_policy g' = gw_policy g \<and> gw_maximum_redirects g' = gw_maximum_redirects g"
  by (cases rule: authorize_cases [where x = x and g = g and intent = intent and elapsed = e])
    (use assms in auto)

lemma issue_decision:
  assumes "issue sha a (ticket_request intent ip e d host s port ttl anchor) = (a', Inr t)"
  shows "ct_decision_id t = normalize_identifier (decision_id d)"
  by (rule issue_Inr [OF assms])
    (auto simp: ticket_request_def normalize_and_validate_binding_def Let_def split: if_split_asm)

lemma validated_pinned: "normalize_and_validate_binding b0 = Inr b \<Longrightarrow> tb_pinned_addresses b = tb_pinned_addresses b0"
  by (auto simp: normalize_and_validate_binding_def Let_def split: if_split_asm)

lemma issue_pinned:
  assumes "issue sha a (ticket_request intent ip e d host s port ttl anchor) = (a', Inr t)"
  shows "ct_pinned_addresses t = fset_of_list (intent_resolved_ips intent)"
  by (rule issue_Inr [OF assms]) (drule validated_pinned, simp only:, simp add: ticket_request_def)

lemma issue_sanctioned:
  assumes "authorize x (co_gateway c) intent e = Ret (g, Inr d)" "decision_outcome d = Allow"
    "ip \<in> set (intent_resolved_ips intent)" "url_host_str (intent_url intent) = Some h"
    "url_scheme (intent_url intent) = transport_scheme_code s"
    "url_port_or_known_default (intent_url intent) = Some port"
    "issue sha a (ticket_request intent ip e d (to_ascii_lowercase h) s port 5000 anchor) = (a', Inr t)"
  shows "sanctioned_by {Connect intent ip e} (gw_policy (co_gateway c)) (gw_maximum_redirects (co_gateway c)) t"
    "ct_decision_id t = normalize_identifier (decision_id d)"
proof -
  obtain host pins status where adm: "admissible (co_gateway c) intent e host pins status"
    using authorize_allow [OF assms(1,2)] by metis
  have T: "ct_host t = normalize_host h \<and> ct_selected_ip t = ip \<and> ct_scheme t = s \<and> ct_port t = port
      \<and> ct_dns_context_id t = normalize_identifier (intent_dns_context_id intent)
      \<and> ct_redirect_depth t = intent_redirect_depth intent \<and> ct_issued_at t = duration_milliseconds_saturated e
      \<and> ct_decision_id t = normalize_identifier (decision_id d) \<and> ct_expires_at t = ct_issued_at t + 5000 \<and> ticket_wf t"
    by (rule issue_Inr [OF assms(7)])
      (auto simp: ticket_request_def normalize_and_validate_binding_def Let_def split: if_split_asm)
  then have "unat (ct_issued_at t) < unat (ct_issued_at t + 5000)" unfolding ticket_wf_def by metis
  then have "unat (ct_issued_at t + 5000) = unat (ct_issued_at t) + 5000"
    using unat_bounds(4) [of "ct_issued_at t"] by (auto simp: unat_word_ariths mod_if split: if_split_asm)
  moreover have "ct_sni t = (case ct_scheme t of Http \<Rightarrow> None | Https \<Rightarrow> Some (ct_host t))
      \<and> ct_http_host t = expected_http_host (ct_host t) (ct_scheme t) (ct_port t)"
    using T unfolding ticket_wf_def by blast
  ultimately show "sanctioned_by {Connect intent ip e} (gw_policy (co_gateway c)) (gw_maximum_redirects (co_gateway c)) t"
    using T adm assms(3-6) issue_pinned [OF assms(7)] unfolding sanctioned_by_def admissible_def
    by (auto split: transport_scheme.splits)
  show "ct_decision_id t = normalize_identifier (decision_id d)" using T by blast
qed

lemma consume_connection_ticket_eq:
  assumes "consume_connection_ticket x c att e = (c', r)"
  obtains u where "consume (co_tickets c) att (duration_milliseconds_saturated e) = (co_tickets c', u)"
    "co_ttl c' = co_ttl c" "r = Inr u \<or> isl r"
    "co_gateway c' = (if releases_slot (use_outcome u) \<and> r = Inr u then complete_request (co_gateway c) else co_gateway c)"
proof -
  obtain auth u where c: "consume (co_tickets c) att (duration_milliseconds_saturated e) = (auth, u)" by fastforce
  then show thesis using assms
    by (intro that [of u])
      (auto simp: consume_connection_ticket_def append_use_event_def Let_def split: prod.splits sum.splits if_split_asm)
qed

lemma gateway_steps_keep [simp]:
  "gw_policy ((complete_request ^^ n) g) = gw_policy g"
  "gw_maximum_redirects ((complete_request ^^ n) g) = gw_maximum_redirects g"
  by (induction n) (simp_all add: complete_request_def)

lemma release_dns_keep [simp]:
  "gw_policy (fst (release_dns_context g c)) = gw_policy g"
  "gw_maximum_redirects (fst (release_dns_context g c)) = gw_maximum_redirects g"
  "gw_budget (fst (release_dns_context g c)) = gw_budget g"
  by (simp_all add: release_dns_context_def split: prod.splits)

lemma complete_request_keep [simp]:
  "gw_policy (complete_request g) = gw_policy g"
  "gw_maximum_redirects (complete_request g) = gw_maximum_redirects g"
  by (simp_all add: complete_request_def)

lemma coordinator_release_eq:
  "co_tickets (fst (coordinator_release c ctx)) = fst (revoke_context (co_tickets c) ctx)"
  "co_ttl (fst (coordinator_release c ctx)) = co_ttl c"
  "co_gateway (fst (coordinator_release c ctx))
     = fst (release_dns_context ((complete_request ^^ snd (revoke_context (co_tickets c) ctx)) (co_gateway c)) ctx)"
  by (simp_all add: coordinator_release_def Let_def split: prod.splits)

text \<open>A request in a state of the coordinator that the gateway allows and the authority issues a ticket for.\<close>

definition ticket_issued_by ::
  "'z transport_ext_scheme \<Rightarrow> coordinator \<Rightarrow> request_intent \<Rightarrow> ip_addr \<Rightarrow> duration \<Rightarrow> connection_ticket \<Rightarrow> bool" where
  "ticket_issued_by x c intent ip e t \<longleftrightarrow>
     (\<exists>g d h s port a. authorize x (co_gateway c) intent e = Ret (g, Inr d) \<and> decision_outcome d = Allow
        \<and> ip \<in> set (intent_resolved_ips intent)
        \<and> url_host_str (intent_url intent) = Some h
        \<and> url_scheme (intent_url intent) = transport_scheme_code s
        \<and> url_port_or_known_default (intent_url intent) = Some port
        \<and> issue (sha256 x) (co_tickets c) (ticket_request intent ip e d (to_ascii_lowercase h) s port (co_ttl c)
            (tail_hash (gw_audit g))) = (a, Inr t)
        \<and> ct_decision_id t = normalize_identifier (decision_id d))"

text \<open>A ticket issued at some point of a history.\<close>

definition issued_in ::
  "'z transport_ext_scheme \<Rightarrow> coordinator \<Rightarrow> coordinator_op list \<Rightarrow> connection_ticket \<Rightarrow> bool" where
  "issued_in x c0 ops t \<longleftrightarrow>
     (\<exists>pre intent ip e post c ps. ops = pre @ Connect intent ip e # post
        \<and> coordinator_run x pre c0 = Ret (c, ps) \<and> ticket_issued_by x c intent ip e t
        \<and> gw_policy (co_gateway c) = gw_policy (co_gateway c0)
        \<and> gw_maximum_redirects (co_gateway c) = gw_maximum_redirects (co_gateway c0) \<and> co_ttl c = co_ttl c0)"

text \<open>A state after a history: the settings are those of the start, every stored ticket was issued.\<close>

definition came_from :: "'z transport_ext_scheme \<Rightarrow> coordinator \<Rightarrow> coordinator_op list \<Rightarrow> coordinator \<Rightarrow> bool" where
  "came_from x c0 ops c \<longleftrightarrow>
     gw_policy (co_gateway c) = gw_policy (co_gateway c0)
     \<and> gw_maximum_redirects (co_gateway c) = gw_maximum_redirects (co_gateway c0) \<and> co_ttl c = co_ttl c0
     \<and> (\<forall>k s. map_of (tickets (co_tickets c)) k = Some s \<longrightarrow> ct_ticket_id (st_ticket s) = k \<and> issued_in x c0 ops (st_ticket s))"

lemma issued_in_append: "issued_in x c0 ops t \<Longrightarrow> issued_in x c0 (ops @ rest) t"
  unfolding issued_in_def by fastforce

lemma came_from_step:
  assumes "came_from x c0 ops c" "gw_policy (co_gateway c') = gw_policy (co_gateway c)"
    "gw_maximum_redirects (co_gateway c') = gw_maximum_redirects (co_gateway c)" "co_ttl c' = co_ttl c"
    "\<And>k s. map_of (tickets (co_tickets c')) k = Some s \<Longrightarrow>
       (\<exists>s0. map_of (tickets (co_tickets c)) k = Some s0 \<and> st_ticket s0 = st_ticket s)
       \<or> ct_ticket_id (st_ticket s) = k \<and> issued_in x c0 (ops @ [op]) (st_ticket s)"
  shows "came_from x c0 (ops @ [op]) c'"
proof -
  have "ct_ticket_id (st_ticket s) = k \<and> issued_in x c0 (ops @ [op]) (st_ticket s)"
    if "map_of (tickets (co_tickets c')) k = Some s" for k s
    using assms(5) [OF that]
  proof (elim disjE exE conjE)
    fix s0 assume "map_of (tickets (co_tickets c)) k = Some s0" "st_ticket s0 = st_ticket s"
    moreover from this have "ct_ticket_id (st_ticket s0) = k" "issued_in x c0 ops (st_ticket s0)"
      using assms(1) unfolding came_from_def by blast+
    ultimately show ?thesis by (simp add: issued_in_append)
  qed simp
  then show ?thesis using assms(1-4) by (simp add: came_from_def)
qed

lemma came_from_connect:
  assumes "came_from x c0 ops c" "coordinator_run x ops c0 = Ret (c, ps)" "authorize_connection x c intent ip e = Ret (c', r)"
  shows "came_from x c0 (ops @ [Connect intent ip e]) c'"
  using assms(3)
proof (cases rule: authorize_connection_cases)
  case unchanged
  then show ?thesis by (intro came_from_step [OF assms(1)]) auto
next
  case (undecided g q)
  then show ?thesis using authorize_gateway_keeps [OF undecided(1)] by (intro came_from_step [OF assms(1)]) auto
next
  case (allowed g d)
  note g = authorize_gateway_keeps [OF allowed(1)]
  from allowed(4) show ?thesis
  proof (cases rule: issue_connection_cases)
    case failed
    then show ?thesis using g by (intro came_from_step [OF assms(1)]) auto
  next
    case (issued h s port t)
    have i: "issue (sha256 x) (co_tickets c) (ticket_request intent ip e d (to_ascii_lowercase h) s port (co_ttl c)
        (tail_hash (gw_audit g))) = (co_tickets c', Inr t)" using issued(4) by simp
    have t: "tickets (co_tickets c') = AList.update (ct_ticket_id t) \<lparr>st_ticket = t, st_state = Issued\<rparr> (tickets (co_tickets c))"
      by (rule issue_Inr [OF i])
    have "ticket_issued_by x c intent ip e t"
      unfolding ticket_issued_by_def using allowed(1-3) issued(1-3) i issue_decision [OF i] by blast
    then have "issued_in x c0 (ops @ [Connect intent ip e]) t"
      unfolding issued_in_def using assms(1,2) unfolding came_from_def by blast
    then show ?thesis using g issued(5,6) by (intro came_from_step [OF assms(1)]) (auto simp: t update_conv' split: if_split_asm)
  qed
qed

lemma came_from_use:
  assumes "came_from x c0 ops c" "consume_connection_ticket x c att e = (c', r)"
  shows "came_from x c0 (ops @ [Use att e]) c'"
proof (rule consume_connection_ticket_eq [OF assms(2)], goal_cases)
  case (1 u)
  show ?case
  proof (rule came_from_step [OF assms(1)])
    fix k s assume "map_of (tickets (co_tickets c')) k = Some s"
    then show "(\<exists>s0. map_of (tickets (co_tickets c)) k = Some s0 \<and> st_ticket s0 = st_ticket s)
       \<or> ct_ticket_id (st_ticket s) = k \<and> issued_in x c0 (ops @ [Use att e]) (st_ticket s)"
      using consume_tickets(2) [OF 1(1)] by (auto simp: update_conv' split: if_split_asm)
  qed (use 1(2,4) in auto)
qed

lemma came_from_other:
  assumes "came_from x c0 ops c"
  shows "came_from x c0 (ops @ [Complete]) (coordinator_complete c)"
    "came_from x c0 (ops @ [Release ctx]) (fst (coordinator_release c ctx))"
  by (rule came_from_step [OF assms]; auto simp: coordinator_complete_def coordinator_release_eq map_of_revoke split: if_split_asm)+

lemma coordinator_run_append:
  "coordinator_run x (ops @ later) c =
     (case coordinator_run x ops c of
        Panic \<Rightarrow> Panic
      | Ret (c1, ps) \<Rightarrow> (case coordinator_run x later c1 of Panic \<Rightarrow> Panic | Ret (c2, qs) \<Rightarrow> Ret (c2, ps @ qs)))"
  by (induction x ops c rule: coordinator_run.induct) (auto simp: Let_def split: run.splits prod.splits)

lemma coordinator_run_snoc:
  assumes "coordinator_run x (ops @ [op]) c0 = Ret (c', ps)"
  obtains c qs ps' where "coordinator_run x ops c0 = Ret (c, qs)" "coordinator_run x [op] c = Ret (c', ps')" "ps = qs @ ps'"
  using assms by (auto simp: coordinator_run_append simp del: coordinator_run.simps split: run.splits prod.splits)

lemma coordinator_run_came_from:
  "coordinator_run x ops (coordinator_new g) = Ret (c', ps) \<Longrightarrow> came_from x (coordinator_new g) ops c'"
proof (induction ops arbitrary: c' ps rule: rev_induct)
  case Nil
  then show ?case by (auto simp: came_from_def coordinator_new_def ticket_authority_new_def)
next
  case (snoc op ops)
  from snoc.prems show ?case
  proof (rule coordinator_run_snoc)
    fix c qs ps'
    assume c: "coordinator_run x ops (coordinator_new g) = Ret (c, qs)" "coordinator_run x [op] c = Ret (c', ps')"
    note f = snoc.IH [OF c(1)]
    show ?thesis
    proof (cases op)
      case (Connect intent ip e)
      then show ?thesis using c came_from_connect [OF f c(1)] by (auto split: run.splits)
    next
      case (Use att e)
      then show ?thesis using c(2) came_from_use [OF f prod.collapse [symmetric], of att e]
        by (auto simp: case_prod_unfold Let_def)
    qed (use c(2) came_from_other [OF f] in auto)
  qed
qed

text \<open>Where in the history a permit is handed out.\<close>

lemma coordinator_run_permit:
  "coordinator_run x ops c0 = Ret (c', ps) \<Longrightarrow> p \<in> set ps \<Longrightarrow>
   \<exists>pre att e post c qs c1 r. ops = pre @ Use att e # post \<and> coordinator_run x pre c0 = Ret (c, qs)
     \<and> consume_connection_ticket x c att e = (c1, r) \<and> p \<in> set (granted r)"
proof (induction ops arbitrary: c' ps rule: rev_induct)
  case (snoc op ops)
  from snoc.prems(1) show ?case
  proof (rule coordinator_run_snoc)
    fix c qs ps'
    assume c: "coordinator_run x ops c0 = Ret (c, qs)" "coordinator_run x [op] c = Ret (c', ps')" "ps = qs @ ps'"
    show ?thesis
    proof (cases "p \<in> set qs")
      case True
      then obtain pre att e post c2 qs2 c1 r where "ops = pre @ Use att e # post \<and> coordinator_run x pre c0 = Ret (c2, qs2)
          \<and> consume_connection_ticket x c2 att e = (c1, r) \<and> p \<in> set (granted r)" using snoc.IH [OF c(1)] by blast
      then have "ops @ [op] = pre @ Use att e # (post @ [op]) \<and> coordinator_run x pre c0 = Ret (c2, qs2)
          \<and> consume_connection_ticket x c2 att e = (c1, r) \<and> p \<in> set (granted r)" by simp
      then show ?thesis by blast
    next
      case False
      then have "p \<in> set ps'" using snoc.prems(2) c(3) by simp
      then obtain att e where op: "op = Use att e" "p \<in> set (granted (snd (consume_connection_ticket x c att e)))"
        using c(2) by (cases op) (auto simp: case_prod_unfold Let_def split: run.splits prod.splits)
      then have "ops @ [op] = ops @ Use att e # [] \<and> coordinator_run x ops c0 = Ret (c, qs)
          \<and> consume_connection_ticket x c att e = (fst (consume_connection_ticket x c att e), snd (consume_connection_ticket x c att e))
          \<and> p \<in> set (granted (snd (consume_connection_ticket x c att e)))" using c(1) by simp
      then show ?thesis by blast
    qed
  qed
qed simp

lemma granted_ticket:
  assumes "came_from x c0 ops c" "consume_connection_ticket x c att e = (c', r)" "p \<in> set (granted r)"
  shows "\<exists>t. issued_in x c0 ops t \<and> p = permit_of t \<and> at_ticket_id att = ct_ticket_id t
      \<and> ct_issued_at t \<le> duration_milliseconds_saturated e \<and> duration_milliseconds_saturated e \<le> ct_expires_at t"
proof (rule consume_connection_ticket_eq [OF assms(2)], goal_cases)
  case (1 u)
  have "use_permit u = Some p" using assms(3) 1(3) by (auto simp: granted_def split: option.splits)
  from consume_permit [OF 1(1) this] show ?case using assms(1) unfolding came_from_def by metis
qed

lemma ticket_issued_by_sanctioned:
  assumes "ticket_issued_by x c intent ip e t" "co_ttl c = 5000"
  shows "sanctioned_by {Connect intent ip e} (gw_policy (co_gateway c)) (gw_maximum_redirects (co_gateway c)) t"
  using assms issue_sanctioned(1) unfolding ticket_issued_by_def by metis

section \<open>Slots\<close>

text \<open>
  The steps of the coordinator with the number of permits whose requests have not been completed;
  a client completes only requests it holds a permit for.
\<close>

inductive slot_step :: "'z transport_ext_scheme \<Rightarrow> coordinator \<times> nat \<Rightarrow> coordinator \<times> nat \<Rightarrow> bool" for x where
  connect: "authorize_connection x c intent ip e = Ret (c', r) \<Longrightarrow> slot_step x (c, n) (c', n)"
| use: "consume_connection_ticket x c att e = (c', r) \<Longrightarrow> slot_step x (c, n) (c', n + length (granted r))"
| complete: "slot_step x (c, Suc n) (coordinator_complete c, n)"
| release: "slot_step x (c, n) (fst (coordinator_release c ctx), n)"

inductive_cases slot_stepE: "slot_step x (c, n) (c', n')"

lemma live_finite: "finite (live a)"
  by (rule finite_subset [of _ "set (map fst (tickets a))"]) (auto simp: live_def intro: rev_image_eqI dest!: map_of_SomeD)

lemma issued_count_live: "distinct (map fst (tickets a)) \<Longrightarrow> issued_count a = card (live a)"
proof -
  assume d: "distinct (map fst (tickets a))"
  let ?xs = "filter (\<lambda>(_, s). st_state s = Issued) (tickets a)"
  have "distinct (map fst ?xs)" using d by (rule distinct_map_filter)
  then have "length ?xs = card (set (map fst ?xs))" by (metis distinct_card length_map)
  also have "set (map fst ?xs) = live a" using d by (force simp: live_def map_of_eq_Some_iff)
  finally show ?thesis by (simp add: issued_count_def)
qed

lemma revoke_count:
  assumes "authority_wf a"
  shows "snd (revoke_context a c) = card (live a - live (fst (revoke_context a c)))"
proof -
  have d: "distinct (map fst (tickets a))" using assms by (simp add: authority_wf_def)
  let ?xs = "filter (\<lambda>(_, s). revocable (normalize_identifier c) s) (tickets a)"
  have "distinct (map fst ?xs)" using d by (rule distinct_map_filter)
  then have "length ?xs = card (set (map fst ?xs))" by (metis distinct_card length_map)
  also have "set (map fst ?xs) = {k. \<exists>s. map_of (tickets a) k = Some s \<and> revocable (normalize_identifier c) s}"
    using d by (force simp: map_of_eq_Some_iff)
  also have "\<dots> = live a - live (fst (revoke_context a c))"
    unfolding revoke_live by (auto simp: live_def revocable_def)
  finally show ?thesis by (simp add: revoke_context_def Let_def)
qed

lemma in_flight_complete: "unat (in_flight_requests (complete_request g)) = unat (in_flight_requests g) - 1"
  by (simp add: complete_request_def budget_finish_def unat_saturating_sub)

lemma in_flight_completes: "unat (in_flight_requests ((complete_request ^^ n) g)) = unat (in_flight_requests g) - n"
  by (induction n) (simp_all add: in_flight_complete)

lemma completes_wf: "gateway_wf x g \<Longrightarrow> gateway_wf x ((complete_request ^^ n) g)"
  by (induction n) (simp_all add: complete_request_wf)

lemma completes_budget:
  "max_concurrency (gw_budget ((complete_request ^^ n) g)) = max_concurrency (gw_budget g)"
  by (induction n) (simp_all add: complete_request_def budget_finish_def)

lemma authorize_in_flight:
  assumes "gateway_wf x g" "authorize x g intent e = Ret (g', r)"
  shows "unat (in_flight_requests g) \<le> unat (in_flight_requests g')"
    "r = Inr d \<Longrightarrow> decision_outcome d = Allow \<Longrightarrow> unat (in_flight_requests g') = Suc (unat (in_flight_requests g))"
proof -
  have wf: "budget_wf (gw_budget g)" using assms(1) by (simp add: gateway_wf_def)
  have r: "in_flight (refill (gw_budget g) e) = in_flight (gw_budget g)" by (simp add: refill_def)
  show "unat (in_flight_requests g) \<le> unat (in_flight_requests g')"
  proof (cases rule: authorize_cases [where x = x and g = g and intent = intent and elapsed = e])
    case (reached host pins status b s a r' d st q)
    then have "gw_budget g' = b" using assms(2) by simp
    then show ?thesis using try_start_ok(3) [OF wf, of e b] try_start_err [of "gw_budget g" e b] reached(3) r
      by (cases s) auto
  qed (use assms(2) in auto)
  show "unat (in_flight_requests g') = Suc (unat (in_flight_requests g))" if "r = Inr d" "decision_outcome d = Allow"
    using authorize_allow [OF assms(2) [unfolded that(1)] that(2)] try_start_ok(3) [OF wf] by (metis Suc_eq_plus1)
qed

text \<open>The invariant: live tickets and held permits fit in the requests in flight.\<close>

definition slots_ok :: "'z transport_ext_scheme \<Rightarrow> u16 \<Rightarrow> coordinator \<times> nat \<Rightarrow> bool" where
  "slots_ok x limit cn \<longleftrightarrow>
     (case cn of (c, n) \<Rightarrow> gateway_wf x (co_gateway c) \<and> authority_wf (co_tickets c)
        \<and> max_concurrency (gw_budget (co_gateway c)) = limit
        \<and> card (live (co_tickets c)) + n \<le> unat (in_flight_requests (co_gateway c)))"

lemma slots_connect:
  assumes "slots_ok x limit (c, n)" "authorize_connection x c intent ip e = Ret (c', r)"
  shows "slots_ok x limit (c', n)"
  using assms(2)
proof (cases rule: authorize_connection_cases)
  case unchanged
  then show ?thesis using assms(1) by (simp add: slots_ok_def)
next
  case (undecided g q)
  then show ?thesis
    using assms(1) authorize_in_flight(1) [OF _ undecided(1)] authorize_step [OF _ undecided(1)]
    by (fastforce simp: slots_ok_def)
next
  case (allowed g d)
  have wf: "gateway_wf x (co_gateway c)" "authority_wf (co_tickets c)" using assms(1) by (auto simp: slots_ok_def)
  note f = authorize_in_flight(2) [OF wf(1) allowed(1) refl allowed(2)] and a = authorize_step [OF wf(1) allowed(1)]
  from allowed(4) show ?thesis
  proof (cases rule: issue_connection_cases)
    case failed
    then show ?thesis using assms(1) f a complete_request_wf [of x g] in_flight_complete [of g] completes_budget [of 1 g]
      by (auto simp: slots_ok_def)
  next
    case (issued h s port t)
    have "card (live (co_tickets c')) \<le> Suc (card (live (co_tickets c)))"
      using issue_live [OF issued(4)] live_finite [of "co_tickets c"] by (simp add: card_insert_if)
    then show ?thesis using assms(1) f a issued(5) issue_wf [OF _ issued(4)] by (auto simp: slots_ok_def)
  qed
qed

lemma releases_slot_live:
  assumes "consume a att now = (a', u)" "releases_slot (use_outcome u) \<or> use_permit u \<noteq> None"
  shows "at_ticket_id att \<in> live a" "releases_slot (use_outcome u) \<Longrightarrow> use_permit u = None"
  using assms
  by (auto simp: consume_def live_def failed_use_def Let_def
      split: option.splits stored_ticket_state.splits if_split_asm)

lemma slots_use:
  assumes "slots_ok x limit (c, n)" "consume_connection_ticket x c att e = (c', r)"
  shows "slots_ok x limit (c', n + length (granted r))"
proof (rule consume_connection_ticket_eq [OF assms(2)], goal_cases)
  case (1 u)
  note l = consume_live [OF 1(1)] and rl = releases_slot_live [OF 1(1)]
  have wf: "gateway_wf x (co_gateway c)" "authority_wf (co_tickets c')"
    using assms(1) consume_wf [OF _ 1(1)] by (auto simp: slots_ok_def)
  have c: "card (live (co_tickets c')) \<le> card (live (co_tickets c))"
    "at_ticket_id att \<in> live (co_tickets c) \<Longrightarrow> Suc (card (live (co_tickets c'))) = card (live (co_tickets c))"
    unfolding l by (rule card_Diff1_le) (rule card_Suc_Diff1 [OF live_finite])
  have g: "length (granted r) \<le> 1" "granted r \<noteq> [] \<Longrightarrow> use_permit u \<noteq> None \<and> r = Inr u"
    using 1(3) by (auto simp: granted_def split: option.splits sum.splits)
  show ?case
  proof (cases "releases_slot (use_outcome u) \<and> r = Inr u")
    case True
    then have e: "granted r = []" "Suc (card (live (co_tickets c'))) = card (live (co_tickets c))"
      "co_gateway c' = complete_request (co_gateway c)"
      using rl(2) c(2) [OF rl(1)] 1(4) by (simp_all add: granted_def)
    have "max_concurrency (gw_budget (co_gateway c')) = max_concurrency (gw_budget (co_gateway c))"
      using completes_budget [of 1 "co_gateway c"] by (simp add: e(3))
    then show ?thesis using assms(1) wf e(1,2) complete_request_wf [OF wf(1)]
      unfolding slots_ok_def prod.case e(3) in_flight_complete by auto
  next
    case False
    then have e: "co_gateway c' = co_gateway c" using 1(4) by auto
    show ?thesis
    proof (cases "granted r = []")
      case True
      then show ?thesis using assms(1) wf c(1) by (simp add: slots_ok_def e)
    next
      case False
      then have "Suc (card (live (co_tickets c'))) = card (live (co_tickets c))" using g(2) c(2) [OF rl(1)] by blast
      then show ?thesis using assms(1) wf g(1) by (simp add: slots_ok_def e)
    qed
  qed
qed

lemma slots_release:
  assumes "slots_ok x limit (c, n)"
  shows "slots_ok x limit (fst (coordinator_release c ctx), n)"
proof -
  let ?a = "co_tickets c" let ?a' = "fst (revoke_context ?a ctx)" let ?k = "snd (revoke_context ?a ctx)"
  let ?g = "fst (release_dns_context ((complete_request ^^ ?k) (co_gateway c)) ctx)"
  have wf: "authority_wf ?a" "gateway_wf x (co_gateway c)" "max_concurrency (gw_budget (co_gateway c)) = limit"
    "card (live ?a) + n \<le> unat (in_flight_requests (co_gateway c))" using assms by (auto simp: slots_ok_def)
  have "live ?a' \<subseteq> live ?a" by (auto simp: revoke_live)
  then have "card (live ?a) = card (live ?a') + ?k"
    unfolding revoke_count [OF wf(1)]
    by (simp add: card_Diff_subset [OF finite_subset [OF _ live_finite]] card_mono [OF live_finite])
  moreover have "unat (in_flight_requests ?g) = unat (in_flight_requests (co_gateway c)) - ?k"
    by (simp add: in_flight_completes)
  ultimately have "card (live ?a') + n \<le> unat (in_flight_requests ?g)" using wf(4) by linarith
  then show ?thesis
    using wf revoke_wf [OF wf(1)] release_dns_context_wf [OF completes_wf [OF wf(2)]]
    unfolding slots_ok_def prod.case coordinator_release_eq by (simp add: completes_budget)
qed

lemma slot_step_ok:
  assumes "slot_step x cn cn'" "slots_ok x limit cn"
  shows "slots_ok x limit cn'"
  using assms
proof (induction rule: slot_step.induct)
  case (connect c intent ip e c' r n)
  then show ?case using slots_connect by blast
next
  case (use c att e c' r n)
  then show ?case using slots_use by blast
next
  case (complete c n)
  then have s: "gateway_wf x (co_gateway c)" "authority_wf (co_tickets c)"
    "max_concurrency (gw_budget (co_gateway c)) = limit"
    "card (live (co_tickets c)) + Suc n \<le> unat (in_flight_requests (co_gateway c))" by (auto simp: slots_ok_def)
  have "max_concurrency (gw_budget (complete_request (co_gateway c))) = limit"
    using completes_budget [of 1 "co_gateway c"] s(3) by simp
  then show ?case
    using s(2,4) complete_request_wf [OF s(1)] by (simp add: slots_ok_def coordinator_complete_def in_flight_complete)
next
  case (release c n ctx)
  show ?case by (rule slots_release [OF release])
qed

lemma slots_reachable: "(slot_step x)\<^sup>*\<^sup>* cn cn' \<Longrightarrow> slots_ok x limit cn \<Longrightarrow> slots_ok x limit cn'"
  by (induction rule: rtranclp_induct) (auto intro: slot_step_ok)

lemma transport_append_total:
  "(\<And>m. \<exists>b. ser_transport x m = Inr b) \<Longrightarrow> \<exists>au z. transport_append x a ev = (au, Inr z)"
  using chain_append_Inr_iff [of "transport_record_hash x" a ev]
  by (auto simp: transport_append_def transport_record_hash_def chain_hash_def bind_r_Inr map_err_Inr)

lemma allowed_connect:
  assumes "\<And>b. length (sha256 x b) = 32" "\<And>m. \<exists>b. ser_transport x m = Inr b"
    "authorize x (co_gateway c) intent e = Ret (g, Inr d)" "decision_outcome d = Allow"
    "ip \<in> set (intent_resolved_ips intent)" "url_scheme (intent_url intent) = transport_scheme_code s"
    "url_port_or_known_default (intent_url intent) = Some port" "port \<noteq> 0" "co_ttl c = 5000"
    "unat (duration_milliseconds_saturated e) + 5000 < 2 ^ 64"
  obtains c' t h where "issue (sha256 x) (co_tickets c) (ticket_request intent ip e d (to_ascii_lowercase h) s port 5000 (tail_hash (gw_audit g)))
      = (co_tickets c', Inr t)" "url_host_str (intent_url intent) = Some h" "co_gateway c' = g"
    "authorize_connection x c intent ip e = Ret (c', Inr \<lparr>ca_decision = d, ca_ticket = Some t\<rparr>)"
proof -
  obtain h pins st where adm: "admissible (co_gateway c) intent e h pins st"
    using authorize_allow [OF assms(3,4)] by metis
  then have h: "url_host_str (intent_url intent) = Some h"
    and v: "validate_observation (intent_observation intent h e) = Inr ()"
    using pin_or_validate_Inr(1) by (auto simp: admissible_def)
  have id: "is_valid_identifier (intent_dns_context_id intent)" "is_valid_host h"
    using v by (auto simp: validate_observation_def intent_observation_def split: if_split_asm)
  have d: "is_valid_identifier (decision_id d)" and anchor: "is_lower_hex_sha256 (tail_hash (gw_audit g))"
    using authorize_tail [OF assms(3) assms(1)] fresh_id_valid by auto
  let ?r = "ticket_request intent ip e d (to_ascii_lowercase h) s port 5000 (tail_hash (gw_audit g))"
  have r: "req_ttl ?r = 5000" "req_audit_anchor ?r = tail_hash (gw_audit g)"
    "req_issued_at ?r = duration_milliseconds_saturated e" by (simp_all add: ticket_request_def)
  obtain b where "normalize_and_validate_binding (req_binding ?r) = Inr b"
    using ticket_request_binding [OF d id assms(8,5)] by blast
  moreover have "checked_add (duration_milliseconds_saturated e) (5000 :: u64) \<noteq> None"
    using assms(10) by (simp add: checked_add_None)
  ultimately obtain a t where i: "issue (sha256 x) (co_tickets c) ?r = (a, Inr t)"
    using anchor by (auto simp: issue_def r MAX_TICKET_TTL_MILLISECONDS_def Let_def allocate_ticket_id_def)
  obtain au z where ap: "transport_append x (fst (allocate_event_id (co_audit c)))
      (issue_event (snd (allocate_event_id (co_audit c))) t (tail_hash (gw_audit g)) e) = (au, Inr z)"
    using transport_append_total [OF assms(2)] by blast
  have sc: "(if url_scheme (intent_url intent) = ''http'' then Some Http
      else if url_scheme (intent_url intent) = ''https'' then Some Https else None) = Some s"
    by (cases s) (simp_all add: assms(6))
  have res: "authorize_connection x c intent ip e = Ret (c\<lparr>co_gateway := g, co_tickets := a, co_audit := au\<rparr>,
      Inr \<lparr>ca_decision = d, ca_ticket = Some t\<rparr>)"
    using assms(3-5,9) i ap
    by (simp add: authorize_connection_def issue_connection_def h sc assms(7) append_issue_event_def Let_def case_prod_unfold)
  show thesis by (rule that [OF _ h _ res]) (simp_all add: i)
qed

section \<open>Properties\<close>

text \<open>
  C23: An allowed request gets a ticket bound to it. When the gateway allows a request whose URL has
  the scheme http or https and a nonzero port, and the chosen address is one of those resolved, then
  authorizing the connection returns the decision with a ticket: issued at the elapsed milliseconds
  for five seconds, for the decision, the normalized host, the scheme and port of the URL and the
  chosen address. (SHA-256 yields 32 bytes, the transport serializer succeeds, and the expiry does
  not overflow.)
\<close>

theorem allowed_request_gets_ticket:
  assumes "\<And>b. length (sha256 x b) = 32" "\<And>m. \<exists>b. ser_transport x m = Inr b"
    "authorize x (co_gateway c) intent e = Ret (g, Inr d)" "decision_outcome d = Allow"
    "ip \<in> set (intent_resolved_ips intent)" "url_scheme (intent_url intent) = transport_scheme_code s"
    "url_port_or_known_default (intent_url intent) = Some port" "port \<noteq> 0" "co_ttl c = 5000"
    "unat (duration_milliseconds_saturated e) + 5000 < 2 ^ 64"
  shows "\<exists>c' t. authorize_connection x c intent ip e = Ret (c', Inr \<lparr>ca_decision = d, ca_ticket = Some t\<rparr>)
    \<and> co_gateway c' = g \<and> coordinator_ticket c' (ct_ticket_id t) = Some t
    \<and> sanctioned_by {Connect intent ip e} (gw_policy (co_gateway c)) (gw_maximum_redirects (co_gateway c)) t
    \<and> ct_decision_id t = normalize_identifier (decision_id d)"
  using assms
proof (rule allowed_connect)
  fix c' t h
  assume i: "issue (sha256 x) (co_tickets c) (ticket_request intent ip e d (to_ascii_lowercase h) s port 5000 (tail_hash (gw_audit g)))
      = (co_tickets c', Inr t)" and h: "url_host_str (intent_url intent) = Some h" and g: "co_gateway c' = g"
    and res: "authorize_connection x c intent ip e = Ret (c', Inr \<lparr>ca_decision = d, ca_ticket = Some t\<rparr>)"
  have "coordinator_ticket c' (ct_ticket_id t) = Some t"
    by (rule issue_Inr [OF i]) (simp add: coordinator_ticket_def ticket_of_def update_conv')
  then show ?thesis using res g issue_sanctioned [OF assms(3-5) h assms(6,7) i] by auto
qed

text \<open>
  C6: Every permit goes back to a request the policy allows. In any history of a new coordinator, a
  permit that is handed out comes from a use of a ticket within its five seconds, after a connection
  request of the history for which the gateway decided to allow and the authority issued that very
  ticket. The policy allows the URL and method of the request, its redirect depth is within the
  limit, all its resolved addresses are public and are the pinned ones, and the permit is for the
  chosen one of them, for the scheme and the port of the URL, with the host of the URL as its server
  name (under https) and in its authority.
\<close>

theorem permits_are_sanctioned:
  assumes "coordinator_run x ops (coordinator_new g) = Ret (c', ps)" "p \<in> set ps"
  shows "\<exists>pre intent ip e mid att now post c qs t.
      ops = pre @ Connect intent ip e # mid @ Use att now # post
    \<and> coordinator_run x pre (coordinator_new g) = Ret (c, qs) \<and> ticket_issued_by x c intent ip e t
    \<and> sanctioned_by {Connect intent ip e} (gw_policy g) (gw_maximum_redirects g) t
    \<and> at_ticket_id att = ct_ticket_id t \<and> ct_issued_at t \<le> duration_milliseconds_saturated now
    \<and> duration_milliseconds_saturated now \<le> ct_expires_at t
    \<and> p = permit_of t \<and> is_public_destination (pm_remote_ip p)"
proof -
  have new: "gw_policy (co_gateway (coordinator_new g)) = gw_policy g"
    "gw_maximum_redirects (co_gateway (coordinator_new g)) = gw_maximum_redirects g" "co_ttl (coordinator_new g) = 5000"
    by (simp_all add: coordinator_new_def DEFAULT_TICKET_TTL_MILLISECONDS_def)
  obtain used att now post c1 qs c2 r where u: "ops = used @ Use att now # post"
    "coordinator_run x used (coordinator_new g) = Ret (c1, qs)" "consume_connection_ticket x c1 att now = (c2, r)"
    "p \<in> set (granted r)" using coordinator_run_permit [OF assms] by blast
  obtain t where t: "issued_in x (coordinator_new g) used t" "p = permit_of t" "at_ticket_id att = ct_ticket_id t"
    "ct_issued_at t \<le> duration_milliseconds_saturated now" "duration_milliseconds_saturated now \<le> ct_expires_at t"
    using granted_ticket [OF coordinator_run_came_from [OF u(2)] u(3,4)] by blast
  obtain pre intent ip e mid c qs' where c: "used = pre @ Connect intent ip e # mid"
    "coordinator_run x pre (coordinator_new g) = Ret (c, qs')" "ticket_issued_by x c intent ip e t"
    "gw_policy (co_gateway c) = gw_policy g" "gw_maximum_redirects (co_gateway c) = gw_maximum_redirects g" "co_ttl c = 5000"
    using t(1) unfolding issued_in_def new by blast
  have s: "sanctioned_by {Connect intent ip e} (gw_policy g) (gw_maximum_redirects g) t"
    using ticket_issued_by_sanctioned [OF c(3,6)] c(4,5) by simp
  then have "is_public_destination (pm_remote_ip p)" unfolding sanctioned_by_def by (auto simp: t(2) permit_of_def)
  moreover have "ops = pre @ Connect intent ip e # mid @ Use att now # post" using u(1) c(1) by simp
  ultimately show ?thesis using c(2,3) s t(2-5) by blast
qed

text \<open>
  C16: Live tickets and open connections never exceed the concurrency limit. Whatever a client does
  that completes only requests it holds a permit for, the tickets that can still be used together
  with the permits not yet completed are at most the requests in flight, and these are at most the
  policy's limit.
\<close>

theorem connections_within_concurrency:
  assumes "gateway_new policy m = Inr g" "is_f64 (maximum_requests_per_second policy)"
    "(slot_step x)\<^sup>*\<^sup>* (coordinator_new g, 0) (c, held)"
  shows "issued_count (co_tickets c) + held \<le> unat (in_flight_requests (co_gateway c))
    \<and> in_flight_requests (co_gateway c) \<le> maximum_concurrency policy"
proof -
  have "slots_ok x (maximum_concurrency policy) (coordinator_new g, 0)"
    using gateway_new_wf(1,4) [OF assms(1,2)] authority_new_wf
    by (auto simp: slots_ok_def coordinator_new_def) (simp add: live_def ticket_authority_new_def)
  from slots_reachable [OF assms(3) this] have s: "slots_ok x (maximum_concurrency policy) (c, held)" .
  then have "issued_count (co_tickets c) = card (live (co_tickets c))"
    by (intro issued_count_live) (simp add: slots_ok_def authority_wf_def)
  then show ?thesis using s by (auto simp: slots_ok_def gateway_wf_def budget_wf_def)
qed

section \<open>Witnesses\<close>

definition sample_transport_ext :: transport_ext where
  "sample_transport_ext =
     \<lparr>sha256 = \<lambda>_. replicate 32 (CHR 0x01), ser_audit = toy_ser, url_to_string = url_path,
      ser_transport = \<lambda>_. Inr []\<rparr>"

definition sample_use :: connection_attempt where
  "sample_use =
     \<lparr>at_ticket_id = ''ticket-00000000000000000001'', at_dns_context_id = ''c'', at_scheme = Https,
      at_remote_ip = V4 0x08080808, at_port = 443, at_sni = Some ''a.io'', at_http_host = ''a.io'',
      at_redirect_depth = 0\<rparr>"

lemma sample_ext_ok:
  "length (sha256 sample_transport_ext b) = 32" "\<exists>b. ser_transport sample_transport_ext m = Inr b"
  "\<exists>b. ser_audit sample_transport_ext a = Inr b"
  by (simp_all add: sample_transport_ext_def toy_ser_def)

lemma sample_transport_allowed:
  "\<exists>g d. authorize sample_transport_ext sample_gateway (sample_intent 0x08080808) 0 = Ret (g, Inr d) \<and> decision_outcome d = Allow"
proof -
  have "pin_or_validate (gw_dns_pins sample_gateway) sample_observed = (sample_pins, Inr Pinned)"
    using sample_pinned by (simp add: sample_gateway_def)
  from authorize_returns [OF sample_ext_ok(3) sample_admissible [OF _ _ this] sample_started(1)]
  show ?thesis by (auto simp: sample_gateway_def)
qed

lemma sample_intent_url:
  "url_scheme (intent_url (sample_intent ip)) = transport_scheme_code Https"
  "url_port_or_known_default (intent_url (sample_intent ip)) = Some 443" "(443 :: u16) \<noteq> 0"
  "co_ttl (coordinator_new sample_gateway) = 5000" "V4 ip \<in> set (intent_resolved_ips (sample_intent ip))"
  "unat (duration_milliseconds_saturated 0) + 5000 < 2 ^ 64"
  by (simp_all add: sample_intent_def sample_url_def coordinator_new_def DEFAULT_TICKET_TTL_MILLISECONDS_def
      duration_milliseconds_saturated_def as_millis_def)

theorem allowed_request_gets_ticket_witness:
  "\<exists>c d t. authorize_connection sample_transport_ext (coordinator_new sample_gateway) (sample_intent 0x08080808)
      (V4 0x08080808) 0 = Ret (c, Inr \<lparr>ca_decision = d, ca_ticket = Some t\<rparr>) \<and> ct_selected_ip t = V4 0x08080808"
proof -
  obtain g d where a: "authorize sample_transport_ext (co_gateway (coordinator_new sample_gateway)) (sample_intent 0x08080808) 0 = Ret (g, Inr d)"
    "decision_outcome d = Allow" using sample_transport_allowed by (auto simp: coordinator_new_def)
  show ?thesis
    using allowed_request_gets_ticket [OF sample_ext_ok(1,2) a sample_intent_url(5,1,2,3,4,6)]
    by (auto simp: sanctioned_by_def)
qed

lemma sample_connected:
  obtains c d t where "authorize_connection sample_transport_ext (coordinator_new sample_gateway) (sample_intent 0x08080808)
      (V4 0x08080808) 0 = Ret (c, Inr \<lparr>ca_decision = d, ca_ticket = Some t\<rparr>)"
    "map_of (tickets (co_tickets c)) ''ticket-00000000000000000001'' = Some \<lparr>st_ticket = t, st_state = Issued\<rparr>"
    "list_all fst (binding_checks sample_use t)" "ct_issued_at t = 0" "ct_expires_at t = 5000" "ct_selected_ip t = V4 0x08080808"
proof -
  obtain g d where a: "authorize sample_transport_ext (co_gateway (coordinator_new sample_gateway)) (sample_intent 0x08080808) 0 = Ret (g, Inr d)"
    "decision_outcome d = Allow" using sample_transport_allowed by (auto simp: coordinator_new_def)
  obtain c t h where c: "issue (sha256 sample_transport_ext) (co_tickets (coordinator_new sample_gateway))
      (ticket_request (sample_intent 0x08080808) (V4 0x08080808) 0 d (to_ascii_lowercase h) Https 443 5000 (tail_hash (gw_audit g)))
      = (co_tickets c, Inr t)" "url_host_str (intent_url (sample_intent 0x08080808)) = Some h"
    "authorize_connection sample_transport_ext (coordinator_new sample_gateway) (sample_intent 0x08080808)
      (V4 0x08080808) 0 = Ret (c, Inr \<lparr>ca_decision = d, ca_ticket = Some t\<rparr>)"
    by (rule allowed_connect [OF sample_ext_ok(1,2) a sample_intent_url(5,1,2,3,4,6)])
  have h: "h = ''a.io''" using c(2) by (simp add: sample_intent_def sample_url_def)
  have n: "normalize_host ''a.io'' = ''a.io''" "normalize_identifier ''c'' = ''c''" "normalize_authority ''a.io'' = ''a.io''"
    "ticket_name 1 = ''ticket-00000000000000000001''" "expected_http_host ''a.io'' Https 443 = ''a.io''"
    "duration_milliseconds_saturated 0 = 0"
    by code_simp+
  have v: "is_valid_identifier (decision_id d)" "is_valid_identifier (intent_dns_context_id (sample_intent 0x08080808))"
    "is_valid_host h"
    using authorize_tail [OF a(1) sample_ext_ok(1)] fresh_id_valid [of "co_gateway (coordinator_new sample_gateway)"]
    unfolding h by (simp, code_simp, code_simp)
  note b = ticket_request_binding [OF v sample_intent_url(3,5), of 0 Https 5000 "tail_hash (gw_audit g)"]
  have "ct_host t = ''a.io'' \<and> ct_dns_context_id t = ''c'' \<and> ct_scheme t = Https \<and> ct_port t = 443
    \<and> ct_redirect_depth t = 0 \<and> ct_selected_ip t = V4 0x08080808 \<and> ct_issued_at t = 0 \<and> ct_expires_at t = 5000 \<and> ticket_wf t
    \<and> map_of (tickets (co_tickets c)) (ticket_name 1) = Some \<lparr>st_ticket = t, st_state = Issued\<rparr>"
  proof (rule issue_Inr [OF c(1)], goal_cases)
    case (1 b')
    have "b' = projr (normalize_and_validate_binding (req_binding (ticket_request (sample_intent 0x08080808)
        (V4 0x08080808) 0 d (to_ascii_lowercase h) Https 443 5000 (tail_hash (gw_audit g)))))" using 1(1) by simp
    then have b': "tb_host b' = ''a.io''" "tb_dns_context_id b' = ''c''" "tb_scheme b' = Https" "tb_port b' = 443"
      "tb_redirect_depth b' = 0" "tb_selected_ip b' = V4 0x08080808"
      unfolding b by (simp_all add: h n sample_intent_def)
    have "req_issued_at (ticket_request (sample_intent 0x08080808) (V4 0x08080808) 0 d (to_ascii_lowercase h) Https 443 5000
        (tail_hash (gw_audit g))) = 0" "req_ttl (ticket_request (sample_intent 0x08080808) (V4 0x08080808) 0 d
        (to_ascii_lowercase h) Https 443 5000 (tail_hash (gw_audit g))) = 5000"
      using n(6) by (simp_all add: ticket_request_def)
    then show ?case using 1(2-) b'
      by (simp add: coordinator_new_def ticket_authority_new_def update_conv')
  qed
  then show thesis using c(3) n(1-5)
    by (intro that [of c d t]) (simp_all add: binding_checks_def sample_use_def ticket_wf_def)
qed

lemma sample_history:
  "\<exists>c p. coordinator_run sample_transport_ext [Connect (sample_intent 0x08080808) (V4 0x08080808) 0, Use sample_use 0]
     (coordinator_new sample_gateway) = Ret (c, [p])"
proof (rule sample_connected, goal_cases)
  case (1 c d t)
  have "consume (co_tickets c) sample_use (duration_milliseconds_saturated 0) =
    (fst (consume (co_tickets c) sample_use (duration_milliseconds_saturated 0)),
     \<lparr>use_outcome = UseConsumed, use_ticket = Some t, use_attempt = sample_use, use_permit = Some (permit_of t)\<rparr>)"
    using 1(2-5) find_none_all [of "binding_checks sample_use t"]
    by (simp add: consume_def sample_use_def duration_milliseconds_saturated_def as_millis_def Let_def)
  then obtain a where u: "consume (co_tickets c) sample_use (duration_milliseconds_saturated 0) =
    (a, \<lparr>use_outcome = UseConsumed, use_ticket = Some t, use_attempt = sample_use, use_permit = Some (permit_of t)\<rparr>)" by blast
  have "\<exists>c2 q. consume_connection_ticket sample_transport_ext c sample_use 0 = (c2, Inr q) \<and> use_permit q = Some (permit_of t)"
    using transport_append_total [OF sample_ext_ok(2)]
    by (auto simp: consume_connection_ticket_def u append_use_event_def Let_def split: prod.splits sum.splits)
      (metis Pair_inject sum.distinct(1) sum.inject(2))
  then show ?case using 1(1) by (auto simp: granted_def)
qed

theorem permits_are_sanctioned_witness:
  "\<exists>c p t. coordinator_run sample_transport_ext [Connect (sample_intent 0x08080808) (V4 0x08080808) 0, Use sample_use 0]
     (coordinator_new sample_gateway) = Ret (c, [p]) \<and> p = permit_of t
     \<and> ticket_issued_by sample_transport_ext (coordinator_new sample_gateway) (sample_intent 0x08080808) (V4 0x08080808) 0 t"
proof -
  let ?a = "Connect (sample_intent 0x08080808) (V4 0x08080808) 0" and ?b = "Use sample_use 0"
  obtain c p where c: "coordinator_run sample_transport_ext [?a, ?b] (coordinator_new sample_gateway) = Ret (c, [p])"
    using sample_history by blast
  obtain pre intent ip e mid att now post c1 qs t where
    t: "[?a, ?b] = pre @ Connect intent ip e # mid @ Use att now # post"
    "coordinator_run sample_transport_ext pre (coordinator_new sample_gateway) = Ret (c1, qs)"
    "ticket_issued_by sample_transport_ext c1 intent ip e t" "p = permit_of t"
    using permits_are_sanctioned [OF c, of p] by auto
  then have "pre = []" "Connect intent ip e = ?a" by (auto simp: Cons_eq_append_conv append_eq_Cons_conv)
  then show ?thesis using c t(2-4) by auto
qed

theorem connections_within_concurrency_witness:
  "\<exists>c. (slot_step sample_transport_ext)\<^sup>*\<^sup>* (coordinator_new sample_gateway, 0) (c, 0)
     \<and> issued_count (co_tickets c) + 0 \<le> unat (in_flight_requests (co_gateway c))
     \<and> in_flight_requests (co_gateway c) \<le> maximum_concurrency sample_compiled"
proof (rule sample_connected, goal_cases)
  case (1 c d t)
  have s: "(slot_step sample_transport_ext)\<^sup>*\<^sup>* (coordinator_new sample_gateway, 0) (c, 0)"
    by (rule r_into_rtranclp) (rule slot_step.connect [OF 1(1)])
  show ?case
    using s connections_within_concurrency [OF sample_gateway_new _ s]
    by (auto simp: sample_compiled_def sample_policy_def round64_two)
qed

end
