(* ===== verification/Executor.thy ===== *)
theory Executor
  imports Transport Hash_Chain
begin

text \<open>
  The crate \<open>nxb-executor\<close>: it runs a backend for a permit and classifies what the backend reports.
  The backend is a trait of the program: its \<open>execute\<close> is a parameter of the executor, and the
  synthetic backend of the crate is one instance. The serializers and SHA-256 are in the record
  \<open>executor_ext\<close>.
\<close>

section \<open>Data\<close>

definition MAX_CONNECT_TIMEOUT_MILLISECONDS :: u64 where
  "MAX_CONNECT_TIMEOUT_MILLISECONDS = 30000"

definition MAX_TOTAL_TIMEOUT_MILLISECONDS :: u64 where
  "MAX_TOTAL_TIMEOUT_MILLISECONDS = 120000"

definition MAX_DIRECTION_BYTES :: u64 where
  "MAX_DIRECTION_BYTES = 64 * 1024 * 1024"

definition EXECUTOR_AUDIT_GENESIS_HASH :: string where
  "EXECUTOR_AUDIT_GENESIS_HASH = replicate 64 (CHR ''0'')"

record execution_limits =
  connect_timeout :: u64
  total_timeout :: u64
  maximum_read_bytes :: u64
  maximum_write_bytes :: u64

record execution_control =
  cancel_requested :: bool
  emergency_stop_requested :: bool

datatype execution_state =
  Prepared | Connecting | Connected | Completed | Cancelled | EmergencyStopped | TimedOut
| BudgetRejected | BackendFailed | PermitRejected

fun execution_state_code :: "execution_state \<Rightarrow> string" where
  "execution_state_code Prepared = ''prepared''"
| "execution_state_code Connecting = ''connecting''"
| "execution_state_code Connected = ''connected''"
| "execution_state_code Completed = ''completed''"
| "execution_state_code Cancelled = ''cancelled''"
| "execution_state_code EmergencyStopped = ''emergency_stopped''"
| "execution_state_code TimedOut = ''timed_out''"
| "execution_state_code BudgetRejected = ''budget_rejected''"
| "execution_state_code BackendFailed = ''backend_failed''"
| "execution_state_code PermitRejected = ''permit_rejected''"

datatype execution_outcome =
  OCompleted | OCancelled | OEmergencyStopped | OConnectTimeout | OTotalTimeout
| OReadBudgetExceeded | OWriteBudgetExceeded | OBackendFailure string | OPermitIntegrityRejected string

fun execution_outcome_code :: "execution_outcome \<Rightarrow> string" where
  "execution_outcome_code OCompleted = ''completed''"
| "execution_outcome_code OCancelled = ''cancelled''"
| "execution_outcome_code OEmergencyStopped = ''emergency_stopped''"
| "execution_outcome_code OConnectTimeout = ''connect_timeout''"
| "execution_outcome_code OTotalTimeout = ''total_timeout''"
| "execution_outcome_code OReadBudgetExceeded = ''read_budget_exceeded''"
| "execution_outcome_code OWriteBudgetExceeded = ''write_budget_exceeded''"
| "execution_outcome_code (OBackendFailure _) = ''backend_failure''"
| "execution_outcome_code (OPermitIntegrityRejected _) = ''permit_integrity_rejected''"

fun terminal_state :: "execution_outcome \<Rightarrow> execution_state" where
  "terminal_state OCompleted = Completed"
| "terminal_state OCancelled = Cancelled"
| "terminal_state OEmergencyStopped = EmergencyStopped"
| "terminal_state OConnectTimeout = TimedOut"
| "terminal_state OTotalTimeout = TimedOut"
| "terminal_state OReadBudgetExceeded = BudgetRejected"
| "terminal_state OWriteBudgetExceeded = BudgetRejected"
| "terminal_state (OBackendFailure _) = BackendFailed"
| "terminal_state (OPermitIntegrityRejected _) = PermitRejected"

fun outcome_details :: "execution_outcome \<Rightarrow> (string \<times> string) list" where
  "outcome_details (OBackendFailure backend_code) = AList.update ''backend_code'' backend_code []"
| "outcome_details (OPermitIntegrityRejected reason) = AList.update ''reason'' reason []"
| "outcome_details _ = []"

record backend_report =
  rp_connected_after :: "u64 option"
  rp_elapsed :: u64
  rp_read_bytes :: u64
  rp_written_bytes :: u64
  rp_failure_code :: "string option"

record permit_endpoint =
  ep_ticket_id :: string
  ep_decision_id :: string
  ep_dns_context_id :: string
  ep_scheme :: transport_scheme
  ep_remote_ip :: ip_addr
  ep_port :: u16
  ep_sni :: "string option"
  ep_http_host :: string
  ep_redirect_depth :: u8
  ep_binding_hash :: string

type_synonym 'b backend =
  "'b \<Rightarrow> permit_endpoint \<Rightarrow> execution_limits \<Rightarrow> execution_control \<Rightarrow> 'b \<times> backend_report"

record execution_receipt =
  rc_execution_id :: string
  rc_executor_id :: string
  rc_ticket_id :: string
  rc_decision_id :: string
  rc_dns_context_id :: string
  rc_transport_audit_anchor :: string
  rc_binding_hash :: string
  rc_endpoint_fingerprint :: string
  rc_outcome :: execution_outcome
  rc_state_history :: "execution_state list"
  rc_connected_after :: "u64 option"
  rc_elapsed :: u64
  rc_read_bytes :: u64
  rc_written_bytes :: u64

record executor_audit_event =
  xe_execution_id :: string
  xe_executor_id :: string
  xe_ticket_id :: string
  xe_decision_id :: string
  xe_dns_context_id :: string
  xe_transport_audit_anchor :: string
  xe_binding_hash :: string
  xe_endpoint_fingerprint :: string
  xe_remote_ip :: string
  xe_port :: u16
  xe_scheme :: string
  xe_sni :: "string option"
  xe_http_host :: string
  xe_redirect_depth :: u8
  xe_outcome :: string
  xe_outcome_details :: "(string \<times> string) list"
  xe_state_history :: "string list"
  xe_connected_after :: "u64 option"
  xe_elapsed :: u64
  xe_read_bytes :: u64
  xe_written_bytes :: u64

type_synonym executor_audit_chain = "executor_audit_event chain"

record fingerprint_material =
  fm_ticket_id :: string
  fm_decision_id :: string
  fm_dns_context_id :: string
  fm_scheme :: string
  fm_remote_ip :: ip_addr
  fm_port :: u16
  fm_sni :: "string option"
  fm_http_host :: string
  fm_redirect_depth :: u8
  fm_binding_hash :: string
  fm_transport_audit_anchor :: string

record executor_ext =
  ex_sha256 :: "string \<Rightarrow> string"
  ser_executor :: "u64 \<times> string \<times> executor_audit_event \<Rightarrow> string + string"
  ser_fingerprint :: "fingerprint_material \<Rightarrow> string + string"

record 'b permit_executor =
  px_executor_id :: string
  px_backend :: 'b
  px_audit :: executor_audit_chain
  px_next_execution_id :: u64

datatype executor_error =
  InvalidExecutorId | InvalidLimits string | InvalidTransportAuditAnchor | ExecutorAudit chain_error

section \<open>Limits\<close>

definition conservative_default :: execution_limits where
  "conservative_default =
     \<lparr>connect_timeout = 5000, total_timeout = 15000,
      maximum_read_bytes = 2 * 1024 * 1024, maximum_write_bytes = 256 * 1024\<rparr>"

definition validate_limits :: "execution_limits \<Rightarrow> executor_error + execution_limits" where
  "validate_limits l =
     (if connect_timeout l = 0 \<or> connect_timeout l > MAX_CONNECT_TIMEOUT_MILLISECONDS then
        Inl (InvalidLimits ''connect timeout is outside the supported range'')
      else if total_timeout l < connect_timeout l \<or> total_timeout l > MAX_TOTAL_TIMEOUT_MILLISECONDS then
        Inl (InvalidLimits ''total timeout must cover connect timeout and remain bounded'')
      else if maximum_read_bytes l = 0 \<or> maximum_read_bytes l > MAX_DIRECTION_BYTES then
        Inl (InvalidLimits ''read byte budget is outside the supported range'')
      else if maximum_write_bytes l = 0 \<or> maximum_write_bytes l > MAX_DIRECTION_BYTES then
        Inl (InvalidLimits ''write byte budget is outside the supported range'')
      else Inr l)"

section \<open>The audit chain\<close>

definition executor_audit_new :: executor_audit_chain where
  "executor_audit_new = \<lparr>chain_records = [], tail_hash = EXECUTOR_AUDIT_GENESIS_HASH\<rparr>"

definition executor_record_hash :: "executor_ext \<Rightarrow> executor_audit_event record_hash" where
  "executor_record_hash x = chain_hash (ser_executor x) (ex_sha256 x)"

definition executor_append ::
  "executor_ext \<Rightarrow> executor_audit_chain \<Rightarrow> executor_audit_event
     \<Rightarrow> executor_audit_chain \<times> (chain_error + executor_audit_event chain_record)" where
  "executor_append x = chain_append (executor_record_hash x)"

definition executor_verify :: "executor_ext \<Rightarrow> executor_audit_chain \<Rightarrow> chain_error + unit" where
  "executor_verify x = chain_verify (executor_record_hash x) EXECUTOR_AUDIT_GENESIS_HASH"

interpretation executor_log: audit_log "executor_append x" "executor_verify x" chain_events
  for x
  by unfold_locales
    (auto simp: executor_append_def executor_verify_def chain_append_Inr dest: chain_append_Inl
      intro: chain_append_verify)

section \<open>Permits and reports\<close>

definition empty_report :: backend_report where
  "empty_report =
     \<lparr>rp_connected_after = None, rp_elapsed = 0, rp_read_bytes = 0, rp_written_bytes = 0, rp_failure_code = None\<rparr>"

definition endpoint_from_permit :: "transport_permit \<Rightarrow> permit_endpoint" where
  "endpoint_from_permit p =
     \<lparr>ep_ticket_id = pm_ticket_id p, ep_decision_id = pm_decision_id p,
      ep_dns_context_id = pm_dns_context_id p, ep_scheme = pm_scheme p, ep_remote_ip = pm_remote_ip p,
      ep_port = pm_port p, ep_sni = pm_sni p, ep_http_host = pm_http_host p,
      ep_redirect_depth = pm_redirect_depth p, ep_binding_hash = pm_binding_hash p\<rparr>"

definition validate_permit :: "transport_permit \<Rightarrow> string + unit" where
  "validate_permit p =
     (if \<not> is_valid_identifier (pm_ticket_id p) then Inl ''invalid_ticket_id''
      else if \<not> is_valid_identifier (pm_decision_id p) then Inl ''invalid_decision_id''
      else if \<not> is_valid_identifier (pm_dns_context_id p) then Inl ''invalid_dns_context_id''
      else if pm_port p = 0 then Inl ''zero_port''
      else if \<not> is_lower_hex_sha256 (pm_binding_hash p) then Inl ''invalid_binding_hash''
      else if trim (pm_http_host p) = [] \<or> CHR ''/'' \<in> set (pm_http_host p)
              \<or> CHR 0x5C \<in> set (pm_http_host p) \<or> CHR ''@'' \<in> set (pm_http_host p)
        then Inl ''invalid_http_host''
      else case pm_scheme p of
        Http \<Rightarrow> (if pm_sni p \<noteq> None then Inl ''unexpected_http_sni'' else Inr ())
      | Https \<Rightarrow>
          (case pm_sni p of
             Some v \<Rightarrow> if trim v \<noteq> [] then Inr () else Inl ''missing_https_sni''
           | None \<Rightarrow> Inl ''missing_https_sni''))"

definition sanitize_backend_code :: "string \<Rightarrow> string" where
  "sanitize_backend_code value =
     (let normalized = to_ascii_lowercase (trim value) in
      if is_valid_identifier normalized then normalized else ''invalid_backend_code'')"

definition classify_report :: "backend_report \<Rightarrow> execution_limits \<Rightarrow> execution_outcome" where
  "classify_report r l =
     (case rp_failure_code r of
        Some code \<Rightarrow> OBackendFailure (sanitize_backend_code code)
      | None \<Rightarrow>
          (case rp_connected_after r of
             None \<Rightarrow> OBackendFailure ''backend_did_not_connect''
           | Some connected_after \<Rightarrow>
               if connected_after > connect_timeout l then OConnectTimeout
               else if rp_elapsed r > total_timeout l then OTotalTimeout
               else if rp_read_bytes r > maximum_read_bytes l then OReadBudgetExceeded
               else if rp_written_bytes r > maximum_write_bytes l then OWriteBudgetExceeded
               else OCompleted))"

text \<open>A serializer that fails makes \<open>expect\<close> panic.\<close>

definition endpoint_fingerprint :: "executor_ext \<Rightarrow> transport_permit \<Rightarrow> string \<Rightarrow> string run" where
  "endpoint_fingerprint x p anchor =
     (case ser_fingerprint x
         \<lparr>fm_ticket_id = pm_ticket_id p, fm_decision_id = pm_decision_id p,
          fm_dns_context_id = pm_dns_context_id p, fm_scheme = transport_scheme_code (pm_scheme p),
          fm_remote_ip = pm_remote_ip p, fm_port = pm_port p, fm_sni = pm_sni p,
          fm_http_host = pm_http_host p, fm_redirect_depth = pm_redirect_depth p,
          fm_binding_hash = pm_binding_hash p, fm_transport_audit_anchor = anchor\<rparr> of
        Inl _ \<Rightarrow> Panic
      | Inr bytes \<Rightarrow> Ret (to_lower_hex (ex_sha256 x bytes)))"

section \<open>The executor\<close>

definition executor_new :: "string \<Rightarrow> 'b \<Rightarrow> executor_error + 'b permit_executor" where
  "executor_new executor_id backend =
     (if \<not> is_valid_identifier executor_id then Inl InvalidExecutorId
      else Inr \<lparr>px_executor_id = executor_id, px_backend = backend, px_audit = executor_audit_new,
                px_next_execution_id = 1\<rparr>)"

definition allocate_execution_id :: "'b permit_executor \<Rightarrow> 'b permit_executor \<times> string" where
  "allocate_execution_id e =
     (let v = px_next_execution_id e in
      (e\<lparr>px_next_execution_id := saturating_add v 1\<rparr>, ''execution-'' @ decimal_pad 20 (unat v)))"

definition receipt_event :: "transport_permit \<Rightarrow> execution_receipt \<Rightarrow> executor_audit_event" where
  "receipt_event p rc =
     \<lparr>xe_execution_id = rc_execution_id rc, xe_executor_id = rc_executor_id rc,
      xe_ticket_id = rc_ticket_id rc, xe_decision_id = rc_decision_id rc,
      xe_dns_context_id = rc_dns_context_id rc, xe_transport_audit_anchor = rc_transport_audit_anchor rc,
      xe_binding_hash = rc_binding_hash rc, xe_endpoint_fingerprint = rc_endpoint_fingerprint rc,
      xe_remote_ip = ip_to_string (pm_remote_ip p), xe_port = pm_port p,
      xe_scheme = transport_scheme_code (pm_scheme p), xe_sni = pm_sni p, xe_http_host = pm_http_host p,
      xe_redirect_depth = pm_redirect_depth p, xe_outcome = execution_outcome_code (rc_outcome rc),
      xe_outcome_details = outcome_details (rc_outcome rc),
      xe_state_history = map execution_state_code (rc_state_history rc),
      xe_connected_after = rc_connected_after rc, xe_elapsed = rc_elapsed rc,
      xe_read_bytes = rc_read_bytes rc, xe_written_bytes = rc_written_bytes rc\<rparr>"

definition append_receipt ::
  "executor_ext \<Rightarrow> 'b permit_executor \<Rightarrow> transport_permit \<Rightarrow> execution_receipt
     \<Rightarrow> 'b permit_executor \<times> (chain_error + unit)" where
  "append_receipt x e p rc =
     (case executor_append x (px_audit e) (receipt_event p rc) of
        (audit, Inl err) \<Rightarrow> (e\<lparr>px_audit := audit\<rparr>, Inl err)
      | (audit, Inr _) \<Rightarrow> (e\<lparr>px_audit := audit\<rparr>, Inr ()))"

text \<open>The chain of conditions in \<open>execute\<close>: the backend afterwards, the states so far, report and outcome.\<close>

definition attempt_execution ::
  "'b backend \<Rightarrow> 'b \<Rightarrow> transport_permit \<Rightarrow> execution_limits \<Rightarrow> execution_control
     \<Rightarrow> 'b \<times> execution_state list \<times> backend_report \<times> execution_outcome" where
  "attempt_execution run_backend b p l ctl =
     (case validate_permit p of
        Inl reason \<Rightarrow> (b, [Prepared], empty_report, OPermitIntegrityRejected reason)
      | Inr _ \<Rightarrow>
          if emergency_stop_requested ctl then (b, [Prepared], empty_report, OEmergencyStopped)
          else if cancel_requested ctl then (b, [Prepared], empty_report, OCancelled)
          else
            let (b, report) = run_backend b (endpoint_from_permit p) l ctl;
                states = [Prepared, Connecting] @ (if rp_connected_after report \<noteq> None then [Connected] else []) in
            (b, states, report, classify_report report l))"

definition execute ::
  "executor_ext \<Rightarrow> 'b backend \<Rightarrow> 'b permit_executor \<Rightarrow> transport_permit \<Rightarrow> string \<Rightarrow> execution_limits
     \<Rightarrow> execution_control \<Rightarrow> ('b permit_executor \<times> (executor_error + execution_receipt)) run" where
  "execute x run_backend e p anchor limits ctl =
     (case validate_limits limits of
        Inl err \<Rightarrow> Ret (e, Inl err)
      | Inr l \<Rightarrow>
          if \<not> is_lower_hex_sha256 anchor then Ret (e, Inl InvalidTransportAuditAnchor)
          else
            let (e, execution_id) = allocate_execution_id e in
            (case endpoint_fingerprint x p anchor of
               Panic \<Rightarrow> Panic
             | Ret fingerprint \<Rightarrow>
                 let (b, states, report, outcome) = attempt_execution run_backend (px_backend e) p l ctl;
                     e = e\<lparr>px_backend := b\<rparr>;
                     rc = \<lparr>rc_execution_id = execution_id, rc_executor_id = px_executor_id e,
                       rc_ticket_id = pm_ticket_id p, rc_decision_id = pm_decision_id p,
                       rc_dns_context_id = pm_dns_context_id p, rc_transport_audit_anchor = anchor,
                       rc_binding_hash = pm_binding_hash p, rc_endpoint_fingerprint = fingerprint,
                       rc_outcome = outcome, rc_state_history = states @ [terminal_state outcome],
                       rc_connected_after = rp_connected_after report, rc_elapsed = rp_elapsed report,
                       rc_read_bytes = rp_read_bytes report, rc_written_bytes = rp_written_bytes report\<rparr> in
                 (case append_receipt x e p rc of
                    (e, Inl err) \<Rightarrow> Ret (e, Inl (ExecutorAudit err))
                  | (e, Inr _) \<Rightarrow> Ret (e, Inr rc))))"

section \<open>The synthetic backend\<close>

record synthetic_scenario =
  sc_connected_after :: "u64 option"
  sc_elapsed :: u64
  sc_read_bytes :: u64
  sc_written_bytes :: u64
  sc_failure_code :: "string option"

definition scenario_success :: "u64 \<Rightarrow> u64 \<Rightarrow> u64 \<Rightarrow> u64 \<Rightarrow> synthetic_scenario" where
  "scenario_success connected_after elapsed read_bytes written_bytes =
     \<lparr>sc_connected_after = Some connected_after, sc_elapsed = elapsed, sc_read_bytes = read_bytes,
      sc_written_bytes = written_bytes, sc_failure_code = None\<rparr>"

definition scenario_failure :: "string \<Rightarrow> u64 \<Rightarrow> synthetic_scenario" where
  "scenario_failure code elapsed =
     \<lparr>sc_connected_after = None, sc_elapsed = elapsed, sc_read_bytes = 0, sc_written_bytes = 0,
      sc_failure_code = Some code\<rparr>"

record synthetic_observation =
  so_ticket_id :: string
  so_decision_id :: string
  so_dns_context_id :: string
  so_scheme :: string
  so_remote_ip :: string
  so_port :: u16
  so_sni :: "string option"
  so_http_host :: string
  so_redirect_depth :: u8
  so_binding_hash :: string

record synthetic_backend =
  scenarios :: "synthetic_scenario list"
  observed_endpoints :: "synthetic_observation list"

definition synthetic_new :: "synthetic_scenario list \<Rightarrow> synthetic_backend" where
  "synthetic_new s = \<lparr>scenarios = s, observed_endpoints = []\<rparr>"

definition synthetic_observe :: "permit_endpoint \<Rightarrow> synthetic_observation" where
  "synthetic_observe ep =
     \<lparr>so_ticket_id = ep_ticket_id ep, so_decision_id = ep_decision_id ep,
      so_dns_context_id = ep_dns_context_id ep, so_scheme = transport_scheme_code (ep_scheme ep),
      so_remote_ip = ip_to_string (ep_remote_ip ep), so_port = ep_port ep, so_sni = ep_sni ep,
      so_http_host = ep_http_host ep, so_redirect_depth = ep_redirect_depth ep,
      so_binding_hash = ep_binding_hash ep\<rparr>"

definition synthetic_execute :: "synthetic_backend backend" where
  "synthetic_execute b ep l ctl =
     (let b = b\<lparr>observed_endpoints := observed_endpoints b @ [synthetic_observe ep]\<rparr>;
          (b, s) = (case scenarios b of
              [] \<Rightarrow> (b, scenario_failure ''synthetic_scenario_exhausted'' 0)
            | s # ss \<Rightarrow> (b\<lparr>scenarios := ss\<rparr>, s)) in
      (b, \<lparr>rp_connected_after = sc_connected_after s, rp_elapsed = sc_elapsed s,
           rp_read_bytes = sc_read_bytes s, rp_written_bytes = sc_written_bytes s,
           rp_failure_code = sc_failure_code s\<rparr>))"

section \<open>The contract of a recording backend\<close>

text \<open>
  A backend that keeps a log of the endpoints it is asked to connect to. The executor hands it the
  endpoint of every valid permit that is neither cancelled nor stopped, in order, and nothing else.
\<close>

definition reaches_backend :: "transport_permit \<Rightarrow> execution_control \<Rightarrow> bool" where
  "reaches_backend p ctl \<longleftrightarrow>
     validate_permit p = Inr () \<and> \<not> emergency_stop_requested ctl \<and> \<not> cancel_requested ctl"

text \<open>Calls that are rejected before an execution id is allocated.\<close>

definition accepted_call :: "string \<Rightarrow> execution_limits \<Rightarrow> bool" where
  "accepted_call anchor l \<longleftrightarrow> validate_limits l = Inr l \<and> is_lower_hex_sha256 anchor"

type_synonym execution_call = "transport_permit \<times> string \<times> execution_limits \<times> execution_control"

text \<open>A history of calls with their results; a panic ends it.\<close>

fun executor_run ::
  "executor_ext \<Rightarrow> 'b backend \<Rightarrow> execution_call list \<Rightarrow> 'b permit_executor
     \<Rightarrow> ('b permit_executor \<times> (executor_error + execution_receipt) list) run" where
  "executor_run x f [] e = Ret (e, [])"
| "executor_run x f ((p, anchor, l, ctl) # cs) e =
     (case execute x f e p anchor l ctl of
        Panic \<Rightarrow> Panic
      | Ret (e1, r) \<Rightarrow>
          (case executor_run x f cs e1 of
             Panic \<Rightarrow> Panic
           | Ret (e2, rs) \<Rightarrow> Ret (e2, r # rs)))"

lemma validate_limits_Inr: "validate_limits l = Inr l' \<Longrightarrow> l' = l"
  by (auto simp: validate_limits_def split: if_split_asm)

lemma validate_limits_bounds:
  assumes "validate_limits l = Inr l'"
  shows "0 < connect_timeout l \<and> connect_timeout l \<le> total_timeout l \<and> connect_timeout l \<le> 30000
    \<and> total_timeout l \<le> 120000 \<and> 0 < maximum_read_bytes l \<and> maximum_read_bytes l \<le> 67108864
    \<and> 0 < maximum_write_bytes l \<and> maximum_write_bytes l \<le> 67108864"
  using assms
  by (auto simp: validate_limits_def MAX_CONNECT_TIMEOUT_MILLISECONDS_def MAX_TOTAL_TIMEOUT_MILLISECONDS_def
      MAX_DIRECTION_BYTES_def not_less word_gt_0 split: if_split_asm)

text \<open>One call, whatever it returns.\<close>

lemma execute_cases:
  assumes "execute x f e p anchor l ctl = Ret (e', r)"
  obtains (refused) "\<not> accepted_call anchor l" "e' = e" "isl r"
  | (accepted) b states report outcome fp rc q where "accepted_call anchor l"
      "endpoint_fingerprint x p anchor = Ret fp"
      "attempt_execution f (px_backend e) p l ctl = (b, states, report, outcome)"
      "rc = \<lparr>rc_execution_id = ''execution-'' @ decimal_pad 20 (unat (px_next_execution_id e)),
          rc_executor_id = px_executor_id e, rc_ticket_id = pm_ticket_id p, rc_decision_id = pm_decision_id p,
          rc_dns_context_id = pm_dns_context_id p, rc_transport_audit_anchor = anchor,
          rc_binding_hash = pm_binding_hash p, rc_endpoint_fingerprint = fp,
          rc_outcome = outcome, rc_state_history = states @ [terminal_state outcome],
          rc_connected_after = rp_connected_after report, rc_elapsed = rp_elapsed report,
          rc_read_bytes = rp_read_bytes report, rc_written_bytes = rp_written_bytes report\<rparr>"
      "executor_append x (px_audit e) (receipt_event p rc) = (px_audit e', q)"
      "px_backend e' = b" "px_executor_id e' = px_executor_id e"
      "px_next_execution_id e' = saturating_add (px_next_execution_id e) 1"
      "r = (case q of Inl err \<Rightarrow> Inl (ExecutorAudit err) | Inr _ \<Rightarrow> Inr rc)"
proof (cases "accepted_call anchor l")
  case False
  then show thesis using assms validate_limits_Inr [of l]
    by (intro refused) (auto simp: execute_def accepted_call_def split: sum.splits if_split_asm)
next
  case True
  then have v: "validate_limits l = Inr l" "is_lower_hex_sha256 anchor" by (auto simp: accepted_call_def)
  obtain b states report outcome where at: "attempt_execution f (px_backend e) p l ctl = (b, states, report, outcome)"
    by (cases "attempt_execution f (px_backend e) p l ctl") auto
  have "\<exists>fp. endpoint_fingerprint x p anchor = Ret fp"
    using assms v by (cases "endpoint_fingerprint x p anchor") (auto simp: execute_def allocate_execution_id_def Let_def)
  then obtain fp where fp: "endpoint_fingerprint x p anchor = Ret fp" by blast
  define rc where "rc = \<lparr>rc_execution_id = ''execution-'' @ decimal_pad 20 (unat (px_next_execution_id e)),
          rc_executor_id = px_executor_id e, rc_ticket_id = pm_ticket_id p, rc_decision_id = pm_decision_id p,
          rc_dns_context_id = pm_dns_context_id p, rc_transport_audit_anchor = anchor,
          rc_binding_hash = pm_binding_hash p, rc_endpoint_fingerprint = fp,
          rc_outcome = outcome, rc_state_history = states @ [terminal_state outcome],
          rc_connected_after = rp_connected_after report, rc_elapsed = rp_elapsed report,
          rc_read_bytes = rp_read_bytes report, rc_written_bytes = rp_written_bytes report\<rparr>"
  obtain au q where ap: "executor_append x (px_audit e) (receipt_event p rc) = (au, q)" by fastforce
  have "e' = e\<lparr>px_next_execution_id := saturating_add (px_next_execution_id e) 1, px_backend := b, px_audit := au\<rparr>
      \<and> r = (case q of Inl err \<Rightarrow> Inl (ExecutorAudit err) | Inr _ \<Rightarrow> Inr rc)"
    using assms v at fp ap [unfolded rc_def]
    by (cases q) (auto simp: execute_def allocate_execution_id_def append_receipt_def rc_def Let_def)
  then show thesis using ap by (intro accepted [OF True fp at rc_def, where q = q]) auto
qed

locale recording_backend =
  fixes f :: "'b backend" and seen :: "'b \<Rightarrow> 'o list" and view :: "permit_endpoint \<Rightarrow> 'o"
  assumes records: "f b ep l ctl = (b', r) \<Longrightarrow> seen b' = seen b @ [view ep]"
begin

lemma attempt_seen:
  "attempt_execution f b p l ctl = (b', s, r, u) \<Longrightarrow>
     seen b' = seen b @ (if reaches_backend p ctl then [view (endpoint_from_permit p)] else [])"
  by (auto simp: attempt_execution_def reaches_backend_def Let_def records split: sum.splits if_split_asm prod.splits)

lemma run_seen:
  "executor_run x f cs e = Ret (e', rs) \<Longrightarrow>
     seen (px_backend e') = seen (px_backend e)
       @ map (\<lambda>(p, _). view (endpoint_from_permit p))
           (filter (\<lambda>(p, anchor, l, ctl). accepted_call anchor l \<and> reaches_backend p ctl) cs)"
proof (induction cs arbitrary: e rs)
  case (Cons c cs)
  obtain p anchor l ctl where c: "c = (p, anchor, l, ctl)" by (cases c) auto
  from Cons.prems obtain e1 r rs1 where e1: "execute x f e p anchor l ctl = Ret (e1, r)"
    "executor_run x f cs e1 = Ret (e', rs1)" by (auto simp: c split: run.splits)
  from e1(1) have "seen (px_backend e1) = seen (px_backend e)
      @ (if accepted_call anchor l \<and> reaches_backend p ctl then [view (endpoint_from_permit p)] else [])"
  proof (cases rule: execute_cases)
    case (accepted b states report outcome fp rc q)
    then show ?thesis using attempt_seen [OF accepted(3)] by simp
  qed simp
  then show ?case using Cons.IH [OF e1(2)] by (simp add: c)
qed simp

end

interpretation synthetic: recording_backend synthetic_execute observed_endpoints synthetic_observe
  by unfold_locales (auto simp: synthetic_execute_def Let_def split: list.splits)

section \<open>Permits of the authority are accepted\<close>

lemma graphic_not_separators:
  "is_host_byte c \<or> c = CHR '':'' \<or> is_ascii_digit c \<Longrightarrow> c \<noteq> CHR ''/'' \<and> c \<noteq> CHR 0x5C \<and> c \<noteq> CHR ''@''"
  by (auto simp: is_host_byte_def byte_class_defs byte_def)

lemma expected_http_host_bytes:
  assumes "is_valid_host h" "c \<in> set (expected_http_host h s p)"
  shows "is_host_byte c \<or> c = CHR '':'' \<or> is_ascii_digit c"
  using assms(2) labels_host_bytes [OF valid_host_labels(1) [OF assms(1)], of c] decimal_digits [of c]
  by (auto simp: expected_http_host_def Let_def split: if_split_asm)

lemma valid_host_nonempty:
  assumes "is_valid_host h"
  shows "normalize_host h \<noteq> []" "trim h \<noteq> []"
proof -
  show n: "normalize_host h \<noteq> []" using labels_last(1) [OF valid_host_labels(1) [OF assms]] .
  show "trim h \<noteq> []" using n by (auto simp: normalize_host_def trim_end_matches_def)
qed

lemma ticket_name_valid: "n < 2 ^ 64 \<Longrightarrow> is_valid_identifier (ticket_name n)"
proof (rule identifier_bytes_valid)
  have "is_identifier_byte c" if "is_ascii_digit c" for c
    using that by (simp add: is_identifier_byte_def is_ascii_alphanumeric_def)
  then show "list_all is_identifier_byte (ticket_name n)"
    using decimal_pad_digits [of _ 20 n]
    by (auto simp: ticket_name_def list_all_iff) (simp_all add: is_identifier_byte_def byte_class_defs byte_def)
qed (simp_all add: ticket_name_def length_decimal_pad_20)

lemma issue_permit_valid:
  assumes "issue sha a r = (a', Inr t)" "\<And>b. length (sha b) = 32"
  shows "validate_permit (permit_of t) = Inr ()"
proof -
  have wf: "ticket_wf t" and h: "ct_binding_hash t = to_lower_hex (sha (ticket_text t))"
    using issue_text [OF assms(1)] by auto
  have id: "is_valid_identifier (ct_ticket_id t)"
    using unat_bounds(4) [of "next_ticket_id a"]
    by (rule_tac issue_Inr [OF assms(1)]) (simp add: ticket_name_valid)
  have v: "is_valid_host (ct_host t)" using wf by (simp add: ticket_wf_def)
  let ?e = "expected_http_host (ct_host t) (ct_scheme t) (ct_port t)"
  have "trim ?e = ?e" by (rule trim_graphic) (rule expected_http_host_graphic [OF v])
  moreover have "?e \<noteq> []" using valid_host_nonempty(1) [OF v] by (simp add: expected_http_host_def Let_def)
  moreover have "CHR ''/'' \<notin> set ?e" "CHR 0x5C \<notin> set ?e" "CHR ''@'' \<notin> set ?e"
    using expected_http_host_bytes [OF v] graphic_not_separators by blast+
  ultimately show ?thesis
    using wf id is_lower_hex_sha256_digest [OF assms(2)] valid_host_nonempty(2) [OF v] h
    by (auto simp: validate_permit_def permit_of_def ticket_wf_def split: transport_scheme.splits)
qed

section \<open>Histories\<close>

lemma executor_append_step:
  assumes "executor_append x c ev = (a, q)"
  shows "executor_verify x c = Inr () \<Longrightarrow> executor_verify x a = Inr ()"
    and "q = Inr z \<Longrightarrow> chain_events a = chain_events c @ [ev]" and "q = Inl y \<Longrightarrow> a = c"
  using executor_log.extends_append [OF assms] executor_log.append_adds [of x c ev a z]
    executor_log.append_fails [of x c ev a y] assms
  by (auto simp: log_extends_def)

definition receipts :: "(executor_error + execution_receipt) list \<Rightarrow> execution_receipt list" where
  "receipts rs = concat (map (\<lambda>r. case r of Inl _ \<Rightarrow> [] | Inr rc \<Rightarrow> [rc]) rs)"

definition execution_name :: "nat \<Rightarrow> string" where
  "execution_name n = ''execution-'' @ decimal_pad 20 n"

lemma executor_run_facts:
  assumes "executor_run x f cs e = Ret (e', rs)" "executor_verify x (px_audit e) = Inr ()"
    "unat (px_next_execution_id e) + length cs < 2 ^ 64"
  shows "executor_verify x (px_audit e') = Inr ()
    \<and> map xe_execution_id (chain_events (px_audit e'))
        = map xe_execution_id (chain_events (px_audit e)) @ map rc_execution_id (receipts rs)
    \<and> map xe_outcome (chain_events (px_audit e'))
        = map xe_outcome (chain_events (px_audit e)) @ map (execution_outcome_code \<circ> rc_outcome) (receipts rs)
    \<and> (\<exists>ns. map rc_execution_id (receipts rs) = map execution_name ns \<and> sorted_wrt (<) ns
         \<and> (\<forall>n \<in> set ns. unat (px_next_execution_id e) \<le> n))"
  using assms
proof (induction cs arbitrary: e rs)
  case Nil
  then show ?case by (auto simp: receipts_def)
next
  case (Cons c cs)
  obtain p anchor l ctl where c: "c = (p, anchor, l, ctl)" by (cases c) auto
  from Cons.prems(1) obtain e1 r rs1 where e1: "execute x f e p anchor l ctl = Ret (e1, r)"
    "executor_run x f cs e1 = Ret (e', rs1)" "rs = r # rs1" by (auto simp: c split: run.splits)
  from e1(1) show ?case
  proof (cases rule: execute_cases)
    case refused
    then have "receipts rs = receipts rs1" using e1(3) by (cases r) (auto simp: receipts_def)
    then show ?thesis using Cons.IH [OF e1(2)] Cons.prems refused by simp
  next
    case (accepted b states report outcome fp rc q)
    note ap = executor_append_step [OF accepted(5)]
    have n: "unat (px_next_execution_id e1) = Suc (unat (px_next_execution_id e))"
      using Cons.prems(3) accepted(8) by (simp add: unat_saturating_add)
    have ih: "executor_verify x (px_audit e') = Inr ()
      \<and> map xe_execution_id (chain_events (px_audit e'))
        = map xe_execution_id (chain_events (px_audit e1)) @ map rc_execution_id (receipts rs1)
      \<and> map xe_outcome (chain_events (px_audit e'))
        = map xe_outcome (chain_events (px_audit e1)) @ map (execution_outcome_code \<circ> rc_outcome) (receipts rs1)"
      and ns: "\<exists>ns. map rc_execution_id (receipts rs1) = map execution_name ns \<and> sorted_wrt (<) ns
         \<and> (\<forall>k \<in> set ns. unat (px_next_execution_id e1) \<le> k)"
      using Cons.IH [OF e1(2) ap(1) [OF Cons.prems(2)]] Cons.prems(3) n by auto
    show ?thesis
    proof (cases q)
      case (Inl err)
      then have "receipts rs = receipts rs1" "px_audit e1 = px_audit e"
        using accepted(9) e1(3) ap(3) by (auto simp: receipts_def)
      then show ?thesis using ih ns n by (auto intro: Suc_leD)
    next
      case (Inr z)
      then have rs: "receipts rs = rc # receipts rs1" using accepted(9) e1(3) by (simp add: receipts_def)
      have id: "rc_execution_id rc = execution_name (unat (px_next_execution_id e))" by (simp add: accepted(4) execution_name_def)
      have ev: "map xe_execution_id (chain_events (px_audit e1)) = map xe_execution_id (chain_events (px_audit e)) @ [rc_execution_id rc]"
        "map xe_outcome (chain_events (px_audit e1)) = map xe_outcome (chain_events (px_audit e)) @ [execution_outcome_code (rc_outcome rc)]"
        unfolding ap(2) [OF Inr] by (simp_all add: receipt_event_def)
      obtain ns where "map rc_execution_id (receipts rs1) = map execution_name ns" "sorted_wrt (<) ns"
        "\<forall>k \<in> set ns. Suc (unat (px_next_execution_id e)) \<le> k" using ns n by auto
      then have "map rc_execution_id (receipts rs) = map execution_name (unat (px_next_execution_id e) # ns)"
        "sorted_wrt (<) (unat (px_next_execution_id e) # ns)"
        "\<forall>k \<in> set (unat (px_next_execution_id e) # ns). unat (px_next_execution_id e) \<le> k"
        by (auto simp: rs id)
      then have "\<exists>ns. map rc_execution_id (receipts rs) = map execution_name ns \<and> sorted_wrt (<) ns
         \<and> (\<forall>n \<in> set ns. unat (px_next_execution_id e) \<le> n)" by blast
      then show ?thesis using ih ev by (simp add: rs del: map_map)
    qed
  qed
qed

section \<open>Properties\<close>

text \<open>The state machine of the contract document.\<close>

inductive exec_edge :: "execution_state \<Rightarrow> execution_state \<Rightarrow> bool" where
  "exec_edge Prepared PermitRejected"
| "exec_edge Prepared Cancelled"
| "exec_edge Prepared EmergencyStopped"
| "exec_edge Prepared Connecting"
| "exec_edge Connecting Connected"
| "exec_edge Connecting TimedOut"
| "exec_edge Connecting BackendFailed"
| "exec_edge Connected Completed"
| "exec_edge Connected TimedOut"
| "exec_edge Connected BudgetRejected"
| "exec_edge Connected BackendFailed"

code_pred exec_edge .

inductive_simps exec_edge_simps: "exec_edge a b"

definition is_terminal :: "execution_state \<Rightarrow> bool" where
  "is_terminal s \<longleftrightarrow> s \<notin> {Prepared, Connecting, Connected}"

lemma attempt_execution_cases:
  assumes "attempt_execution f b p l ctl = (b', states, report, outcome)"
  obtains (rejected) "b' = b" "states = [Prepared]" "report = empty_report" "\<not> reaches_backend p ctl"
      "terminal_state outcome \<in> {PermitRejected, Cancelled, EmergencyStopped}"
  | (failed) "reaches_backend p ctl" "f b (endpoint_from_permit p) l ctl = (b', report)"
      "states = [Prepared, Connecting]" "rp_connected_after report = None" "terminal_state outcome = BackendFailed"
  | (connected) n where "reaches_backend p ctl" "f b (endpoint_from_permit p) l ctl = (b', report)"
      "states = [Prepared, Connecting, Connected]" "rp_connected_after report = Some n"
      "outcome = classify_report report l"
proof (cases "reaches_backend p ctl")
  case True
  then have f: "f b (endpoint_from_permit p) l ctl = (b', report)"
    "states = [Prepared, Connecting] @ (if rp_connected_after report \<noteq> None then [Connected] else [])"
    "outcome = classify_report report l"
    using assms by (auto simp: attempt_execution_def reaches_backend_def Let_def split: prod.splits)
  show thesis
  proof (cases "rp_connected_after report")
    case None
    then have "terminal_state outcome = BackendFailed"
      by (auto simp: f(3) classify_report_def split: option.splits)
    then show thesis using failed True f None by simp
  next
    case (Some n)
    then show thesis using connected [OF True f(1) _ Some f(3)] f(2) by simp
  qed
next
  case False
  then show thesis using assms
    by (intro rejected) (auto simp: attempt_execution_def reaches_backend_def split: sum.splits if_split_asm)
qed

text \<open>
  C25: Every receipt records a run of the documented state machine: its history starts in Prepared,
  each step is an edge, exactly the last state is terminal and it is that of the outcome. The edge
  from Connecting to TimedOut is never taken: every timeout is reported after Connected.
\<close>

theorem receipt_follows_state_machine:
  assumes "execute x f e p anchor l ctl = Ret (e', Inr rc)"
  shows "successively exec_edge (rc_state_history rc) \<and> hd (rc_state_history rc) = Prepared
    \<and> last (rc_state_history rc) = terminal_state (rc_outcome rc)
    \<and> is_terminal (last (rc_state_history rc)) \<and> (\<forall>s \<in> set (butlast (rc_state_history rc)). \<not> is_terminal s)
    \<and> (TimedOut \<in> set (rc_state_history rc) \<longrightarrow> rc_state_history rc = [Prepared, Connecting, Connected, TimedOut])"
  using assms
proof (cases rule: execute_cases)
  case (accepted b states report outcome fp rc' q)
  then have rc: "rc = rc'" by (cases q) auto
  have h: "rc_state_history rc = states @ [terminal_state outcome]" "rc_outcome rc = outcome"
    by (simp_all add: rc accepted(4))
  from accepted(3) show ?thesis
  proof (cases rule: attempt_execution_cases)
    case rejected
    then show ?thesis unfolding h by (auto simp: exec_edge_simps is_terminal_def)
  next
    case failed
    then show ?thesis unfolding h by (simp add: exec_edge_simps is_terminal_def)
  next
    case (connected n)
    have "terminal_state outcome \<in> {Completed, TimedOut, BudgetRejected, BackendFailed}"
      unfolding connected(5) by (auto simp: classify_report_def split: option.splits)
    then show ?thesis unfolding h using connected(3) by (auto simp: exec_edge_simps is_terminal_def)
  qed
qed simp

text \<open>
  When an execution counts as completed: exactly if the permit is valid, neither stop nor
  cancellation was requested, and the backend reported no failure and a connection within the connect
  timeout, a total time, read bytes and written bytes within their limits. The limits themselves are
  bounded, so a completed execution lasted at most two minutes and moved at most 64 MiB each way.
\<close>

theorem completed_within_limits:
  assumes "execute x f e p anchor l ctl = Ret (e', Inr rc)"
  shows "(rc_outcome rc = OCompleted \<longleftrightarrow>
      reaches_backend p ctl
      \<and> (let r = snd (f (px_backend e) (endpoint_from_permit p) l ctl) in
         rp_failure_code r = None \<and> (\<exists>n. rp_connected_after r = Some n \<and> n \<le> connect_timeout l)
         \<and> rp_elapsed r \<le> total_timeout l \<and> rp_read_bytes r \<le> maximum_read_bytes l
         \<and> rp_written_bytes r \<le> maximum_write_bytes l))
    \<and> (rc_outcome rc = OCompleted \<longrightarrow>
      rc_elapsed rc \<le> 120000 \<and> rc_read_bytes rc \<le> 67108864 \<and> rc_written_bytes rc \<le> 67108864)"
  using assms
proof (cases rule: execute_cases)
  case (accepted b states report outcome fp rc' q)
  then have rc: "rc = rc'" by (cases q) auto
  have h: "rc_outcome rc = outcome" "rc_elapsed rc = rp_elapsed report" "rc_read_bytes rc = rp_read_bytes report"
    "rc_written_bytes rc = rp_written_bytes report" by (simp_all add: rc accepted(4))
  have lim: "total_timeout l \<le> 120000" "maximum_read_bytes l \<le> 67108864" "maximum_write_bytes l \<le> 67108864"
    using validate_limits_bounds [of l l] accepted(1) by (auto simp: accepted_call_def)
  from accepted(3) show ?thesis
  proof (cases rule: attempt_execution_cases)
    case rejected
    then show ?thesis unfolding h by auto
  next
    case failed
    then show ?thesis unfolding h by (auto simp: Let_def)
  next
    case (connected n)
    then have o: "outcome = OCompleted \<longleftrightarrow> rp_failure_code report = None \<and> n \<le> connect_timeout l
        \<and> rp_elapsed report \<le> total_timeout l \<and> rp_read_bytes report \<le> maximum_read_bytes l
        \<and> rp_written_bytes report \<le> maximum_write_bytes l"
      by (cases "rp_failure_code report") (auto simp: classify_report_def)
    show ?thesis unfolding h o Let_def connected(2) snd_conv connected(4)
      using connected(1) order_trans [OF _ lim(1), of "rp_elapsed report"]
        order_trans [OF _ lim(2), of "rp_read_bytes report"] order_trans [OF _ lim(3), of "rp_written_bytes report"]
      by simp
  qed
qed simp

text \<open>
  The backend sees the endpoints of the permits and nothing else. Over any history of calls the
  synthetic backend has recorded, in order, exactly the endpoints of the permits whose calls were
  accepted, valid, not stopped and not cancelled.
\<close>

theorem backend_sees_only_permits:
  assumes "executor_run x synthetic_execute cs e = Ret (e', rs)"
  shows "observed_endpoints (px_backend e') = observed_endpoints (px_backend e)
    @ map (\<lambda>(p, _). synthetic_observe (endpoint_from_permit p))
        (filter (\<lambda>(p, anchor, l, ctl). accepted_call anchor l \<and> reaches_backend p ctl) cs)"
  by (rule synthetic.run_seen [OF assms])

text \<open>
  The audit chain of an executor verifies after any history, records the receipts returned, in
  order and with their outcomes, and no two receipts share an execution id.
\<close>

theorem executor_history:
  assumes "executor_new i b = Inr e" "executor_run x f cs e = Ret (e', rs)" "length cs < 2 ^ 64 - 1"
  shows "executor_verify x (px_audit e') = Inr ()
    \<and> map xe_execution_id (chain_events (px_audit e')) = map rc_execution_id (receipts rs)
    \<and> map xe_outcome (chain_events (px_audit e')) = map (execution_outcome_code \<circ> rc_outcome) (receipts rs)
    \<and> distinct (map rc_execution_id (receipts rs))"
proof -
  have e: "px_audit e = executor_audit_new" "px_next_execution_id e = 1"
    using assms(1) by (auto simp: executor_new_def split: if_split_asm)
  have v: "executor_verify x (px_audit e) = Inr ()" "chain_events (px_audit e) = []"
    by (simp_all add: e(1) executor_verify_def chain_verify_Inr executor_audit_new_def)
  have b: "unat (px_next_execution_id e) + length cs < 2 ^ 64" using assms(3) by (simp add: e(2))
  note F = executor_run_facts [OF assms(2) v(1) b]
  then obtain ns where ns: "map rc_execution_id (receipts rs) = map execution_name ns" "sorted_wrt (<) ns" by blast
  have "inj_on execution_name (set ns)" by (auto simp: inj_on_def execution_name_def decimal_pad_inject)
  then have "distinct (map rc_execution_id (receipts rs))"
    unfolding ns(1) using strict_sorted_iff [of ns] ns(2) by (simp add: distinct_map)
  then show ?thesis using F v(2) by (simp del: map_map)
qed

text \<open>
  C26: Every permit of the ticket authority is accepted by the executor: in any history from a new
  authority the permits handed out pass the executor's integrity check, given that SHA-256 yields
  32 bytes.
\<close>

theorem authority_permits_accepted:
  assumes "\<And>b. length (sha b) = 32" "p \<in> set (permits (snd (ticket_run sha ops ticket_authority_new)))"
  shows "validate_permit p = Inr ()"
proof -
  have "\<exists>t. p = permit_of t \<and> validate_permit (permit_of t) = Inr ()"
    by (rule ticket_run_permits_all [OF assms(2), where Q = "\<lambda>t. validate_permit (permit_of t) = Inr ()"])
      (auto simp: ticket_authority_new_def intro: issue_permit_valid [OF _ assms(1)])
  then show ?thesis by blast
qed

section \<open>Witnesses\<close>

definition sample_executor_ext :: executor_ext where
  "sample_executor_ext = \<lparr>ex_sha256 = \<lambda>_. [], ser_executor = \<lambda>_. Inr [], ser_fingerprint = \<lambda>_. Inr []\<rparr>"

definition sample_permit :: transport_permit where
  "sample_permit =
     \<lparr>pm_ticket_id = ''t'', pm_decision_id = ''d'', pm_dns_context_id = ''c'', pm_scheme = Https,
      pm_remote_ip = V4 9, pm_port = 443, pm_sni = Some ''a'', pm_http_host = ''a'', pm_redirect_depth = 0,
      pm_binding_hash = replicate 64 (CHR ''a'')\<rparr>"

definition sample_executor :: "synthetic_backend permit_executor" where
  "sample_executor =
     \<lparr>px_executor_id = ''x'', px_backend = synthetic_new [scenario_success 1 2 3 4],
      px_audit = executor_audit_new, px_next_execution_id = 1\<rparr>"

abbreviation sample_control :: "bool \<Rightarrow> execution_control" where
  "sample_control stop \<equiv> \<lparr>cancel_requested = False, emergency_stop_requested = stop\<rparr>"

definition sample_execution :: "(synthetic_backend permit_executor \<times> (executor_error + execution_receipt)) run" where
  "sample_execution = execute sample_executor_ext synthetic_execute sample_executor sample_permit
     (replicate 64 (CHR ''b'')) conservative_default (sample_control False)"

lemma sample_execution_eval:
  "(case sample_execution of Ret (_, Inr rc) \<Rightarrow> rc_outcome rc = OCompleted
      \<and> rc_state_history rc = [Prepared, Connecting, Connected, Completed] | _ \<Rightarrow> False)"
  by code_simp

lemma sample_receipt:
  "\<exists>e rc. execute sample_executor_ext synthetic_execute sample_executor sample_permit
     (replicate 64 (CHR ''b'')) conservative_default (sample_control False) = Ret (e, Inr rc)
     \<and> rc_outcome rc = OCompleted"
  using sample_execution_eval by (auto simp: sample_execution_def split: run.split_asm prod.split_asm sum.split_asm)

theorem receipt_follows_state_machine_witness:
  "\<exists>e rc. execute sample_executor_ext synthetic_execute sample_executor sample_permit
     (replicate 64 (CHR ''b'')) conservative_default (sample_control False) = Ret (e, Inr rc)
     \<and> successively exec_edge (rc_state_history rc)"
  using sample_receipt receipt_follows_state_machine by metis

theorem completed_within_limits_witness:
  "\<exists>e rc. execute sample_executor_ext synthetic_execute sample_executor sample_permit
     (replicate 64 (CHR ''b'')) conservative_default (sample_control False) = Ret (e, Inr rc)
     \<and> rc_outcome rc = OCompleted \<and> rc_read_bytes rc \<le> 67108864"
  using sample_receipt completed_within_limits by metis

theorem authority_permits_accepted_witness:
  "list_all (\<lambda>p. validate_permit p = Inr ())
     (permits (snd (ticket_run (\<lambda>_. replicate 32 (CHR 0x01)) ticket_sample_ops ticket_authority_new)))"
  using authority_permits_accepted [of "\<lambda>_. replicate 32 (CHR 0x01)"] by (auto simp: list_all_iff)

end
