(* ===== verification/Local_Executor.thy ===== *)
theory Local_Executor
  imports Pinned_Transport Executor
begin

text \<open>
  The crate \<open>nxb-local-executor\<close>: the pipeline that consumes a ticket, runs the executor on the
  permit and returns the gateway's slot. It composes the coordinator and the executor.
\<close>

section \<open>The pipeline\<close>

record local_execution_result =
  lr_ticket_use :: ticket_use_result
  lr_execution_receipt :: "execution_receipt option"
  lr_transport_audit_anchor :: string

record 'b pipeline =
  pl_transport :: coordinator
  pl_executor :: "'b permit_executor"

datatype local_execution_error =
  LxTransport pinned_transport_error | LxExecutor executor_error | ConsumedTicketMissingPermit

definition pipeline_new :: "coordinator \<Rightarrow> 'b permit_executor \<Rightarrow> 'b pipeline" where
  "pipeline_new c e = \<lparr>pl_transport = c, pl_executor = e\<rparr>"

definition consume_and_execute ::
  "'z transport_ext_scheme \<Rightarrow> executor_ext \<Rightarrow> 'b backend \<Rightarrow> 'b pipeline \<Rightarrow> connection_attempt \<Rightarrow> duration
     \<Rightarrow> execution_limits \<Rightarrow> execution_control
     \<Rightarrow> ('b pipeline \<times> (local_execution_error + local_execution_result)) run" where
  "consume_and_execute x y f pl att elapsed limits ctl =
     (case consume_connection_ticket x (pl_transport pl) att elapsed of
        (c, Inl err) \<Rightarrow> Ret (pl\<lparr>pl_transport := c\<rparr>, Inl (LxTransport err))
      | (c, Inr use) \<Rightarrow>
          let anchor = tail_hash (co_audit c) in
          if use_outcome use \<noteq> UseConsumed then
            Ret (pl\<lparr>pl_transport := c\<rparr>,
                 Inr \<lparr>lr_ticket_use = use, lr_execution_receipt = None, lr_transport_audit_anchor = anchor\<rparr>)
          else
            (case use_permit use of
               None \<Rightarrow> Ret (pl\<lparr>pl_transport := coordinator_complete c\<rparr>, Inl ConsumedTicketMissingPermit)
             | Some p \<Rightarrow>
                 (case execute y f (pl_executor pl) p anchor limits ctl of
                    Panic \<Rightarrow> Panic
                  | Ret (e, r) \<Rightarrow>
                      let pl = pl\<lparr>pl_transport := coordinator_complete c, pl_executor := e\<rparr> in
                      (case r of
                         Inl err \<Rightarrow> Ret (pl, Inl (LxExecutor err))
                       | Inr rc \<Rightarrow>
                           Ret (pl, Inr \<lparr>lr_ticket_use = use, lr_execution_receipt = Some rc,
                                         lr_transport_audit_anchor = anchor\<rparr>)))))"

section \<open>Facts\<close>

lemma consume_outcome_permit:
  "consume a att now = (a', u) \<Longrightarrow> use_outcome u = UseConsumed \<longleftrightarrow> use_permit u \<noteq> None"
  by (auto simp: consume_def failed_use_def Let_def
      split: option.splits stored_ticket_state.splits if_split_asm)

lemma consume_live_outcome:
  assumes "consume a att now = (a', u)"
  shows "at_ticket_id att \<in> live a \<longleftrightarrow> use_permit u \<noteq> None \<or> releases_slot (use_outcome u)"
  using assms
  by (auto simp: consume_def live_def failed_use_def Let_def
      split: option.splits stored_ticket_state.splits if_split_asm)

text \<open>What a use does to the slots, read off its result.\<close>

lemma consume_connection_slot:
  assumes "consume_connection_ticket x c att e = (c', Inr u)"
  shows "co_gateway c' = (if releases_slot (use_outcome u) then complete_request (co_gateway c) else co_gateway c)"
    "use_outcome u = UseConsumed \<longleftrightarrow> use_permit u \<noteq> None"
    "at_ticket_id att \<in> live (co_tickets c) \<longleftrightarrow> use_permit u \<noteq> None \<or> releases_slot (use_outcome u)"
    "\<not> (use_permit u \<noteq> None \<and> releases_slot (use_outcome u))"
    "consume (co_tickets c) att (duration_milliseconds_saturated e) = (co_tickets c', u)"
proof -
  have *: "co_gateway c' = (if releases_slot (use_outcome u) then complete_request (co_gateway c) else co_gateway c)
      \<and> consume (co_tickets c) att (duration_milliseconds_saturated e) = (co_tickets c', u)"
    by (rule consume_connection_ticket_eq [OF assms]) auto
  then show "co_gateway c' = (if releases_slot (use_outcome u) then complete_request (co_gateway c) else co_gateway c)"
    and c: "consume (co_tickets c) att (duration_milliseconds_saturated e) = (co_tickets c', u)" by auto
  show "use_outcome u = UseConsumed \<longleftrightarrow> use_permit u \<noteq> None" by (rule consume_outcome_permit [OF c])
  then show "\<not> (use_permit u \<noteq> None \<and> releases_slot (use_outcome u))" by auto
  show "at_ticket_id att \<in> live (co_tickets c) \<longleftrightarrow> use_permit u \<noteq> None \<or> releases_slot (use_outcome u)"
    by (rule consume_live_outcome [OF c])
qed

lemma complete_in_flight [simp]:
  "unat (in_flight_requests (co_gateway (coordinator_complete c))) = unat (in_flight_requests (co_gateway c)) - 1"
  by (simp add: coordinator_complete_def in_flight_complete)

text \<open>Every stored ticket carries a permit the executor accepts.\<close>

definition tickets_valid :: "coordinator \<Rightarrow> bool" where
  "tickets_valid c \<longleftrightarrow>
     (\<forall>k s. map_of (tickets (co_tickets c)) k = Some s \<longrightarrow> validate_permit (permit_of (st_ticket s)) = Inr ())"

lemma slot_step_tickets_valid:
  assumes "slot_step x cn cn'" "tickets_valid (fst cn)" "\<And>b. length (sha256 x b) = 32"
  shows "tickets_valid (fst cn')"
  using assms(1,2)
proof (induction rule: slot_step.induct)
  case (connect c intent ip e c' r n)
  from connect.hyps show ?case
  proof (cases rule: authorize_connection_cases)
    case (allowed g d)
    from allowed(4) show ?thesis
    proof (cases rule: issue_connection_cases)
      case (issued h s port t)
      note i = issued(4)
      have "tickets (co_tickets c') = AList.update (ct_ticket_id t) \<lparr>st_ticket = t, st_state = Issued\<rparr>
          (tickets (co_tickets (c\<lparr>co_gateway := g\<rparr>)))" by (rule issue_Inr [OF i])
      then show ?thesis using connect.prems issue_permit_valid [OF i assms(3)]
        by (auto simp: tickets_valid_def update_conv')
    qed (use connect.prems in \<open>simp add: tickets_valid_def\<close>)
  qed (use connect.prems in \<open>simp_all add: tickets_valid_def\<close>)
next
  case (use c att e c' r n)
  have "\<exists>s0. map_of (tickets (co_tickets c)) k = Some s0 \<and> st_ticket s0 = st_ticket s"
    if "map_of (tickets (co_tickets c')) k = Some s" for k s
  proof (rule consume_connection_ticket_eq [OF use.hyps])
    fix u assume "consume (co_tickets c) att (duration_milliseconds_saturated e) = (co_tickets c', u)"
    from consume_tickets(2) [OF this] show ?thesis using that by (auto simp: update_conv' split: if_split_asm)
  qed
  then show ?case using use.prems unfolding tickets_valid_def fst_conv by metis
next
  case (complete c n)
  then show ?case by (simp add: tickets_valid_def coordinator_complete_def)
next
  case (release c n ctx)
  then show ?case by (auto simp: tickets_valid_def coordinator_release_eq map_of_revoke split: if_split_asm)
qed

lemma reachable_tickets_valid:
  assumes "(slot_step x)\<^sup>*\<^sup>* (coordinator_new g, n) cn" "\<And>b. length (sha256 x b) = 32"
  shows "tickets_valid (fst cn)"
  using assms(1)
proof (induction rule: rtranclp_induct)
  case base
  show ?case by (simp add: tickets_valid_def coordinator_new_def ticket_authority_new_def)
next
  case (step y z)
  then show ?case using slot_step_tickets_valid [OF step.hyps(2) step.IH assms(2)] by simp
qed

text \<open>A use that yields a permit is executed.\<close>

lemma pipeline_executes:
  assumes "\<And>b. length (sha256 x b) = 32" "\<And>m. \<exists>b. ser_transport x m = Inr b"
    "\<And>m. \<exists>b. ser_executor y m = Inr b" "\<And>m. \<exists>b. ser_fingerprint y m = Inr b"
    "(slot_step x)\<^sup>*\<^sup>* (coordinator_new g, 0) (pl_transport pl, held)" "validate_limits l = Inr l"
    "use_permit (snd (consume (co_tickets (pl_transport pl)) att (duration_milliseconds_saturated e))) = Some p"
  shows "\<exists>pl' u rc anchor. consume_and_execute x y f pl att e l ctl
      = Ret (pl', Inr \<lparr>lr_ticket_use = u, lr_execution_receipt = Some rc, lr_transport_audit_anchor = anchor\<rparr>)
    \<and> use_permit u = Some p \<and> rc_ticket_id rc = pm_ticket_id p
    \<and> (\<forall>reason. rc_outcome rc \<noteq> OPermitIntegrityRejected reason)
    \<and> (\<not> emergency_stop_requested ctl \<longrightarrow> \<not> cancel_requested ctl \<longrightarrow> reaches_backend p ctl)"
proof -
  let ?c = "pl_transport pl"
  obtain a u where u: "consume (co_tickets ?c) att (duration_milliseconds_saturated e) = (a, u)" by fastforce
  have up: "use_permit u = Some p" "use_outcome u = UseConsumed"
    using assms(7) u consume_outcome_permit [OF u] by auto
  obtain s where "map_of (tickets (co_tickets ?c)) (at_ticket_id att) = Some s" "p = permit_of (st_ticket s)"
    using consume_permit [OF u up(1)] by blast
  then have valid: "validate_permit p = Inr ()"
    using reachable_tickets_valid [OF assms(5,1)] by (simp add: tickets_valid_def)
  obtain au z where ap: "transport_append x (fst (allocate_event_id (co_audit ?c)))
      (use_event (snd (allocate_event_id (co_audit ?c))) (tail_hash (gw_audit (co_gateway ?c))) u e) = (au, Inr z)"
    using transport_append_total [OF assms(2)] by blast
  have hex: "is_lower_hex_sha256 (tail_hash au)"
    using chain_append_hex [OF ap [unfolded transport_append_def transport_record_hash_def] assms(1)] .
  have cc: "consume_connection_ticket x ?c att e = (?c\<lparr>co_tickets := a, co_audit := au\<rparr>, Inr u)"
    using up ap by (simp add: consume_connection_ticket_def u append_use_event_def Let_def case_prod_unfold)
  have fp: "endpoint_fingerprint y p anchor \<noteq> Panic" for anchor
    using assms(4) by (auto simp: endpoint_fingerprint_def split: sum.splits) (metis sum.distinct(1))
  have "\<exists>e' rc. execute y f (pl_executor pl) p (tail_hash au) l ctl = Ret (e', Inr rc)"
  proof (cases "execute y f (pl_executor pl) p (tail_hash au) l ctl")
    case Panic
    then show ?thesis using fp [of "tail_hash au"] hex assms(6)
      by (auto simp: execute_def allocate_execution_id_def Let_def split: run.splits prod.splits sum.splits)
  next
    case (Ret er)
    obtain e' r where er: "er = (e', r)" by fastforce
    from Ret [unfolded er] show ?thesis
    proof (cases rule: execute_cases)
      case (accepted b states report outcome fp rc q)
      moreover obtain z where "q = Inr z"
        using chain_append_Inr_iff [of "executor_record_hash y" "px_audit (pl_executor pl)" "receipt_event p rc"] accepted(5) assms(3)
        by (fastforce simp: executor_append_def executor_record_hash_def chain_hash_def bind_r_Inr map_err_Inr)
      ultimately show ?thesis using Ret er by auto
    qed (use hex assms(6) in \<open>simp add: accepted_call_def\<close>)
  qed
  then obtain e' rc where ex: "execute y f (pl_executor pl) p (tail_hash au) l ctl = Ret (e', Inr rc)" by blast
  from ex have "rc_ticket_id rc = pm_ticket_id p \<and> (\<forall>reason. rc_outcome rc \<noteq> OPermitIntegrityRejected reason)"
  proof (cases rule: execute_cases)
    case (accepted b states report outcome fp rc' q)
    then have rc: "rc = rc'" by (cases q) auto
    have "outcome \<noteq> OPermitIntegrityRejected reason" for reason
      using accepted(3) valid
      by (auto simp: attempt_execution_def classify_report_def Let_def split: if_split_asm prod.splits option.splits)
    then show ?thesis by (simp add: rc accepted(4))
  qed simp
  then show ?thesis using cc up ex valid by (auto simp: consume_and_execute_def Let_def reaches_backend_def)
qed

section \<open>The slot of a use\<close>

text \<open>Whether the use of a ticket can be recorded in the transport audit.\<close>

definition use_recorded :: "'z transport_ext_scheme \<Rightarrow> coordinator \<Rightarrow> connection_attempt \<Rightarrow> duration \<Rightarrow> bool" where
  "use_recorded x c att e \<longleftrightarrow>
     (let (auth, u) = consume (co_tickets c) att (duration_milliseconds_saturated e) in
      \<not> isl (snd (append_use_event x (c\<lparr>co_tickets := auth\<rparr>) u e)))"

lemma use_recorded_iff: "use_recorded x c att e \<longleftrightarrow> \<not> isl (snd (consume_connection_ticket x c att e))"
  by (auto simp: use_recorded_def consume_connection_ticket_def Let_def case_prod_unfold split: sum.splits)

lemma use_recorded_total: "(\<And>m. \<exists>b. ser_transport x m = Inr b) \<Longrightarrow> use_recorded x c att e"
  using transport_append_total [of x]
  by (auto simp: use_recorded_def append_use_event_def Let_def split: prod.splits sum.splits) (metis Pair_inject sum.distinct(1))

lemma use_not_recorded:
  assumes "consume_connection_ticket x c att e = (c', Inl err)"
  shows "\<not> use_recorded x c att e" "co_gateway c' = co_gateway c"
    "live (co_tickets c') = live (co_tickets c) - {at_ticket_id att}"
proof -
  show "\<not> use_recorded x c att e" using assms by (simp add: use_recorded_iff)
  show "co_gateway c' = co_gateway c" by (rule consume_connection_ticket_eq [OF assms]) auto
  show "live (co_tickets c') = live (co_tickets c) - {at_ticket_id att}"
    by (rule consume_connection_ticket_eq [OF assms]) (rule consume_live)
qed

lemma slots_completed:
  assumes "slots_ok x limit (c, held + length (granted (Inr u)))"
  shows "slots_ok x limit (case use_permit u of None \<Rightarrow> c | Some p \<Rightarrow> coordinator_complete c, held)"
  using assms slot_step_ok [OF slot_step.complete, of x limit c held] by (auto simp: granted_def split: option.splits)

lemma pipeline_slot_done:
  assumes "consume_and_execute x y f pl att e l ctl = Ret (pl', r)" "consume_connection_ticket x (pl_transport pl) att e = (c, Inr u)"
  shows "pl_transport pl' = (case use_permit u of None \<Rightarrow> c | Some p \<Rightarrow> coordinator_complete c)"
    "r \<noteq> Inl (LxTransport err)"
    "co_tickets (pl_transport pl') = co_tickets c"
    "unat (in_flight_requests (co_gateway (pl_transport pl'))) = unat (in_flight_requests (co_gateway (pl_transport pl)))
       - (if at_ticket_id att \<in> live (co_tickets (pl_transport pl)) then 1 else 0)"
proof -
  note C = consume_connection_slot [OF assms(2)]
  show t: "pl_transport pl' = (case use_permit u of None \<Rightarrow> c | Some p \<Rightarrow> coordinator_complete c)" and "r \<noteq> Inl (LxTransport err)"
    using assms C(2) by (auto simp: consume_and_execute_def Let_def split: run.splits sum.splits option.splits if_split_asm)
  show "co_tickets (pl_transport pl') = co_tickets c" by (simp add: t coordinator_complete_def split: option.splits)
  show "unat (in_flight_requests (co_gateway (pl_transport pl'))) = unat (in_flight_requests (co_gateway (pl_transport pl)))
       - (if at_ticket_id att \<in> live (co_tickets (pl_transport pl)) then 1 else 0)"
    using C(1,3,4) by (cases "use_permit u") (simp_all add: t in_flight_complete)
qed

section \<open>Properties\<close>

text \<open>
  C22: What a call of the pipeline does to the slots, on every outcome it returns with. The ticket is
  no longer live, and the requests in flight have gone down by exactly one if the ticket was live and
  its use could be recorded in the transport audit (executor errors and failed uses included), and
  are unchanged if the ticket was not live. The remaining case is stated as it is: when the use
  cannot be recorded the call fails with a transport error, the ticket is spent and its slot is
  not returned. With a serializer that succeeds this case does not occur. In every case the
  tickets that can still be used and the permits others hold still fit in the requests in flight.
\<close>

theorem pipeline_slot_accounting:
  assumes "slots_ok x limit (pl_transport pl, held)" "consume_and_execute x y f pl att e l ctl = Ret (pl', r)"
  shows "unat (in_flight_requests (co_gateway (pl_transport pl')))
      = unat (in_flight_requests (co_gateway (pl_transport pl)))
        - (if at_ticket_id att \<in> live (co_tickets (pl_transport pl)) \<and> use_recorded x (pl_transport pl) att e then 1 else 0)
    \<and> live (co_tickets (pl_transport pl')) = live (co_tickets (pl_transport pl)) - {at_ticket_id att}
    \<and> ((\<exists>err. r = Inl (LxTransport err)) \<longleftrightarrow> \<not> use_recorded x (pl_transport pl) att e)
    \<and> ((\<forall>m. \<exists>b. ser_transport x m = Inr b) \<longrightarrow> use_recorded x (pl_transport pl) att e)
    \<and> slots_ok x limit (pl_transport pl', held)"
proof (cases "consume_connection_ticket x (pl_transport pl) att e")
  case c: (Pair c q)
  have s: "slots_ok x limit (c, held + length (granted q))" by (rule slots_use [OF assms(1) c])
  have t: "(\<forall>m. \<exists>b. ser_transport x m = Inr b) \<longrightarrow> use_recorded x (pl_transport pl) att e"
    using use_recorded_total by blast
  show ?thesis
  proof (cases q)
    case (Inl err)
    note n = use_not_recorded [OF c [unfolded Inl]]
    have "pl_transport pl' = c" "r = Inl (LxTransport err)"
      using assms(2) by (auto simp: consume_and_execute_def c Inl)
    then show ?thesis using n s t by (simp add: granted_def Inl)
  next
    case (Inr u)
    have rec: "use_recorded x (pl_transport pl) att e" by (simp add: use_recorded_iff c Inr)
    note p = pipeline_slot_done [OF assms(2) c [unfolded Inr]]
    have "live (co_tickets (pl_transport pl')) = live (co_tickets (pl_transport pl)) - {at_ticket_id att}"
      unfolding p(3) by (rule consume_live [OF consume_connection_slot(5) [OF c [unfolded Inr]]])
    moreover have "slots_ok x limit (pl_transport pl', held)" unfolding p(1) by (rule slots_completed [OF s [unfolded Inr]])
    ultimately show ?thesis using p(2,4) rec by simp
  qed
qed

text \<open>
  A live ticket used as it was issued is executed. In a reachable coordinator, a use that the
  ticket authority turns into a permit, with valid limits, yields a receipt for that ticket; the
  executor never rejects the permit, so the backend is reached unless stop or cancellation was
  requested. (The serializers succeed and SHA-256 yields 32 bytes.)
\<close>

theorem live_ticket_executes:
  assumes "\<And>b. length (sha256 x b) = 32" "\<And>m. \<exists>b. ser_transport x m = Inr b"
    "\<And>m. \<exists>b. ser_executor y m = Inr b" "\<And>m. \<exists>b. ser_fingerprint y m = Inr b"
    "(slot_step x)\<^sup>*\<^sup>* (coordinator_new g, 0) (pl_transport pl, held)" "validate_limits l = Inr l"
    "use_permit (snd (consume (co_tickets (pl_transport pl)) att (duration_milliseconds_saturated e))) = Some p"
  shows "\<exists>pl' u rc anchor. consume_and_execute x y f pl att e l ctl
      = Ret (pl', Inr \<lparr>lr_ticket_use = u, lr_execution_receipt = Some rc, lr_transport_audit_anchor = anchor\<rparr>)
    \<and> use_permit u = Some p \<and> rc_ticket_id rc = pm_ticket_id p
    \<and> (\<forall>reason. rc_outcome rc \<noteq> OPermitIntegrityRejected reason)
    \<and> (\<not> emergency_stop_requested ctl \<longrightarrow> \<not> cancel_requested ctl \<longrightarrow> reaches_backend p ctl)"
  by (rule pipeline_executes [OF assms])

section \<open>Witnesses\<close>

definition sample_pipeline :: "coordinator \<Rightarrow> synthetic_backend pipeline" where
  "sample_pipeline c = pipeline_new c sample_executor"

abbreviation sample_run_pipeline ::
  "coordinator \<Rightarrow> (synthetic_backend pipeline \<times> (local_execution_error + local_execution_result)) run" where
  "sample_run_pipeline c \<equiv>
     consume_and_execute sample_transport_ext sample_executor_ext synthetic_execute (sample_pipeline c) sample_use 0
       conservative_default \<lparr>cancel_requested = False, emergency_stop_requested = False\<rparr>"

lemma sample_reached:
  "\<exists>c p. (slot_step sample_transport_ext)\<^sup>*\<^sup>* (coordinator_new sample_gateway, 0) (c, 0)
     \<and> slots_ok sample_transport_ext (maximum_concurrency sample_compiled) (c, 0)
     \<and> use_permit (snd (consume (co_tickets c) sample_use (duration_milliseconds_saturated 0))) = Some p"
proof (rule sample_connected, goal_cases)
  case (1 c d t)
  have s: "(slot_step sample_transport_ext)\<^sup>*\<^sup>* (coordinator_new sample_gateway, 0) (c, 0)"
    by (rule r_into_rtranclp) (rule slot_step.connect [OF 1(1)])
  have "slots_ok sample_transport_ext (maximum_concurrency sample_compiled) (coordinator_new sample_gateway, 0)"
    using gateway_new_wf(1,4) [OF sample_gateway_new] authority_new_wf
    by (simp add: slots_ok_def coordinator_new_def sample_compiled_def sample_policy_def round64_two)
      (simp add: live_def ticket_authority_new_def)
  moreover have "use_permit (snd (consume (co_tickets c) sample_use (duration_milliseconds_saturated 0))) = Some (permit_of t)"
    using 1(2-5) find_none_all [of "binding_checks sample_use t"]
    by (simp add: consume_def sample_use_def duration_milliseconds_saturated_def as_millis_def Let_def)
  ultimately show ?case using s slots_reachable [OF s] by blast
qed

lemma sample_serializers:
  "\<exists>b. ser_executor sample_executor_ext m = Inr b" "\<exists>b. ser_fingerprint sample_executor_ext k = Inr b"
  "validate_limits conservative_default = Inr conservative_default"
  by (simp_all add: sample_executor_ext_def) code_simp

theorem live_ticket_executes_witness:
  "\<exists>c pl' u rc anchor. sample_run_pipeline c
      = Ret (pl', Inr \<lparr>lr_ticket_use = u, lr_execution_receipt = Some rc, lr_transport_audit_anchor = anchor\<rparr>)
    \<and> (\<forall>reason. rc_outcome rc \<noteq> OPermitIntegrityRejected reason)"
proof -
  obtain c p where c: "(slot_step sample_transport_ext)\<^sup>*\<^sup>* (coordinator_new sample_gateway, 0) (c, 0)"
    "use_permit (snd (consume (co_tickets c) sample_use (duration_milliseconds_saturated 0))) = Some p"
    using sample_reached by blast
  have "pl_transport (sample_pipeline c) = c" by (simp add: sample_pipeline_def pipeline_new_def)
  then show ?thesis
    using live_ticket_executes [OF sample_ext_ok(1,2) sample_serializers(1,2), of sample_gateway "sample_pipeline c" 0
        conservative_default sample_use 0 p synthetic_execute] c sample_serializers(3)
    by fastforce
qed

theorem pipeline_slot_accounting_witness:
  "\<exists>c pl' r. sample_run_pipeline c = Ret (pl', Inr r)
    \<and> unat (in_flight_requests (co_gateway (pl_transport pl'))) = unat (in_flight_requests (co_gateway c)) - 1
    \<and> at_ticket_id sample_use \<in> live (co_tickets c) - live (co_tickets (pl_transport pl'))"
proof -
  obtain c p where c: "(slot_step sample_transport_ext)\<^sup>*\<^sup>* (coordinator_new sample_gateway, 0) (c, 0)"
    "slots_ok sample_transport_ext (maximum_concurrency sample_compiled) (c, 0)"
    "use_permit (snd (consume (co_tickets c) sample_use (duration_milliseconds_saturated 0))) = Some p"
    using sample_reached by blast
  have t: "pl_transport (sample_pipeline c) = c" by (simp add: sample_pipeline_def pipeline_new_def)
  obtain pl' r where r: "sample_run_pipeline c = Ret (pl', Inr r)"
    using pipeline_executes [OF sample_ext_ok(1,2) sample_serializers(1,2), of sample_gateway "sample_pipeline c" 0
        conservative_default sample_use 0 p synthetic_execute] c sample_serializers(3) t
    by fastforce
  have "at_ticket_id sample_use \<in> live (co_tickets c)"
    using consume_live_outcome [OF prod.collapse [symmetric]] c(3) by blast
  then have "unat (in_flight_requests (co_gateway (pl_transport pl'))) = unat (in_flight_requests (co_gateway c)) - 1"
    "at_ticket_id sample_use \<in> live (co_tickets c) - live (co_tickets (pl_transport pl'))"
    using pipeline_slot_accounting [OF _ r, of "maximum_concurrency sample_compiled" 0] c(2) sample_ext_ok(2) unfolding t by auto
  then show ?thesis using r by blast
qed

end
