(* ===== verification/Stream.thy ===== *)
theory Stream
  imports Executor
begin

text \<open>
  The crate \<open>nxb-stream\<close>: a bounded byte stream above a completed execution. \<open>open\<close> checks the
  permit, the execution receipt and the record of the executor's audit chain against each other;
  \<open>read\<close>, \<open>write\<close> and \<open>close\<close> then call the backend under byte, operation and time budgets, and
  every call that is not refused is recorded in a hash chain anchored at the executor's record.

  The backend is a trait of the program: its three operations are the record \<open>stream_backend\<close>, a
  parameter of the operations. The serializers and SHA-256 are in \<open>stream_ext\<close>.
\<close>

section \<open>Data\<close>

definition MAX_STREAM_DIRECTION_BYTES :: u64 where
  "MAX_STREAM_DIRECTION_BYTES = 64 * 1024 * 1024"

definition MAX_STREAM_OPERATION_BYTES :: u64 where
  "MAX_STREAM_OPERATION_BYTES = 4 * 1024 * 1024"

definition MAX_STREAM_DEADLINE_MILLISECONDS :: u64 where
  "MAX_STREAM_DEADLINE_MILLISECONDS = 120000"

definition MAX_STREAM_OPERATIONS :: u64 where
  "MAX_STREAM_OPERATIONS = 100000"

record stream_limits =
  sl_maximum_read_bytes :: u64
  sl_maximum_write_bytes :: u64
  sl_maximum_operation_bytes :: u64
  sl_read_deadline :: u64
  sl_write_deadline :: u64
  sl_total_deadline :: u64
  sl_maximum_operations :: u64

record stream_control =
  sk_cancel_requested :: bool
  sk_emergency_stop_requested :: bool

datatype stream_direction = Read | Write

fun stream_direction_code :: "stream_direction \<Rightarrow> string" where
  "stream_direction_code Read = ''read''"
| "stream_direction_code Write = ''write''"

datatype stream_state =
  SOpen | SReadClosed | SWriteClosed | SClosed | SCancelled | SEmergencyStopped | STimedOut
| SBudgetExceeded | SReset | STruncated | SBackendFailed

fun stream_state_code :: "stream_state \<Rightarrow> string" where
  "stream_state_code SOpen = ''open''"
| "stream_state_code SReadClosed = ''read_closed''"
| "stream_state_code SWriteClosed = ''write_closed''"
| "stream_state_code SClosed = ''closed''"
| "stream_state_code SCancelled = ''cancelled''"
| "stream_state_code SEmergencyStopped = ''emergency_stopped''"
| "stream_state_code STimedOut = ''timed_out''"
| "stream_state_code SBudgetExceeded = ''budget_exceeded''"
| "stream_state_code SReset = ''reset''"
| "stream_state_code STruncated = ''truncated''"
| "stream_state_code SBackendFailed = ''backend_failed''"

fun stream_is_terminal :: "stream_state \<Rightarrow> bool" where
  "stream_is_terminal SOpen = False"
| "stream_is_terminal SReadClosed = False"
| "stream_is_terminal SWriteClosed = False"
| "stream_is_terminal _ = True"

datatype stream_outcome =
  SoOpened | SoData | SoWritten | SoPartialWrite | SoBackpressure | SoEof | SoClosed | SoCancelled
| SoEmergencyStopped | SoReadTimeout | SoWriteTimeout | SoTotalTimeout | SoReadBudgetExceeded
| SoWriteBudgetExceeded | SoOperationBudgetExceeded | SoReset | SoTruncated | SoBackendFailure string

fun stream_outcome_code :: "stream_outcome \<Rightarrow> string" where
  "stream_outcome_code SoOpened = ''opened''"
| "stream_outcome_code SoData = ''data''"
| "stream_outcome_code SoWritten = ''written''"
| "stream_outcome_code SoPartialWrite = ''partial_write''"
| "stream_outcome_code SoBackpressure = ''backpressure''"
| "stream_outcome_code SoEof = ''eof''"
| "stream_outcome_code SoClosed = ''closed''"
| "stream_outcome_code SoCancelled = ''cancelled''"
| "stream_outcome_code SoEmergencyStopped = ''emergency_stopped''"
| "stream_outcome_code SoReadTimeout = ''read_timeout''"
| "stream_outcome_code SoWriteTimeout = ''write_timeout''"
| "stream_outcome_code SoTotalTimeout = ''total_timeout''"
| "stream_outcome_code SoReadBudgetExceeded = ''read_budget_exceeded''"
| "stream_outcome_code SoWriteBudgetExceeded = ''write_budget_exceeded''"
| "stream_outcome_code SoOperationBudgetExceeded = ''operation_budget_exceeded''"
| "stream_outcome_code SoReset = ''reset''"
| "stream_outcome_code SoTruncated = ''truncated''"
| "stream_outcome_code (SoBackendFailure _) = ''backend_failure''"

definition stream_outcome_details :: "stream_outcome \<Rightarrow> (string \<times> string) list" where
  "stream_outcome_details u =
     (case u of SoBackendFailure backend_code \<Rightarrow> AList.update ''backend_code'' backend_code [] | _ \<Rightarrow> [])"

datatype backend_read_status =
  BrData string | BrEof | BrBackpressure | BrTimeout | BrReset | BrTruncated string | BrFailure string

record backend_read_report =
  br_elapsed :: u64
  br_status :: backend_read_status

datatype backend_write_status =
  BwWritten u64 | BwBackpressure | BwTimeout | BwReset | BwClosed | BwFailure string

record backend_write_report =
  bw_elapsed :: u64
  bw_status :: backend_write_status

text \<open>The trait \<open>ByteStreamBackend\<close>: each method takes the backend and returns it updated.\<close>

record 'b stream_backend =
  be_read :: "'b \<Rightarrow> u64 \<Rightarrow> u64 \<Rightarrow> 'b \<times> backend_read_report"
  be_write :: "'b \<Rightarrow> string \<Rightarrow> u64 \<Rightarrow> 'b \<times> backend_write_report"
  be_close :: "'b \<Rightarrow> 'b"

record stream_grant =
  sg_stream_id :: string
  sg_execution_id :: string
  sg_executor_id :: string
  sg_ticket_id :: string
  sg_decision_id :: string
  sg_dns_context_id :: string
  sg_binding_hash :: string
  sg_endpoint_fingerprint :: string
  sg_executor_audit_anchor :: string
  sg_remote_ip :: string
  sg_port :: u16
  sg_scheme :: string
  sg_sni :: "string option"
  sg_http_host :: string
  sg_redirect_depth :: u8

record stream_operation_receipt =
  op_operation_id :: string
  op_stream_id :: string
  op_direction :: "stream_direction option"
  op_outcome :: stream_outcome
  op_requested_bytes :: u64
  op_transferred_bytes :: u64
  op_payload_sha256 :: "string option"
  op_elapsed :: u64
  op_cumulative_read_bytes :: u64
  op_cumulative_written_bytes :: u64
  op_state_before :: stream_state
  op_state_after :: stream_state

record stream_read_result =
  rr_bytes :: string
  rr_receipt :: stream_operation_receipt

record stream_receipt =
  sr_stream_id :: string
  sr_execution_id :: string
  sr_executor_id :: string
  sr_ticket_id :: string
  sr_decision_id :: string
  sr_dns_context_id :: string
  sr_binding_hash :: string
  sr_endpoint_fingerprint :: string
  sr_executor_audit_anchor :: string
  sr_stream_audit_tail :: string
  sr_state :: stream_state
  sr_read_bytes :: u64
  sr_written_bytes :: u64
  sr_elapsed :: u64
  sr_operation_count :: u64

record stream_audit_event =
  sa_operation_id :: string
  sa_stream_id :: string
  sa_execution_id :: string
  sa_executor_id :: string
  sa_ticket_id :: string
  sa_decision_id :: string
  sa_dns_context_id :: string
  sa_binding_hash :: string
  sa_endpoint_fingerprint :: string
  sa_executor_audit_anchor :: string
  sa_remote_ip :: string
  sa_port :: u16
  sa_scheme :: string
  sa_sni :: "string option"
  sa_http_host :: string
  sa_redirect_depth :: u8
  sa_direction :: "string option"
  sa_outcome :: string
  sa_outcome_details :: "(string \<times> string) list"
  sa_requested_bytes :: u64
  sa_transferred_bytes :: u64
  sa_payload_sha256 :: "string option"
  sa_elapsed :: u64
  sa_cumulative_read_bytes :: u64
  sa_cumulative_written_bytes :: u64
  sa_state_before :: string
  sa_state_after :: string

type_synonym stream_audit_chain = "stream_audit_event anchored_chain"

datatype stream_open_error =
  OpenInvalidLimits string
| InvalidExecutorAudit chain_error
| MissingExecutorAuditRecord
| ExecutionNotCompleted
| OpenBindingMismatch string
| InvalidExecutorAuditAnchor

datatype stream_error =
  InvalidOperationSize | ReadSideClosed | WriteSideClosed | StreamTerminalState stream_state
| StreamAudit chain_error

record grant_material =
  gm_execution_id :: string
  gm_ticket_id :: string
  gm_binding_hash :: string
  gm_endpoint_fingerprint :: string
  gm_executor_audit_anchor :: string

record stream_ext =
  sx_executor :: executor_ext
  ser_stream :: "u64 \<times> string \<times> stream_audit_event \<Rightarrow> string + string"
  ser_grant :: "grant_material \<Rightarrow> string + string"

abbreviation sx_sha256 :: "stream_ext \<Rightarrow> string \<Rightarrow> string" where
  "sx_sha256 x \<equiv> ex_sha256 (sx_executor x)"

record 'b byte_stream =
  bs_grant :: stream_grant
  bs_limits :: stream_limits
  bs_backend :: 'b
  bs_state :: stream_state
  bs_read_bytes :: u64
  bs_written_bytes :: u64
  bs_elapsed :: u64
  bs_operation_count :: u64
  bs_audit :: stream_audit_chain

section \<open>Limits\<close>

definition stream_conservative_default :: stream_limits where
  "stream_conservative_default =
     \<lparr>sl_maximum_read_bytes = 2 * 1024 * 1024, sl_maximum_write_bytes = 256 * 1024,
      sl_maximum_operation_bytes = 64 * 1024, sl_read_deadline = 5000, sl_write_deadline = 5000,
      sl_total_deadline = 30000, sl_maximum_operations = 4096\<rparr>"

definition validate_stream_limits :: "stream_limits \<Rightarrow> stream_open_error + stream_limits" where
  "validate_stream_limits l =
     (if sl_maximum_read_bytes l = 0 \<or> sl_maximum_read_bytes l > MAX_STREAM_DIRECTION_BYTES then
        Inl (OpenInvalidLimits ''read budget is outside the supported range'')
      else if sl_maximum_write_bytes l = 0 \<or> sl_maximum_write_bytes l > MAX_STREAM_DIRECTION_BYTES then
        Inl (OpenInvalidLimits ''write budget is outside the supported range'')
      else if sl_maximum_operation_bytes l = 0 \<or> sl_maximum_operation_bytes l > MAX_STREAM_OPERATION_BYTES
              \<or> sl_maximum_operation_bytes l > max (sl_maximum_read_bytes l) (sl_maximum_write_bytes l) then
        Inl (OpenInvalidLimits ''operation byte budget is outside the supported range'')
      else if sl_read_deadline l = 0 \<or> sl_read_deadline l > MAX_STREAM_DEADLINE_MILLISECONDS then
        Inl (OpenInvalidLimits ''read deadline is outside the supported range'')
      else if sl_write_deadline l = 0 \<or> sl_write_deadline l > MAX_STREAM_DEADLINE_MILLISECONDS then
        Inl (OpenInvalidLimits ''write deadline is outside the supported range'')
      else if sl_total_deadline l < max (sl_read_deadline l) (sl_write_deadline l)
              \<or> sl_total_deadline l > MAX_STREAM_DEADLINE_MILLISECONDS then
        Inl (OpenInvalidLimits ''total deadline must cover operation deadlines and remain bounded'')
      else if sl_maximum_operations l = 0 \<or> sl_maximum_operations l > MAX_STREAM_OPERATIONS then
        Inl (OpenInvalidLimits ''operation count is outside the supported range'')
      else Inr l)"

section \<open>The audit chain\<close>

definition stream_audit_new :: "string \<Rightarrow> stream_open_error + stream_audit_chain" where
  "stream_audit_new anchor =
     (if \<not> is_lower_hex_sha256 anchor then Inl InvalidExecutorAuditAnchor
      else Inr \<lparr>chain_records = [], tail_hash = anchor, genesis_anchor = anchor\<rparr>)"

definition stream_record_hash :: "stream_ext \<Rightarrow> stream_audit_event record_hash" where
  "stream_record_hash x = chain_hash (ser_stream x) (sx_sha256 x)"

definition stream_append ::
  "stream_ext \<Rightarrow> stream_audit_chain \<Rightarrow> stream_audit_event
     \<Rightarrow> stream_audit_chain \<times> (chain_error + stream_audit_event chain_record)" where
  "stream_append x = chain_append (stream_record_hash x)"

definition stream_verify :: "stream_ext \<Rightarrow> stream_audit_chain \<Rightarrow> chain_error + unit" where
  "stream_verify x c = chain_verify (stream_record_hash x) (genesis_anchor c) c"

lemma stream_append_genesis [simp]:
  "stream_append x c e = (c', r) \<Longrightarrow> genesis_anchor c' = genesis_anchor c"
  using chain_append_genesis [of "stream_record_hash x" c e] by (simp add: stream_append_def)

interpretation stream_log: audit_log "stream_append x" "stream_verify x" chain_events
  for x
proof (unfold_locales, goal_cases)
  case (1 c e c' r)
  then show ?case using stream_append_genesis [OF 1(1)] chain_append_verify
    by (simp add: stream_verify_def stream_append_def)
qed (auto simp: stream_append_def chain_append_Inr dest: chain_append_Inl)

text \<open>The messages of \<open>StreamAuditError\<close> and \<open>StreamError\<close>, which a failed \<open>open\<close> copies.\<close>

fun stream_audit_error_message :: "chain_error \<Rightarrow> string" where
  "stream_audit_error_message (ChainSerialization e) = ''stream audit material could not be serialized: '' @ e"
| "stream_audit_error_message (SequenceMismatch i) = ''stream audit sequence mismatch at record '' @ decimal i"
| "stream_audit_error_message (PreviousHashMismatch i) = ''stream audit previous-hash mismatch at record '' @ decimal i"
| "stream_audit_error_message (RecordHashMismatch i) = ''stream audit record-hash mismatch at record '' @ decimal i"
| "stream_audit_error_message TailHashMismatch = ''stream audit tail hash does not match the final record''"

fun stream_state_debug :: "stream_state \<Rightarrow> string" where
  "stream_state_debug SOpen = ''Open''"
| "stream_state_debug SReadClosed = ''ReadClosed''"
| "stream_state_debug SWriteClosed = ''WriteClosed''"
| "stream_state_debug SClosed = ''Closed''"
| "stream_state_debug SCancelled = ''Cancelled''"
| "stream_state_debug SEmergencyStopped = ''EmergencyStopped''"
| "stream_state_debug STimedOut = ''TimedOut''"
| "stream_state_debug SBudgetExceeded = ''BudgetExceeded''"
| "stream_state_debug SReset = ''Reset''"
| "stream_state_debug STruncated = ''Truncated''"
| "stream_state_debug SBackendFailed = ''BackendFailed''"

fun stream_error_message :: "stream_error \<Rightarrow> string" where
  "stream_error_message InvalidOperationSize =
     ''stream operation size is zero or exceeds the configured per-operation limit''"
| "stream_error_message ReadSideClosed = ''stream read side is closed''"
| "stream_error_message WriteSideClosed = ''stream write side is closed''"
| "stream_error_message (StreamTerminalState s) = ''stream is in terminal state '' @ stream_state_debug s"
| "stream_error_message (StreamAudit e) =
     ''stream audit record could not be committed: '' @ stream_audit_error_message e"

section \<open>Outcomes\<close>

fun close_read_side :: "stream_state \<Rightarrow> stream_state" where
  "close_read_side SOpen = SReadClosed"
| "close_read_side SWriteClosed = SClosed"
| "close_read_side other = other"

fun close_write_side :: "stream_state \<Rightarrow> stream_state" where
  "close_write_side SOpen = SWriteClosed"
| "close_write_side SReadClosed = SClosed"
| "close_write_side other = other"

definition backend_read_overflow :: "string \<Rightarrow> string \<times> stream_outcome \<times> stream_state" where
  "backend_read_overflow code = ([], SoBackendFailure code, SBackendFailed)"

fun classify_read :: "backend_read_status \<Rightarrow> u64 \<Rightarrow> stream_state \<Rightarrow> string \<times> stream_outcome \<times> stream_state" where
  "classify_read (BrData bytes) maximum_bytes state =
     (if length bytes \<le> unat maximum_bytes then (bytes, SoData, state)
      else backend_read_overflow ''backend_read_overflow'')"
| "classify_read BrEof maximum_bytes state = ([], SoEof, close_read_side state)"
| "classify_read BrBackpressure maximum_bytes state = ([], SoBackpressure, state)"
| "classify_read BrTimeout maximum_bytes state = ([], SoReadTimeout, STimedOut)"
| "classify_read BrReset maximum_bytes state = ([], SoReset, SReset)"
| "classify_read (BrTruncated bytes) maximum_bytes state =
     (if length bytes \<le> unat maximum_bytes then (bytes, SoTruncated, STruncated)
      else backend_read_overflow ''backend_truncated_read_overflow'')"
| "classify_read (BrFailure code) maximum_bytes state =
     ([], SoBackendFailure (sanitize_backend_code code), SBackendFailed)"

fun classify_write :: "backend_write_status \<Rightarrow> u64 \<Rightarrow> stream_state \<Rightarrow> u64 \<times> stream_outcome \<times> stream_state" where
  "classify_write (BwWritten accepted) requested state =
     (if accepted \<le> requested then
        (accepted, if accepted = requested then SoWritten else SoPartialWrite, state)
      else (0, SoBackendFailure ''backend_write_overflow'', SBackendFailed))"
| "classify_write BwBackpressure requested state = (0, SoBackpressure, state)"
| "classify_write BwTimeout requested state = (0, SoWriteTimeout, STimedOut)"
| "classify_write BwReset requested state = (0, SoReset, SReset)"
| "classify_write BwClosed requested state = (0, SoClosed, close_write_side state)"
| "classify_write (BwFailure code) requested state =
     (0, SoBackendFailure (sanitize_backend_code code), SBackendFailed)"

definition control_outcome :: "stream_control \<Rightarrow> stream_outcome option" where
  "control_outcome ctl =
     (if sk_emergency_stop_requested ctl then Some SoEmergencyStopped
      else if sk_cancel_requested ctl then Some SoCancelled else None)"

fun stream_terminal_state :: "stream_outcome \<Rightarrow> stream_state \<Rightarrow> stream_state" where
  "stream_terminal_state SoCancelled current = SCancelled"
| "stream_terminal_state SoEmergencyStopped current = SEmergencyStopped"
| "stream_terminal_state SoReadTimeout current = STimedOut"
| "stream_terminal_state SoWriteTimeout current = STimedOut"
| "stream_terminal_state SoTotalTimeout current = STimedOut"
| "stream_terminal_state SoReadBudgetExceeded current = SBudgetExceeded"
| "stream_terminal_state SoWriteBudgetExceeded current = SBudgetExceeded"
| "stream_terminal_state SoOperationBudgetExceeded current = SBudgetExceeded"
| "stream_terminal_state SoReset current = SReset"
| "stream_terminal_state SoTruncated current = STruncated"
| "stream_terminal_state (SoBackendFailure _) current = SBackendFailed"
| "stream_terminal_state SoEof current = close_read_side current"
| "stream_terminal_state SoClosed current = close_write_side current"
| "stream_terminal_state _ current = current"

section \<open>Binding to an execution\<close>

text \<open>The crate carries its own copy of the executor's endpoint fingerprint.\<close>

definition stream_endpoint_fingerprint :: "stream_ext \<Rightarrow> transport_permit \<Rightarrow> string \<Rightarrow> string run" where
  "stream_endpoint_fingerprint x p anchor =
     (case ser_fingerprint (sx_executor x)
         \<lparr>fm_ticket_id = pm_ticket_id p, fm_decision_id = pm_decision_id p,
          fm_dns_context_id = pm_dns_context_id p, fm_scheme = transport_scheme_code (pm_scheme p),
          fm_remote_ip = pm_remote_ip p, fm_port = pm_port p, fm_sni = pm_sni p,
          fm_http_host = pm_http_host p, fm_redirect_depth = pm_redirect_depth p,
          fm_binding_hash = pm_binding_hash p, fm_transport_audit_anchor = anchor\<rparr> of
        Inl _ \<Rightarrow> Panic
      | Inr bytes \<Rightarrow> Ret (to_lower_hex (sx_sha256 x bytes)))"

text \<open>The table of checks, in the order of the source; the first that fails names its field.\<close>

definition binding_checks ::
  "transport_permit \<Rightarrow> execution_receipt \<Rightarrow> executor_audit_event \<Rightarrow> string \<Rightarrow> (bool \<times> string) list" where
  "binding_checks p rc ev fp =
     [(rc_ticket_id rc = pm_ticket_id p \<and> xe_ticket_id ev = pm_ticket_id p, ''ticket_id''),
      (rc_decision_id rc = pm_decision_id p \<and> xe_decision_id ev = pm_decision_id p, ''decision_id''),
      (rc_dns_context_id rc = pm_dns_context_id p \<and> xe_dns_context_id ev = pm_dns_context_id p, ''dns_context_id''),
      (rc_binding_hash rc = pm_binding_hash p \<and> xe_binding_hash ev = pm_binding_hash p, ''binding_hash''),
      (rc_endpoint_fingerprint rc = fp \<and> xe_endpoint_fingerprint ev = fp, ''endpoint_fingerprint''),
      (xe_execution_id ev = rc_execution_id rc, ''execution_id''),
      (xe_executor_id ev = rc_executor_id rc, ''executor_id''),
      (xe_transport_audit_anchor ev = rc_transport_audit_anchor rc, ''transport_audit_anchor''),
      (xe_remote_ip ev = ip_to_string (pm_remote_ip p), ''remote_ip''),
      (xe_port ev = pm_port p, ''port''),
      (xe_scheme ev = transport_scheme_code (pm_scheme p), ''scheme''),
      (xe_sni ev = pm_sni p, ''sni''),
      (xe_http_host ev = pm_http_host p, ''http_host''),
      (xe_redirect_depth ev = pm_redirect_depth p, ''redirect_depth''),
      (xe_outcome ev = execution_outcome_code OCompleted, ''outcome''),
      (xe_read_bytes ev = rc_read_bytes rc \<and> xe_written_bytes ev = rc_written_bytes rc, ''byte_counters'')]"

fun first_failed :: "(bool \<times> string) list \<Rightarrow> string option" where
  "first_failed [] = None"
| "first_failed ((matches, field) # cs) = (if \<not> matches then Some field else first_failed cs)"

definition validate_execution_binding ::
  "stream_ext \<Rightarrow> transport_permit \<Rightarrow> execution_receipt \<Rightarrow> executor_audit_event chain_record
     \<Rightarrow> (stream_open_error + unit) run" where
  "validate_execution_binding x p rc r =
     (if rc_outcome rc \<noteq> OCompleted \<or> rc_state_history rc = [] \<or> last (rc_state_history rc) \<noteq> Completed
      then Ret (Inl ExecutionNotCompleted)
      else case stream_endpoint_fingerprint x p (rc_transport_audit_anchor rc) of
        Panic \<Rightarrow> Panic
      | Ret fp \<Rightarrow>
          (case first_failed (binding_checks p rc (rec_event r) fp) of
             Some field \<Rightarrow> Ret (Inl (OpenBindingMismatch field))
           | None \<Rightarrow> Ret (Inr ())))"

text \<open>\<open>&digest[..32]\<close> panics on a digest of less than 16 bytes.\<close>

definition make_stream_grant ::
  "stream_ext \<Rightarrow> transport_permit \<Rightarrow> execution_receipt \<Rightarrow> string \<Rightarrow> stream_grant run" where
  "make_stream_grant x p rc anchor =
     (case ser_grant x
         \<lparr>gm_execution_id = rc_execution_id rc, gm_ticket_id = pm_ticket_id p,
          gm_binding_hash = pm_binding_hash p, gm_endpoint_fingerprint = rc_endpoint_fingerprint rc,
          gm_executor_audit_anchor = anchor\<rparr> of
        Inl _ \<Rightarrow> Panic
      | Inr bytes \<Rightarrow>
          let digest = to_lower_hex (sx_sha256 x bytes) in
          if length digest < 32 then Panic
          else Ret
            \<lparr>sg_stream_id = ''stream-'' @ take 32 digest, sg_execution_id = rc_execution_id rc,
             sg_executor_id = rc_executor_id rc, sg_ticket_id = pm_ticket_id p,
             sg_decision_id = pm_decision_id p, sg_dns_context_id = pm_dns_context_id p,
             sg_binding_hash = pm_binding_hash p, sg_endpoint_fingerprint = rc_endpoint_fingerprint rc,
             sg_executor_audit_anchor = anchor, sg_remote_ip = ip_to_string (pm_remote_ip p),
             sg_port = pm_port p, sg_scheme = transport_scheme_code (pm_scheme p), sg_sni = pm_sni p,
             sg_http_host = pm_http_host p, sg_redirect_depth = pm_redirect_depth p\<rparr>)"

section \<open>Recording an operation\<close>

record operation_metrics =
  om_requested_bytes :: u64
  om_transferred_bytes :: u64
  om_payload_sha256 :: "string option"
  om_elapsed :: u64

definition metrics_default :: operation_metrics where
  "metrics_default =
     \<lparr>om_requested_bytes = 0, om_transferred_bytes = 0, om_payload_sha256 = None, om_elapsed = 0\<rparr>"

definition metrics_requested :: "u64 \<Rightarrow> u64 \<Rightarrow> operation_metrics" where
  "metrics_requested requested_bytes elapsed =
     metrics_default\<lparr>om_requested_bytes := requested_bytes, om_elapsed := elapsed\<rparr>"

definition payload_hash :: "stream_ext \<Rightarrow> string \<Rightarrow> string" where
  "payload_hash x bytes = to_lower_hex (sx_sha256 x bytes)"

definition stream_operation_id :: "stream_grant \<Rightarrow> u64 \<Rightarrow> string" where
  "stream_operation_id g n = sg_stream_id g @ ''-operation-'' @ decimal_pad 20 (unat n)"

definition operation_receipt ::
  "'b byte_stream \<Rightarrow> stream_direction option \<Rightarrow> stream_outcome \<Rightarrow> operation_metrics
     \<Rightarrow> stream_state \<Rightarrow> stream_state \<Rightarrow> stream_operation_receipt" where
  "operation_receipt s direction outcome m state_before state_after =
     \<lparr>op_operation_id = stream_operation_id (bs_grant s) (bs_operation_count s),
      op_stream_id = sg_stream_id (bs_grant s), op_direction = direction, op_outcome = outcome,
      op_requested_bytes = om_requested_bytes m, op_transferred_bytes = om_transferred_bytes m,
      op_payload_sha256 = om_payload_sha256 m, op_elapsed = om_elapsed m,
      op_cumulative_read_bytes = bs_read_bytes s, op_cumulative_written_bytes = bs_written_bytes s,
      op_state_before = state_before, op_state_after = state_after\<rparr>"

definition operation_event ::
  "'b byte_stream \<Rightarrow> stream_direction option \<Rightarrow> stream_outcome \<Rightarrow> operation_metrics
     \<Rightarrow> stream_state \<Rightarrow> stream_state \<Rightarrow> stream_audit_event" where
  "operation_event s direction outcome m state_before state_after =
     (let g = bs_grant s in
     \<lparr>sa_operation_id = stream_operation_id g (bs_operation_count s),
      sa_stream_id = sg_stream_id g, sa_execution_id = sg_execution_id g,
      sa_executor_id = sg_executor_id g, sa_ticket_id = sg_ticket_id g,
      sa_decision_id = sg_decision_id g, sa_dns_context_id = sg_dns_context_id g,
      sa_binding_hash = sg_binding_hash g, sa_endpoint_fingerprint = sg_endpoint_fingerprint g,
      sa_executor_audit_anchor = sg_executor_audit_anchor g, sa_remote_ip = sg_remote_ip g,
      sa_port = sg_port g, sa_scheme = sg_scheme g, sa_sni = sg_sni g, sa_http_host = sg_http_host g,
      sa_redirect_depth = sg_redirect_depth g,
      sa_direction = map_option stream_direction_code direction,
      sa_outcome = stream_outcome_code outcome, sa_outcome_details = stream_outcome_details outcome,
      sa_requested_bytes = om_requested_bytes m, sa_transferred_bytes = om_transferred_bytes m,
      sa_payload_sha256 = om_payload_sha256 m, sa_elapsed = om_elapsed m,
      sa_cumulative_read_bytes = bs_read_bytes s, sa_cumulative_written_bytes = bs_written_bytes s,
      sa_state_before = stream_state_code state_before, sa_state_after = stream_state_code state_after\<rparr>)"

definition stream_record ::
  "stream_ext \<Rightarrow> 'b byte_stream \<Rightarrow> stream_direction option \<Rightarrow> stream_outcome \<Rightarrow> operation_metrics
     \<Rightarrow> stream_state \<Rightarrow> stream_state \<Rightarrow> 'b byte_stream \<times> (stream_error + stream_operation_receipt)" where
  "stream_record x s direction outcome m state_before state_after =
     (let s = s\<lparr>bs_operation_count := saturating_add (bs_operation_count s) 1\<rparr>;
          receipt = operation_receipt s direction outcome m state_before state_after in
      case stream_append x (bs_audit s) (operation_event s direction outcome m state_before state_after) of
        (a, Inl err) \<Rightarrow> (s\<lparr>bs_audit := a\<rparr>, Inl (StreamAudit err))
      | (a, Inr _) \<Rightarrow> (s\<lparr>bs_audit := a\<rparr>, Inr receipt))"

section \<open>The stream\<close>

definition stream_open ::
  "stream_ext \<Rightarrow> transport_permit \<Rightarrow> execution_receipt \<Rightarrow> executor_audit_chain \<Rightarrow> stream_limits \<Rightarrow> 'b
     \<Rightarrow> (stream_open_error + 'b byte_stream) run" where
  "stream_open x p rc executor_audit limits backend =
     (case validate_stream_limits limits of
        Inl err \<Rightarrow> Ret (Inl err)
      | Inr limits \<Rightarrow>
     (case executor_verify (sx_executor x) executor_audit of
        Inl err \<Rightarrow> Ret (Inl (InvalidExecutorAudit err))
      | Inr _ \<Rightarrow>
     (case find (\<lambda>r. xe_execution_id (rec_event r) = rc_execution_id rc) (chain_records executor_audit) of
        None \<Rightarrow> Ret (Inl MissingExecutorAuditRecord)
      | Some r \<Rightarrow>
     (case validate_execution_binding x p rc r of
        Panic \<Rightarrow> Panic
      | Ret (Inl err) \<Rightarrow> Ret (Inl err)
      | Ret (Inr _) \<Rightarrow>
     (case make_stream_grant x p rc (rec_hash r) of
        Panic \<Rightarrow> Panic
      | Ret grant \<Rightarrow>
     (case stream_audit_new (rec_hash r) of
        Inl err \<Rightarrow> Ret (Inl err)
      | Inr audit \<Rightarrow>
          let s = \<lparr>bs_grant = grant, bs_limits = limits, bs_backend = backend, bs_state = SOpen,
                   bs_read_bytes = 0, bs_written_bytes = 0, bs_elapsed = 0, bs_operation_count = 0,
                   bs_audit = audit\<rparr> in
          (case stream_record x s None SoOpened metrics_default SOpen SOpen of
             (s, Inl err) \<Rightarrow> Ret (Inl (OpenBindingMismatch (''initial_stream_audit:'' @ stream_error_message err)))
           | (s, Inr _) \<Rightarrow> Ret (Inr s))))))))"

definition validate_operation_size :: "'b byte_stream \<Rightarrow> u64 \<Rightarrow> stream_error + unit" where
  "validate_operation_size s requested =
     (if requested = 0 \<or> requested > sl_maximum_operation_bytes (bs_limits s) then Inl InvalidOperationSize
      else Inr ())"

definition ensure_readable :: "'b byte_stream \<Rightarrow> stream_error + unit" where
  "ensure_readable s =
     (case bs_state s of
        SOpen \<Rightarrow> Inr () | SWriteClosed \<Rightarrow> Inr ()
      | SReadClosed \<Rightarrow> Inl ReadSideClosed | SClosed \<Rightarrow> Inl ReadSideClosed
      | state \<Rightarrow> Inl (StreamTerminalState state))"

definition ensure_writable :: "'b byte_stream \<Rightarrow> stream_error + unit" where
  "ensure_writable s =
     (case bs_state s of
        SOpen \<Rightarrow> Inr () | SReadClosed \<Rightarrow> Inr ()
      | SWriteClosed \<Rightarrow> Inl WriteSideClosed | SClosed \<Rightarrow> Inl WriteSideClosed
      | state \<Rightarrow> Inl (StreamTerminalState state))"

text \<open>A recorded read returns its bytes with the receipt.\<close>

definition with_bytes ::
  "string \<Rightarrow> 'b byte_stream \<times> (stream_error + stream_operation_receipt)
     \<Rightarrow> 'b byte_stream \<times> (stream_error + stream_read_result)" where
  "with_bytes bytes q =
     (fst q, bind_r (snd q) (\<lambda>receipt. Inr \<lparr>rr_bytes = bytes, rr_receipt = receipt\<rparr>))"

definition finish_without_backend ::
  "stream_ext \<Rightarrow> stream_direction \<Rightarrow> 'b byte_stream \<Rightarrow> u64 \<Rightarrow> stream_outcome
     \<Rightarrow> 'b byte_stream \<times> (stream_error + stream_operation_receipt)" where
  "finish_without_backend x d s requested outcome =
     (let before = bs_state s; s = s\<lparr>bs_state := stream_terminal_state outcome (bs_state s)\<rparr> in
      stream_record x s (Some d) outcome (metrics_requested requested 0) before (bs_state s))"

definition finish_read_without_backend ::
  "stream_ext \<Rightarrow> 'b byte_stream \<Rightarrow> u64 \<Rightarrow> stream_outcome \<Rightarrow> 'b byte_stream \<times> (stream_error + stream_read_result)" where
  "finish_read_without_backend x s requested outcome =
     with_bytes [] (finish_without_backend x Read s requested outcome)"

definition finish_write_without_backend ::
  "stream_ext \<Rightarrow> 'b byte_stream \<Rightarrow> u64 \<Rightarrow> stream_outcome
     \<Rightarrow> 'b byte_stream \<times> (stream_error + stream_operation_receipt)" where
  "finish_write_without_backend x s requested outcome = finish_without_backend x Write s requested outcome"

text \<open>
  What both directions do with the elapsed time of a backend call: the stream with the time
  charged, and the outcome of a missed deadline.
\<close>

definition charge_time :: "'b byte_stream \<Rightarrow> u64 \<Rightarrow> u64 \<Rightarrow> stream_outcome \<Rightarrow> 'b byte_stream \<times> stream_outcome option" where
  "charge_time s elapsed deadline late =
     (let total_after = saturating_add (bs_elapsed s) elapsed; s = s\<lparr>bs_elapsed := total_after\<rparr> in
      if elapsed > deadline then (s\<lparr>bs_state := STimedOut\<rparr>, Some late)
      else if total_after > sl_total_deadline (bs_limits s) then (s\<lparr>bs_state := STimedOut\<rparr>, Some SoTotalTimeout)
      else (s, None))"

definition stream_read ::
  "stream_ext \<Rightarrow> 'b stream_backend \<Rightarrow> 'b byte_stream \<Rightarrow> u64 \<Rightarrow> stream_control
     \<Rightarrow> 'b byte_stream \<times> (stream_error + stream_read_result)" where
  "stream_read x be s maximum_bytes ctl =
     (case bind_r (validate_operation_size s maximum_bytes) (\<lambda>_. ensure_readable s) of
        Inl err \<Rightarrow> (s, Inl err)
      | Inr _ \<Rightarrow>
     (case control_outcome ctl of
        Some outcome \<Rightarrow> finish_read_without_backend x s maximum_bytes outcome
      | None \<Rightarrow>
          if bs_operation_count s \<ge> sl_maximum_operations (bs_limits s) then
            finish_read_without_backend x s maximum_bytes SoOperationBudgetExceeded
          else if maximum_bytes > saturating_sub (sl_maximum_read_bytes (bs_limits s)) (bs_read_bytes s) then
            finish_read_without_backend x s maximum_bytes SoReadBudgetExceeded
          else
            let before = bs_state s;
                (b, report) = be_read be (bs_backend s) maximum_bytes (sl_read_deadline (bs_limits s));
                s = s\<lparr>bs_backend := b\<rparr>;
                elapsed = br_elapsed report in
            (case charge_time s elapsed (sl_read_deadline (bs_limits s)) SoReadTimeout of
               (s, Some outcome) \<Rightarrow>
                 with_bytes [] (stream_record x s (Some Read) outcome (metrics_requested maximum_bytes elapsed)
                   before (bs_state s))
             | (s, None) \<Rightarrow>
                 let (bytes, outcome, next_state) = classify_read (br_status report) maximum_bytes (bs_state s);
                     transferred = of_nat (length bytes) in
                 if saturating_add (bs_read_bytes s) transferred > sl_maximum_read_bytes (bs_limits s) then
                   let s = s\<lparr>bs_state := SBudgetExceeded\<rparr> in
                   with_bytes [] (stream_record x s (Some Read) SoReadBudgetExceeded
                     (metrics_requested maximum_bytes elapsed) before (bs_state s))
                 else
                   let s = s\<lparr>bs_read_bytes := saturating_add (bs_read_bytes s) transferred, bs_state := next_state\<rparr>;
                       m = \<lparr>om_requested_bytes = maximum_bytes, om_transferred_bytes = transferred,
                            om_payload_sha256 = (if bytes \<noteq> [] then Some (payload_hash x bytes) else None),
                            om_elapsed = elapsed\<rparr> in
                   with_bytes bytes (stream_record x s (Some Read) outcome m before (bs_state s)))))"

definition stream_write ::
  "stream_ext \<Rightarrow> 'b stream_backend \<Rightarrow> 'b byte_stream \<Rightarrow> string \<Rightarrow> stream_control
     \<Rightarrow> 'b byte_stream \<times> (stream_error + stream_operation_receipt)" where
  "stream_write x be s bytes ctl =
     (let requested = of_nat (length bytes) in
      case bind_r (validate_operation_size s requested) (\<lambda>_. ensure_writable s) of
        Inl err \<Rightarrow> (s, Inl err)
      | Inr _ \<Rightarrow>
     (case control_outcome ctl of
        Some outcome \<Rightarrow> finish_write_without_backend x s requested outcome
      | None \<Rightarrow>
          if bs_operation_count s \<ge> sl_maximum_operations (bs_limits s) then
            finish_write_without_backend x s requested SoOperationBudgetExceeded
          else if requested > saturating_sub (sl_maximum_write_bytes (bs_limits s)) (bs_written_bytes s) then
            finish_write_without_backend x s requested SoWriteBudgetExceeded
          else
            let before = bs_state s;
                (b, report) = be_write be (bs_backend s) bytes (sl_write_deadline (bs_limits s));
                s = s\<lparr>bs_backend := b\<rparr>;
                elapsed = bw_elapsed report in
            (case charge_time s elapsed (sl_write_deadline (bs_limits s)) SoWriteTimeout of
               (s, Some outcome) \<Rightarrow>
                 stream_record x s (Some Write) outcome (metrics_requested requested elapsed) before (bs_state s)
             | (s, None) \<Rightarrow>
                 let (accepted, outcome, next_state) = classify_write (bw_status report) requested (bs_state s) in
                 if saturating_add (bs_written_bytes s) accepted > sl_maximum_write_bytes (bs_limits s) then
                   let s = s\<lparr>bs_state := SBudgetExceeded\<rparr> in
                   stream_record x s (Some Write) SoWriteBudgetExceeded
                     (metrics_requested requested elapsed) before (bs_state s)
                 else
                   let s = s\<lparr>bs_written_bytes := saturating_add (bs_written_bytes s) accepted, bs_state := next_state\<rparr>;
                       m = \<lparr>om_requested_bytes = requested, om_transferred_bytes = accepted,
                            om_payload_sha256 =
                              (if accepted > 0 then Some (payload_hash x (take (unat accepted) bytes)) else None),
                            om_elapsed = elapsed\<rparr> in
                   stream_record x s (Some Write) outcome m before (bs_state s))))"

definition stream_close ::
  "stream_ext \<Rightarrow> 'b stream_backend \<Rightarrow> 'b byte_stream \<Rightarrow> 'b byte_stream \<times> (stream_error + stream_operation_receipt)" where
  "stream_close x be s =
     (if stream_is_terminal (bs_state s) then (s, Inl (StreamTerminalState (bs_state s)))
      else
        let before = bs_state s;
            s = s\<lparr>bs_backend := be_close be (bs_backend s), bs_state := SClosed\<rparr> in
        stream_record x s None SoClosed metrics_default before (bs_state s))"

definition receipt_of_stream :: "'b byte_stream \<Rightarrow> stream_receipt" where
  "receipt_of_stream s =
     (let g = bs_grant s in
     \<lparr>sr_stream_id = sg_stream_id g, sr_execution_id = sg_execution_id g, sr_executor_id = sg_executor_id g,
      sr_ticket_id = sg_ticket_id g, sr_decision_id = sg_decision_id g,
      sr_dns_context_id = sg_dns_context_id g, sr_binding_hash = sg_binding_hash g,
      sr_endpoint_fingerprint = sg_endpoint_fingerprint g,
      sr_executor_audit_anchor = sg_executor_audit_anchor g,
      sr_stream_audit_tail = tail_hash (bs_audit s), sr_state = bs_state s,
      sr_read_bytes = bs_read_bytes s, sr_written_bytes = bs_written_bytes s,
      sr_elapsed = bs_elapsed s, sr_operation_count = bs_operation_count s\<rparr>)"

section \<open>What one operation does\<close>

lemma validate_stream_limits_Inr: "validate_stream_limits l = Inr l' \<Longrightarrow> l' = l"
  by (auto simp: validate_stream_limits_def split: if_split_asm)

lemma validate_stream_limits_bounds:
  assumes "validate_stream_limits l = Inr l'"
  shows "0 < sl_maximum_read_bytes l" "sl_maximum_read_bytes l \<le> 67108864"
    "0 < sl_maximum_write_bytes l" "sl_maximum_write_bytes l \<le> 67108864"
    "0 < sl_maximum_operation_bytes l" "sl_maximum_operation_bytes l \<le> 4194304"
    "sl_read_deadline l \<le> sl_total_deadline l" "sl_write_deadline l \<le> sl_total_deadline l"
    "sl_total_deadline l \<le> 120000" "0 < sl_maximum_operations l" "sl_maximum_operations l \<le> 100000"
  using assms
  by (auto simp: validate_stream_limits_def MAX_STREAM_DIRECTION_BYTES_def MAX_STREAM_OPERATION_BYTES_def
      MAX_STREAM_DEADLINE_MILLISECONDS_def MAX_STREAM_OPERATIONS_def not_less word_gt_0 split: if_split_asm)

lemma stream_record_result:
  assumes "stream_record x s d u m b a = (s', q)"
  obtains (recorded) au where
      "q = Inr (operation_receipt (s\<lparr>bs_operation_count := saturating_add (bs_operation_count s) 1\<rparr>) d u m b a)"
      "s' = s\<lparr>bs_operation_count := saturating_add (bs_operation_count s) 1, bs_audit := au\<rparr>"
      "log_extends (stream_verify x) chain_events (bs_audit s) au" "genesis_anchor au = genesis_anchor (bs_audit s)"
      "chain_events au = chain_events (bs_audit s)
        @ [operation_event (s\<lparr>bs_operation_count := saturating_add (bs_operation_count s) 1\<rparr>) d u m b a]"
  | (unrecorded) err where "q = Inl (StreamAudit err)"
      "s' = s\<lparr>bs_operation_count := saturating_add (bs_operation_count s) 1\<rparr>"
proof -
  let ?s = "s\<lparr>bs_operation_count := saturating_add (bs_operation_count s) 1\<rparr>"
  obtain au z where ap: "stream_append x (bs_audit s) (operation_event ?s d u m b a) = (au, z)" by fastforce
  show thesis
  proof (cases z)
    case (Inl err)
    then have "au = bs_audit s" using stream_log.append_fails ap by blast
    then show thesis using assms ap Inl by (intro unrecorded) (auto simp: stream_record_def Let_def)
  next
    case (Inr r)
    then show thesis using assms ap stream_log.append_adds [of x _ _ au r] stream_log.extends_append [OF ap]
        stream_append_genesis [OF ap]
      by (intro recorded [of au]) (auto simp: stream_record_def Let_def)
  qed
qed

text \<open>What a receipt and its audit event both show of an operation.\<close>

definition receipt_view :: "stream_operation_receipt \<Rightarrow>
    (string \<times> string option \<times> string) \<times> (u64 \<times> u64 \<times> string option \<times> u64) \<times> u64 \<times> u64 \<times> string \<times> string" where
  "receipt_view rc =
     ((op_operation_id rc, map_option stream_direction_code (op_direction rc), stream_outcome_code (op_outcome rc)),
      (op_requested_bytes rc, op_transferred_bytes rc, op_payload_sha256 rc, op_elapsed rc),
      op_cumulative_read_bytes rc, op_cumulative_written_bytes rc,
      stream_state_code (op_state_before rc), stream_state_code (op_state_after rc))"

definition event_view :: "stream_audit_event \<Rightarrow>
    (string \<times> string option \<times> string) \<times> (u64 \<times> u64 \<times> string option \<times> u64) \<times> u64 \<times> u64 \<times> string \<times> string" where
  "event_view ev =
     ((sa_operation_id ev, sa_direction ev, sa_outcome ev),
      (sa_requested_bytes ev, sa_transferred_bytes ev, sa_payload_sha256 ev, sa_elapsed ev),
      sa_cumulative_read_bytes ev, sa_cumulative_written_bytes ev, sa_state_before ev, sa_state_after ev)"

lemma event_view_operation: "event_view (operation_event s d u m b a) = receipt_view (operation_receipt s d u m b a)"
  by (simp add: event_view_def receipt_view_def operation_event_def operation_receipt_def Let_def)

definition option_list :: "'a option \<Rightarrow> 'a list" where
  "option_list m = (case m of None \<Rightarrow> [] | Some a \<Rightarrow> [a])"

lemma option_list_simps [simp]: "option_list None = []" "option_list (Some a) = [a]"
  by (simp_all add: option_list_def)

lemma stream_record_effect:
  assumes "stream_record x s d u m b a = (s', q)"
  shows "s' = s\<lparr>bs_operation_count := saturating_add (bs_operation_count s) 1, bs_audit := bs_audit s'\<rparr>"
    "log_extends (stream_verify x) chain_events (bs_audit s) (bs_audit s')"
    "genesis_anchor (bs_audit s') = genesis_anchor (bs_audit s)"
    "length (chain_records (bs_audit s')) \<le> Suc (length (chain_records (bs_audit s)))"
    "\<And>rc. q = Inr rc \<Longrightarrow> rc = operation_receipt (s\<lparr>bs_operation_count := saturating_add (bs_operation_count s) 1\<rparr>) d u m b a
        \<and> length (chain_records (bs_audit s')) = Suc (length (chain_records (bs_audit s)))"
    "\<And>e. q = Inl e \<Longrightarrow> (\<exists>y. e = StreamAudit y) \<and> bs_audit s' = bs_audit s"
    "map event_view (chain_events (bs_audit s')) = map event_view (chain_events (bs_audit s))
       @ map receipt_view (option_list (case q of Inr rc \<Rightarrow> Some rc | Inl _ \<Rightarrow> None))"
  using assms
  by (atomize (full), cases rule: stream_record_result)
    (auto simp: stream_log.extends_refl event_view_operation map_map [symmetric] simp del: map_map
      dest: arg_cong [of _ _ length])

lemma stream_record_fields:
  assumes "stream_record x s d u m b a = (s', q)"
  shows "bs_state s' = bs_state s" "bs_backend s' = bs_backend s" "bs_limits s' = bs_limits s"
    "bs_read_bytes s' = bs_read_bytes s" "bs_written_bytes s' = bs_written_bytes s" "bs_elapsed s' = bs_elapsed s"
    "bs_grant s' = bs_grant s" "bs_operation_count s' = saturating_add (bs_operation_count s) 1"
    "\<And>rc. q = Inr rc \<Longrightarrow> op_outcome rc = u \<and> op_transferred_bytes rc = om_transferred_bytes m"
  using assms
  by (atomize (full), cases rule: stream_record_result) (auto simp: operation_receipt_def)

lemma metrics_requested_transferred [simp]: "om_transferred_bytes (metrics_requested n e) = 0"
  by (simp add: metrics_requested_def metrics_default_def)

definition can_read :: "'b byte_stream \<Rightarrow> u64 \<Rightarrow> bool" where
  "can_read s n \<longleftrightarrow> 0 < n \<and> n \<le> sl_maximum_operation_bytes (bs_limits s) \<and> bs_state s \<in> {SOpen, SWriteClosed}"

definition can_write :: "'b byte_stream \<Rightarrow> u64 \<Rightarrow> bool" where
  "can_write s n \<longleftrightarrow> 0 < n \<and> n \<le> sl_maximum_operation_bytes (bs_limits s) \<and> bs_state s \<in> {SOpen, SReadClosed}"

lemma read_guard:
  "bind_r (validate_operation_size s n) (\<lambda>_. ensure_readable s) = Inr () \<longleftrightarrow> can_read s n"
  by (auto simp: validate_operation_size_def ensure_readable_def can_read_def not_less word_gt_0
      split: stream_state.splits)

lemma write_guard:
  "bind_r (validate_operation_size s n) (\<lambda>_. ensure_writable s) = Inr () \<longleftrightarrow> can_write s n"
  by (auto simp: validate_operation_size_def ensure_writable_def can_write_def not_less word_gt_0
      split: stream_state.splits)

lemma saturating_add_within:
  assumes "a \<le> saturating_sub M (c :: u64)" "0 < a" "unat v \<le> unat a"
  shows "\<not> saturating_add c v > M" "unat (saturating_add c v) = unat c + unat v"
proof -
  have "unat a \<le> unat M - unat c" "0 < unat a"
    using assms(1,2) by (simp_all add: word_le_nat_alt unat_saturating_sub unat_gt_0 word_gt_0)
  then have *: "unat c + unat v \<le> unat M" using assms(3) by linarith
  moreover have "unat M < 2 ^ 64" using unat_bounds(4) [of M] by simp
  ultimately show "unat (saturating_add c v) = unat c + unat v" by (simp add: unat_saturating_add)
  then show "\<not> saturating_add c v > M" using * by (simp add: word_less_nat_alt)
qed

lemma classify_read_length:
  "classify_read st n state = (bytes, u, state') \<Longrightarrow> length bytes \<le> unat n"
  by (cases st) (auto simp: backend_read_overflow_def split: if_split_asm)

lemma classify_write_le:
  "classify_write st n state = (k, u, state') \<Longrightarrow> k \<le> n"
  by (cases st) (auto split: if_split_asm)

lemma with_bytes_eq:
  "with_bytes bytes Q = (s', r) \<longleftrightarrow>
     (\<exists>q. Q = (s', q) \<and> r = bind_r q (\<lambda>rc. Inr \<lparr>rr_bytes = bytes, rr_receipt = rc\<rparr>))"
  by (cases Q) (auto simp: with_bytes_def)

lemma stream_read_cases:
  assumes "stream_read x be s n ctl = (s', r)"
  obtains (refused) "\<not> can_read s n" "s' = s" "isl r"
  | (stopped) u q where "can_read s n"
      "control_outcome ctl = Some u \<or> control_outcome ctl = None \<and> u \<in> {SoOperationBudgetExceeded, SoReadBudgetExceeded}"
      "control_outcome ctl = None \<Longrightarrow> \<not> (bs_operation_count s < sl_maximum_operations (bs_limits s)
        \<and> n \<le> saturating_sub (sl_maximum_read_bytes (bs_limits s)) (bs_read_bytes s))"
      "stream_record x (s\<lparr>bs_state := stream_terminal_state u (bs_state s)\<rparr>) (Some Read) u (metrics_requested n 0)
         (bs_state s) (stream_terminal_state u (bs_state s)) = (s', q)"
      "r = bind_r q (\<lambda>rc. Inr \<lparr>rr_bytes = [], rr_receipt = rc\<rparr>)"
  | (late) b report u q where "can_read s n" "control_outcome ctl = None"
      "bs_operation_count s < sl_maximum_operations (bs_limits s)
        \<and> n \<le> saturating_sub (sl_maximum_read_bytes (bs_limits s)) (bs_read_bytes s)"
      "be_read be (bs_backend s) n (sl_read_deadline (bs_limits s)) = (b, report)"
      "br_elapsed report > sl_read_deadline (bs_limits s)
        \<or> saturating_add (bs_elapsed s) (br_elapsed report) > sl_total_deadline (bs_limits s)"
      "u \<in> {SoReadTimeout, SoTotalTimeout}"
      "stream_record x (s\<lparr>bs_backend := b, bs_elapsed := saturating_add (bs_elapsed s) (br_elapsed report), bs_state := STimedOut\<rparr>)
         (Some Read) u (metrics_requested n (br_elapsed report)) (bs_state s) STimedOut = (s', q)"
      "r = bind_r q (\<lambda>rc. Inr \<lparr>rr_bytes = [], rr_receipt = rc\<rparr>)"
  | (settled) b report bytes u st m q where "can_read s n" "control_outcome ctl = None"
      "bs_operation_count s < sl_maximum_operations (bs_limits s)
        \<and> n \<le> saturating_sub (sl_maximum_read_bytes (bs_limits s)) (bs_read_bytes s)"
      "be_read be (bs_backend s) n (sl_read_deadline (bs_limits s)) = (b, report)"
      "br_elapsed report \<le> sl_read_deadline (bs_limits s)"
      "saturating_add (bs_elapsed s) (br_elapsed report) \<le> sl_total_deadline (bs_limits s)"
      "classify_read (br_status report) n (bs_state s) = (bytes, u, st)"
      "saturating_add (bs_read_bytes s) (of_nat (length bytes)) \<le> sl_maximum_read_bytes (bs_limits s)"
      "unat (saturating_add (bs_read_bytes s) (of_nat (length bytes))) = unat (bs_read_bytes s) + length bytes"
      "om_transferred_bytes m = of_nat (length bytes)" "length bytes \<le> unat n"
      "stream_record x (s\<lparr>bs_backend := b, bs_elapsed := saturating_add (bs_elapsed s) (br_elapsed report),
           bs_read_bytes := saturating_add (bs_read_bytes s) (of_nat (length bytes)), bs_state := st\<rparr>)
         (Some Read) u m (bs_state s) st = (s', q)"
      "r = bind_r q (\<lambda>rc. Inr \<lparr>rr_bytes = bytes, rr_receipt = rc\<rparr>)"
proof (cases "can_read s n")
  case False
  then show thesis using assms read_guard [of s n]
    by (intro refused) (auto simp: stream_read_def split: sum.split_asm)
next
  case can: True
  note step = assms [unfolded stream_read_def read_guard [THEN iffD2, OF can], simplified]
  show thesis
  proof (cases "control_outcome ctl")
    case (Some u)
    then obtain q where "stream_record x (s\<lparr>bs_state := stream_terminal_state u (bs_state s)\<rparr>) (Some Read) u
        (metrics_requested n 0) (bs_state s) (stream_terminal_state u (bs_state s)) = (s', q)"
        "r = bind_r q (\<lambda>rc. Inr \<lparr>rr_bytes = [], rr_receipt = rc\<rparr>)"
      using step by (auto simp: finish_read_without_backend_def finish_without_backend_def with_bytes_eq Let_def)
    then show thesis using Some by (intro stopped [OF can]) auto
  next
    case ok: None
    show thesis
    proof (cases "bs_operation_count s < sl_maximum_operations (bs_limits s)
        \<and> n \<le> saturating_sub (sl_maximum_read_bytes (bs_limits s)) (bs_read_bytes s)")
      case False
      then obtain u where "u \<in> {SoOperationBudgetExceeded, SoReadBudgetExceeded}"
          "finish_read_without_backend x s n u = (s', r)"
        using step ok by (auto simp: not_less not_le split: if_split_asm)
      then obtain q where "stream_record x (s\<lparr>bs_state := stream_terminal_state u (bs_state s)\<rparr>) (Some Read) u
          (metrics_requested n 0) (bs_state s) (stream_terminal_state u (bs_state s)) = (s', q)"
          "r = bind_r q (\<lambda>rc. Inr \<lparr>rr_bytes = [], rr_receipt = rc\<rparr>)"
        by (auto simp: finish_read_without_backend_def finish_without_backend_def with_bytes_eq Let_def)
      then show thesis using ok \<open>u \<in> _\<close> False by (intro stopped [OF can]) auto
    next
      case room: True
      obtain b report where be: "be_read be (bs_backend s) n (sl_read_deadline (bs_limits s)) = (b, report)" by fastforce
      obtain bytes u st where cl: "classify_read (br_status report) n (bs_state s) = (bytes, u, st)"
        by (cases "classify_read (br_status report) n (bs_state s)") auto
      have len: "length bytes \<le> unat n" by (rule classify_read_length [OF cl])
      then have nat: "unat (of_nat (length bytes) :: u64) = length bytes"
        using unat_bounds(4) [of n] by (simp add: unat_of_nat)
      have within: "\<not> saturating_add (bs_read_bytes s) (of_nat (length bytes)) > sl_maximum_read_bytes (bs_limits s)"
        "unat (saturating_add (bs_read_bytes s) (of_nat (length bytes))) = unat (bs_read_bytes s) + length bytes"
        using saturating_add_within [of n "sl_maximum_read_bytes (bs_limits s)" "bs_read_bytes s" "of_nat (length bytes)"]
          room can len nat by (auto simp: can_read_def)
      show thesis
      proof (cases "br_elapsed report > sl_read_deadline (bs_limits s)
          \<or> saturating_add (bs_elapsed s) (br_elapsed report) > sl_total_deadline (bs_limits s)")
        case True
        let ?u = "if br_elapsed report > sl_read_deadline (bs_limits s) then SoReadTimeout else SoTotalTimeout"
        obtain q where "stream_record x (s\<lparr>bs_backend := b, bs_elapsed := saturating_add (bs_elapsed s) (br_elapsed report), bs_state := STimedOut\<rparr>)
            (Some Read) ?u (metrics_requested n (br_elapsed report)) (bs_state s) STimedOut = (s', q)"
            "r = bind_r q (\<lambda>rc. Inr \<lparr>rr_bytes = [], rr_receipt = rc\<rparr>)"
          using step ok room [THEN conjunct1, folded not_le] room [THEN conjunct2, folded not_less] be True
          by (auto simp: charge_time_def with_bytes_eq Let_def split: if_split_asm)
        then show thesis using room by (intro late [OF can ok _ be True, where u = ?u]) auto
      next
        case False
        define m where "m = \<lparr>om_requested_bytes = n, om_transferred_bytes = of_nat (length bytes) :: u64,
                  om_payload_sha256 = (if bytes \<noteq> [] then Some (payload_hash x bytes) else None),
                  om_elapsed = br_elapsed report\<rparr>"
        obtain q where "stream_record x (s\<lparr>bs_backend := b, bs_elapsed := saturating_add (bs_elapsed s) (br_elapsed report),
             bs_read_bytes := saturating_add (bs_read_bytes s) (of_nat (length bytes)), bs_state := st\<rparr>)
            (Some Read) u m (bs_state s) st = (s', q)"
            "r = bind_r q (\<lambda>rc. Inr \<lparr>rr_bytes = bytes, rr_receipt = rc\<rparr>)"
          using step ok room [THEN conjunct1, folded not_le] room [THEN conjunct2, folded not_less] be False cl within(1)
          by (auto simp: charge_time_def with_bytes_eq Let_def m_def)
        then show thesis using room False within(1)
          by (intro settled [OF can ok _ be _ _ cl _ within(2) _ len, where m = m]) (auto simp: m_def not_less)
      qed
    qed
  qed
qed

lemma stream_write_cases:
  assumes "stream_write x be s bytes ctl = (s', r)"
  obtains (refused) "\<not> can_write s (of_nat (length bytes))" "s' = s" "isl r"
  | (stopped) u where "can_write s (of_nat (length bytes))"
      "control_outcome ctl = Some u \<or> control_outcome ctl = None \<and> u \<in> {SoOperationBudgetExceeded, SoWriteBudgetExceeded}"
      "stream_record x (s\<lparr>bs_state := stream_terminal_state u (bs_state s)\<rparr>) (Some Write) u
         (metrics_requested (of_nat (length bytes)) 0) (bs_state s) (stream_terminal_state u (bs_state s)) = (s', r)"
  | (late) b report u where "can_write s (of_nat (length bytes))" "control_outcome ctl = None"
      "bs_operation_count s < sl_maximum_operations (bs_limits s)"
      "be_write be (bs_backend s) bytes (sl_write_deadline (bs_limits s)) = (b, report)"
      "bw_elapsed report > sl_write_deadline (bs_limits s)
        \<or> saturating_add (bs_elapsed s) (bw_elapsed report) > sl_total_deadline (bs_limits s)"
      "u \<in> {SoWriteTimeout, SoTotalTimeout}"
      "stream_record x (s\<lparr>bs_backend := b, bs_elapsed := saturating_add (bs_elapsed s) (bw_elapsed report), bs_state := STimedOut\<rparr>)
         (Some Write) u (metrics_requested (of_nat (length bytes)) (bw_elapsed report)) (bs_state s) STimedOut = (s', r)"
  | (settled) b report k u st m where "can_write s (of_nat (length bytes))" "control_outcome ctl = None"
      "bs_operation_count s < sl_maximum_operations (bs_limits s)"
      "be_write be (bs_backend s) bytes (sl_write_deadline (bs_limits s)) = (b, report)"
      "bw_elapsed report \<le> sl_write_deadline (bs_limits s)"
      "saturating_add (bs_elapsed s) (bw_elapsed report) \<le> sl_total_deadline (bs_limits s)"
      "classify_write (bw_status report) (of_nat (length bytes)) (bs_state s) = (k, u, st)"
      "saturating_add (bs_written_bytes s) k \<le> sl_maximum_write_bytes (bs_limits s)"
      "unat (saturating_add (bs_written_bytes s) k) = unat (bs_written_bytes s) + unat k"
      "om_transferred_bytes m = k" "k \<le> of_nat (length bytes)"
      "stream_record x (s\<lparr>bs_backend := b, bs_elapsed := saturating_add (bs_elapsed s) (bw_elapsed report),
           bs_written_bytes := saturating_add (bs_written_bytes s) k, bs_state := st\<rparr>)
         (Some Write) u m (bs_state s) st = (s', r)"
proof (cases "can_write s (of_nat (length bytes))")
  case False
  then show thesis using assms write_guard [of s "of_nat (length bytes)"]
    by (intro refused) (auto simp: stream_write_def Let_def split: sum.split_asm)
next
  case can: True
  let ?n = "of_nat (length bytes) :: u64"
  note step = assms [unfolded stream_write_def Let_def write_guard [THEN iffD2, OF can], simplified]
  have stop: thesis if "finish_write_without_backend x s ?n u = (s', r)"
    "control_outcome ctl = Some u \<or> control_outcome ctl = None \<and> u \<in> {SoOperationBudgetExceeded, SoWriteBudgetExceeded}" for u
    using stopped [OF can that(2)] that(1)
    by (simp add: finish_write_without_backend_def finish_without_backend_def Let_def)
  show thesis
  proof (cases "control_outcome ctl = None \<and> bs_operation_count s < sl_maximum_operations (bs_limits s)
        \<and> ?n \<le> saturating_sub (sl_maximum_write_bytes (bs_limits s)) (bs_written_bytes s)")
    case False
    then show thesis using step stop by (auto simp: not_less not_le split: option.split_asm if_split_asm)
  next
    case room: True
    note r = room [THEN conjunct1] room [THEN conjunct2, THEN conjunct1, folded not_le]
      room [THEN conjunct2, THEN conjunct2, folded not_less]
    obtain b report where be: "be_write be (bs_backend s) bytes (sl_write_deadline (bs_limits s)) = (b, report)" by fastforce
    obtain k u st where cl: "classify_write (bw_status report) ?n (bs_state s) = (k, u, st)"
      by (cases "classify_write (bw_status report) ?n (bs_state s)") auto
    note le = classify_write_le [OF cl]
    have within: "\<not> saturating_add (bs_written_bytes s) k > sl_maximum_write_bytes (bs_limits s)"
      "unat (saturating_add (bs_written_bytes s) k) = unat (bs_written_bytes s) + unat k"
      using saturating_add_within [of ?n "sl_maximum_write_bytes (bs_limits s)" "bs_written_bytes s" k]
        room can le by (auto simp: can_write_def word_le_nat_alt)
    show thesis
    proof (cases "bw_elapsed report > sl_write_deadline (bs_limits s)
        \<or> saturating_add (bs_elapsed s) (bw_elapsed report) > sl_total_deadline (bs_limits s)")
      case True
      let ?u = "if bw_elapsed report > sl_write_deadline (bs_limits s) then SoWriteTimeout else SoTotalTimeout"
      have "stream_record x (s\<lparr>bs_backend := b, bs_elapsed := saturating_add (bs_elapsed s) (bw_elapsed report),
          bs_state := STimedOut\<rparr>) (Some Write) ?u (metrics_requested ?n (bw_elapsed report)) (bs_state s) STimedOut = (s', r)"
        using step r be True by (auto simp: charge_time_def Let_def split: if_split_asm)
      then show thesis using room by (intro late [OF can _ _ be True, where u = ?u]) auto
    next
      case False
      define m where "m = \<lparr>om_requested_bytes = ?n, om_transferred_bytes = k, om_payload_sha256 =
          (if k > 0 then Some (payload_hash x (take (unat k) bytes)) else None), om_elapsed = bw_elapsed report\<rparr>"
      have "stream_record x (s\<lparr>bs_backend := b, bs_elapsed := saturating_add (bs_elapsed s) (bw_elapsed report),
          bs_written_bytes := saturating_add (bs_written_bytes s) k, bs_state := st\<rparr>) (Some Write) u m (bs_state s) st = (s', r)"
        using step r be cl within(1) False by (auto simp: charge_time_def Let_def m_def)
      then show thesis using room False within(1)
        by (intro settled [OF can _ _ be _ _ cl _ within(2) _ le, where m = m]) (auto simp: m_def not_less)
    qed
  qed
qed

section \<open>Histories\<close>

text \<open>
  The calls a client can make; \<open>backend_mut\<close> gives it the backend itself, so a history may change
  the backend in any way between two operations.
\<close>

datatype 'b stream_call =
  CallRead u64 stream_control
| CallWrite string stream_control
| CallClose
| CallBackend "'b \<Rightarrow> 'b"

datatype stream_reply =
  ReplyRead "stream_error + stream_read_result"
| ReplyOperation "stream_error + stream_operation_receipt"
| ReplyBackend

fun stream_do :: "stream_ext \<Rightarrow> 'b stream_backend \<Rightarrow> 'b stream_call \<Rightarrow> 'b byte_stream \<Rightarrow> 'b byte_stream \<times> stream_reply" where
  "stream_do x be (CallRead n ctl) s = map_prod id ReplyRead (stream_read x be s n ctl)"
| "stream_do x be (CallWrite bytes ctl) s = map_prod id ReplyOperation (stream_write x be s bytes ctl)"
| "stream_do x be CallClose s = map_prod id ReplyOperation (stream_close x be s)"
| "stream_do x be (CallBackend f) s = (s\<lparr>bs_backend := f (bs_backend s)\<rparr>, ReplyBackend)"

fun stream_run ::
  "stream_ext \<Rightarrow> 'b stream_backend \<Rightarrow> 'b stream_call list \<Rightarrow> 'b byte_stream \<Rightarrow> 'b byte_stream \<times> stream_reply list" where
  "stream_run x be [] s = (s, [])"
| "stream_run x be (c # cs) s =
     (let (s1, r) = stream_do x be c s; (s2, rs) = stream_run x be cs s1 in (s2, r # rs))"

fun reply_receipt :: "stream_reply \<Rightarrow> stream_operation_receipt option" where
  "reply_receipt (ReplyRead (Inr r)) = Some (rr_receipt r)"
| "reply_receipt (ReplyOperation (Inr rc)) = Some rc"
| "reply_receipt _ = None"

fun delivered :: "stream_reply \<Rightarrow> string" where
  "delivered (ReplyRead (Inr r)) = rr_bytes r"
| "delivered _ = []"

fun accepted_bytes :: "stream_reply \<Rightarrow> nat" where
  "accepted_bytes (ReplyOperation (Inr rc)) = unat (op_transferred_bytes rc)"
| "accepted_bytes _ = 0"

fun audit_failed :: "stream_reply \<Rightarrow> bool" where
  "audit_failed (ReplyRead (Inl (StreamAudit _))) = True"
| "audit_failed (ReplyOperation (Inl (StreamAudit _))) = True"
| "audit_failed _ = False"

definition stream_wf :: "stream_ext \<Rightarrow> 'b byte_stream \<Rightarrow> bool" where
  "stream_wf x s \<longleftrightarrow>
     validate_stream_limits (bs_limits s) = Inr (bs_limits s)
     \<and> bs_read_bytes s \<le> sl_maximum_read_bytes (bs_limits s)
     \<and> bs_written_bytes s \<le> sl_maximum_write_bytes (bs_limits s)
     \<and> unat (bs_operation_count s) \<le> unat (sl_maximum_operations (bs_limits s)) + 1
     \<and> (\<not> stream_is_terminal (bs_state s) \<longrightarrow> bs_operation_count s \<le> sl_maximum_operations (bs_limits s))
     \<and> (bs_state s \<noteq> STimedOut \<longrightarrow> bs_elapsed s \<le> sl_total_deadline (bs_limits s))
     \<and> length (chain_records (bs_audit s)) \<le> unat (bs_operation_count s)
     \<and> stream_verify x (bs_audit s) = Inr ()"

text \<open>The state model: a half closes, or the stream ends; an ended stream stays as it is.\<close>

inductive stream_edge :: "stream_state \<Rightarrow> stream_state \<Rightarrow> bool" where
  stay: "stream_edge a a"
| eof: "stream_edge SOpen SReadClosed"
| peer_close: "stream_edge SOpen SWriteClosed"
| finish: "\<not> stream_is_terminal a \<Longrightarrow> stream_is_terminal b \<Longrightarrow> stream_edge a b"

inductive_simps stream_edge_simps: "stream_edge a b"

text \<open>What one call may do to a well-formed stream.\<close>

definition evolves :: "stream_ext \<Rightarrow> 'b byte_stream \<Rightarrow> stream_reply \<Rightarrow> 'b byte_stream \<Rightarrow> bool" where
  "evolves x s r s' \<longleftrightarrow>
     stream_wf x s' \<and> bs_grant s' = bs_grant s \<and> bs_limits s' = bs_limits s
     \<and> genesis_anchor (bs_audit s') = genesis_anchor (bs_audit s)
     \<and> map event_view (chain_events (bs_audit s'))
         = map event_view (chain_events (bs_audit s)) @ map receipt_view (option_list (reply_receipt r))
     \<and> unat (bs_operation_count s) \<le> unat (bs_operation_count s')
     \<and> (\<forall>rc. reply_receipt r = Some rc \<longrightarrow>
          op_operation_id rc = stream_operation_id (bs_grant s) (bs_operation_count s')
        \<and> unat (bs_operation_count s') = Suc (unat (bs_operation_count s)))
     \<and> stream_edge (bs_state s) (bs_state s')
     \<and> unat (bs_read_bytes s) + length (delivered r) \<le> unat (bs_read_bytes s')
     \<and> unat (bs_written_bytes s) + accepted_bytes r \<le> unat (bs_written_bytes s')
     \<and> (\<not> audit_failed r \<longrightarrow>
          unat (bs_read_bytes s') = unat (bs_read_bytes s) + length (delivered r)
        \<and> unat (bs_written_bytes s') = unat (bs_written_bytes s) + accepted_bytes r
        \<and> unat (bs_operation_count s') + length (chain_records (bs_audit s))
            = unat (bs_operation_count s) + length (chain_records (bs_audit s')))"

lemma evolves_refl:
  "stream_wf x s \<Longrightarrow> delivered r = [] \<Longrightarrow> accepted_bytes r = 0 \<Longrightarrow> reply_receipt r = None
     \<Longrightarrow> evolves x s r (s\<lparr>bs_backend := b\<rparr>)"
  by (auto simp: evolves_def stream_wf_def stream_edge_simps)

lemma count_suc:
  assumes "validate_stream_limits l = Inr l'" "c \<le> sl_maximum_operations l"
  shows "unat (saturating_add c (1 :: u64)) = Suc (unat c)"
  using validate_stream_limits_bounds(11) [OF assms(1)] assms(2)
  by (simp add: unat_saturating_add word_le_nat_alt)

text \<open>Every operation that is not refused ends in \<open>stream_record\<close> on an updated stream.\<close>

lemma evolves_record:
  assumes wf: "stream_wf x s" "\<not> stream_is_terminal (bs_state s)"
    and rec: "stream_record x s1 d u m before after = (s', q)"
    and same: "bs_grant s1 = bs_grant s" "bs_limits s1 = bs_limits s" "bs_audit s1 = bs_audit s"
      "bs_operation_count s1 = bs_operation_count s"
    and bytes: "bs_read_bytes s1 \<le> sl_maximum_read_bytes (bs_limits s)"
      "bs_written_bytes s1 \<le> sl_maximum_write_bytes (bs_limits s)"
      "unat (bs_read_bytes s1) = unat (bs_read_bytes s) + n" "unat (bs_written_bytes s1) = unat (bs_written_bytes s) + k"
    and state: "stream_edge (bs_state s) (bs_state s1)"
      "bs_state s1 \<noteq> STimedOut \<Longrightarrow> bs_elapsed s1 \<le> sl_total_deadline (bs_limits s)"
      "\<not> stream_is_terminal (bs_state s1) \<Longrightarrow> bs_operation_count s < sl_maximum_operations (bs_limits s)"
    and reply: "\<And>y. q = Inl (StreamAudit y) \<Longrightarrow> delivered r = [] \<and> accepted_bytes r = 0 \<and> audit_failed r \<and> reply_receipt r = None"
      "\<And>rc. q = Inr rc \<Longrightarrow> length (delivered r) = n \<and> accepted_bytes r = k \<and> reply_receipt r = Some rc"
  shows "evolves x s r s'"
proof -
  note f = stream_record_effect [OF rec, unfolded same]
  have c: "bs_operation_count s \<le> sl_maximum_operations (bs_limits s)" using wf by (simp add: stream_wf_def)
  then have suc: "unat (saturating_add (bs_operation_count s) 1) = Suc (unat (bs_operation_count s))"
    using wf(1) count_suc [of "bs_limits s"] by (simp add: stream_wf_def)
  have s': "bs_grant s' = bs_grant s" "bs_limits s' = bs_limits s" "bs_read_bytes s' = bs_read_bytes s1"
    "bs_written_bytes s' = bs_written_bytes s1" "bs_state s' = bs_state s1" "bs_elapsed s' = bs_elapsed s1"
    "bs_operation_count s' = saturating_add (bs_operation_count s) 1"
    by (subst f(1), simp add: same)+
  have "stream_wf x s'"
    using wf bytes(1,2) state(2,3) c suc f(2,4) unfolding stream_wf_def s' log_extends_def
    by (auto simp: word_le_nat_alt word_less_nat_alt)
  then show ?thesis
    using f(3-7) s' bytes(3,4) state(1) reply suc unfolding evolves_def s'
    by (cases q) (auto simp: operation_receipt_def same)
qed

lemma classify_read_state:
  assumes "classify_read r n a = (bytes, u, b)"
  shows "b = stream_terminal_state u a"
  using assms by (cases r) (auto simp: backend_read_overflow_def split: if_split_asm)

lemma classify_write_state:
  assumes "classify_write r n a = (k, u, b)"
  shows "b = stream_terminal_state u a"
  using assms by (cases r) (auto split: if_split_asm)

lemma stream_edge_terminal: "\<not> stream_is_terminal a \<Longrightarrow> stream_edge a (stream_terminal_state u a)"
  by (cases u; cases a) (auto simp: stream_edge_simps)

lemma control_outcome_terminal:
  "control_outcome ctl = Some u \<Longrightarrow> stream_is_terminal (stream_terminal_state u a) \<and> stream_terminal_state u a \<noteq> STimedOut"
  by (auto simp: control_outcome_def split: if_split_asm)

lemma can_read_open: "can_read s n \<Longrightarrow> \<not> stream_is_terminal (bs_state s)"
  by (auto simp: can_read_def)

lemma can_write_open: "can_write s n \<Longrightarrow> \<not> stream_is_terminal (bs_state s)"
  by (auto simp: can_write_def)

lemma stream_read_evolves:
  assumes "stream_wf x s" "stream_read x be s n ctl = (s', r)"
  shows "evolves x s (ReplyRead r) s'"
  using assms(2)
proof (cases rule: stream_read_cases)
  case refused
  then show ?thesis using evolves_refl [OF assms(1), of "ReplyRead r" "bs_backend s"] by (cases r) auto
next
  case (stopped u q)
  have "stream_is_terminal (stream_terminal_state u (bs_state s))" "stream_terminal_state u (bs_state s) \<noteq> STimedOut"
    using stopped(2) control_outcome_terminal by auto
  then show ?thesis using assms(1) stopped
    by (rule_tac n = 0 and k = 0 in evolves_record [OF assms(1) can_read_open [OF stopped(1)] stopped(4)])
      (auto simp: stream_wf_def stream_edge_simps can_read_def)
next
  case (late b report u q)
  then show ?thesis using assms(1)
    by (rule_tac n = 0 and k = 0 in evolves_record [OF assms(1) can_read_open [OF late(1)] late(7)])
      (auto simp: stream_wf_def stream_edge_simps can_read_def)
next
  case (settled b report bytes u st m q)
  then show ?thesis using assms(1) classify_read_state [OF settled(7)]
    by (rule_tac n = "length bytes" and k = 0 in evolves_record [OF assms(1) can_read_open [OF settled(1)] settled(12)])
      (auto simp: stream_wf_def can_read_def intro: stream_edge_terminal)
qed

lemma stream_write_evolves:
  assumes "stream_wf x s" "stream_write x be s bytes ctl = (s', r)"
  shows "evolves x s (ReplyOperation r) s'"
  using assms(2)
proof (cases rule: stream_write_cases)
  case refused
  then show ?thesis using evolves_refl [OF assms(1), of "ReplyOperation r" "bs_backend s"] by (cases r) auto
next
  case (stopped u)
  have "stream_is_terminal (stream_terminal_state u (bs_state s))" "stream_terminal_state u (bs_state s) \<noteq> STimedOut"
    using stopped(2) control_outcome_terminal by auto
  then show ?thesis using assms(1) stopped stream_record_effect(5) [OF stopped(3)]
    by (rule_tac n = 0 and k = 0 in evolves_record [OF assms(1) can_write_open [OF stopped(1)] stopped(3)])
      (auto simp: stream_wf_def stream_edge_simps can_write_def operation_receipt_def metrics_requested_def metrics_default_def)
next
  case (late b report u)
  then show ?thesis using assms(1) stream_record_effect(5) [OF late(7)]
    by (rule_tac n = 0 and k = 0 in evolves_record [OF assms(1) can_write_open [OF late(1)] late(7)])
      (auto simp: stream_wf_def stream_edge_simps can_write_def operation_receipt_def metrics_requested_def metrics_default_def)
next
  case (settled b report k u st m)
  then show ?thesis using assms(1) classify_write_state [OF settled(7)] stream_record_effect(5) [OF settled(12)]
    by (rule_tac n = 0 and k = "unat k" in evolves_record [OF assms(1) can_write_open [OF settled(1)] settled(12)])
      (auto simp: stream_wf_def can_write_def operation_receipt_def intro: stream_edge_terminal)
qed

lemma stream_close_evolves:
  assumes "stream_wf x s" "stream_close x be s = (s', r)"
  shows "evolves x s (ReplyOperation r) s'"
proof (cases "stream_is_terminal (bs_state s)")
  case True
  then show ?thesis using assms evolves_refl [OF assms(1), of "ReplyOperation r" "bs_backend s"] by (auto simp: stream_close_def)
next
  case False
  then have rec: "stream_record x (s\<lparr>bs_backend := be_close be (bs_backend s), bs_state := SClosed\<rparr>) None SoClosed
      metrics_default (bs_state s) SClosed = (s', r)" using assms(2) by (simp add: stream_close_def Let_def)
  then show ?thesis using assms(1) False stream_record_effect(5) [OF rec]
    by (rule_tac n = 0 and k = 0 in evolves_record [OF assms(1) False rec])
      (auto simp: stream_wf_def stream_edge_simps operation_receipt_def metrics_default_def)
qed

lemma stream_do_evolves:
  assumes "stream_wf x s" "stream_do x be c s = (s', r)"
  shows "evolves x s r s'"
  using assms stream_read_evolves [OF assms(1)] stream_write_evolves [OF assms(1)] stream_close_evolves [OF assms(1)]
    evolves_refl [OF assms(1), of ReplyBackend]
  by (cases c) (auto simp: map_prod_def split: prod.split_asm)

definition run_receipts :: "stream_reply list \<Rightarrow> stream_operation_receipt list" where
  "run_receipts rs = concat (map (\<lambda>r. option_list (reply_receipt r)) rs)"

definition operation_name :: "stream_grant \<Rightarrow> nat \<Rightarrow> string" where
  "operation_name g n = sg_stream_id g @ ''-operation-'' @ decimal_pad 20 n"

definition run_facts :: "stream_ext \<Rightarrow> 'b byte_stream \<Rightarrow> stream_reply list \<Rightarrow> 'b byte_stream \<Rightarrow> bool" where
  "run_facts x s rs s' \<longleftrightarrow>
     stream_wf x s' \<and> bs_grant s' = bs_grant s \<and> bs_limits s' = bs_limits s
     \<and> genesis_anchor (bs_audit s') = genesis_anchor (bs_audit s)
     \<and> map event_view (chain_events (bs_audit s'))
         = map event_view (chain_events (bs_audit s)) @ map receipt_view (run_receipts rs)
     \<and> unat (bs_read_bytes s) + length (concat (map delivered rs)) \<le> unat (bs_read_bytes s')
     \<and> unat (bs_written_bytes s) + sum_list (map accepted_bytes rs) \<le> unat (bs_written_bytes s')
     \<and> (list_all (\<lambda>r. \<not> audit_failed r) rs \<longrightarrow>
          unat (bs_read_bytes s') = unat (bs_read_bytes s) + length (concat (map delivered rs))
        \<and> unat (bs_written_bytes s') = unat (bs_written_bytes s) + sum_list (map accepted_bytes rs)
        \<and> unat (bs_operation_count s') + length (chain_records (bs_audit s))
            = unat (bs_operation_count s) + length (chain_records (bs_audit s')))
     \<and> (\<exists>ns. map op_operation_id (run_receipts rs) = map (operation_name (bs_grant s)) ns
          \<and> sorted_wrt (<) ns \<and> (\<forall>n \<in> set ns. unat (bs_operation_count s) < n))"

lemma run_facts_Cons:
  assumes step: "evolves x s r s1" and rest: "run_facts x s1 rs s'"
  shows "run_facts x s (r # rs) s'"
proof -
  let ?g = "bs_grant s"
  obtain ns where ns: "map op_operation_id (run_receipts rs) = map (operation_name ?g) ns"
      "sorted_wrt (<) ns" "\<forall>n \<in> set ns. unat (bs_operation_count s1) < n"
    using assms by (auto simp: run_facts_def evolves_def)
  have "\<exists>ns. map op_operation_id (run_receipts (r # rs)) = map (operation_name ?g) ns
      \<and> sorted_wrt (<) ns \<and> (\<forall>n \<in> set ns. unat (bs_operation_count s) < n)"
  proof (cases "reply_receipt r")
    case None
    have "unat (bs_operation_count s) \<le> unat (bs_operation_count s1)" using step by (simp add: evolves_def)
    then have "\<forall>n \<in> set ns. unat (bs_operation_count s) < n" using ns(3) le_less_trans by blast
    then show ?thesis using None ns(1,2) by (auto simp: run_receipts_def)
  next
    case (Some rc)
    then have "op_operation_id rc = operation_name ?g (unat (bs_operation_count s1))"
      "unat (bs_operation_count s1) = Suc (unat (bs_operation_count s))"
      using step by (auto simp: evolves_def operation_name_def stream_operation_id_def)
    then show ?thesis using Some ns
      by (intro exI [of _ "unat (bs_operation_count s1) # ns"]) (auto simp: run_receipts_def intro: Suc_lessD)
  qed
  moreover have "run_receipts (r # rs) = option_list (reply_receipt r) @ run_receipts rs" by (simp add: run_receipts_def)
  ultimately show ?thesis using assms unfolding run_facts_def evolves_def by (elim conjE, intro conjI impI) simp_all
qed

lemma stream_run_facts:
  "stream_wf x s \<Longrightarrow> stream_run x be cs s = (s', rs) \<Longrightarrow> run_facts x s rs s'"
proof (induction cs arbitrary: s rs)
  case Nil
  then show ?case by (auto simp: run_facts_def run_receipts_def)
next
  case (Cons c cs)
  obtain s1 r rs1 where s1: "stream_do x be c s = (s1, r)" "stream_run x be cs s1 = (s', rs1)" "rs = r # rs1"
    using Cons.prems(2) by (auto split: prod.split_asm)
  have step: "evolves x s r s1" by (rule stream_do_evolves [OF Cons.prems(1) s1(1)])
  then have "stream_wf x s1" by (simp add: evolves_def)
  then show ?case unfolding s1(3) by (rule run_facts_Cons [OF step Cons.IH [OF _ s1(2)]])
qed

section \<open>Opening\<close>

lemma first_failed_None: "first_failed cs = None \<longleftrightarrow> list_all fst cs"
  by (induction cs rule: first_failed.induct) auto

lemma stream_audit_new_Inr:
  "stream_audit_new a = Inr c \<longleftrightarrow> is_lower_hex_sha256 a \<and> c = \<lparr>chain_records = [], tail_hash = a, genesis_anchor = a\<rparr>"
  by (auto simp: stream_audit_new_def)

lemma stream_open_Inr:
  assumes "stream_open x p rc ea l b = Ret (Inr s)"
  obtains r fp g au where
    "validate_stream_limits l = Inr l" "executor_verify (sx_executor x) ea = Inr ()"
    "find (\<lambda>r. xe_execution_id (rec_event r) = rc_execution_id rc) (chain_records ea) = Some r"
    "rc_outcome rc = OCompleted" "stream_endpoint_fingerprint x p (rc_transport_audit_anchor rc) = Ret fp"
    "list_all fst (binding_checks p rc (rec_event r) fp)"
    "make_stream_grant x p rc (rec_hash r) = Ret g" "is_lower_hex_sha256 (rec_hash r)"
    "stream_record x \<lparr>bs_grant = g, bs_limits = l, bs_backend = b, bs_state = SOpen,
                   bs_read_bytes = 0, bs_written_bytes = 0, bs_elapsed = 0, bs_operation_count = 0,
                   bs_audit = \<lparr>chain_records = [], tail_hash = rec_hash r, genesis_anchor = rec_hash r\<rparr>\<rparr>
       None SoOpened metrics_default SOpen SOpen = (s, Inr au)"
  using assms validate_stream_limits_Inr [of l]
  by (auto simp: stream_open_def validate_execution_binding_def Let_def first_failed_None [symmetric]
      stream_audit_new_Inr split: sum.split_asm option.split_asm run.split_asm if_split_asm prod.split_asm)

lemma stream_open_wf:
  assumes "stream_open x p rc ea l b = Ret (Inr s)"
  shows "stream_wf x s \<and> bs_limits s = l \<and> bs_backend s = b \<and> bs_state s = SOpen \<and> bs_read_bytes s = 0
    \<and> bs_written_bytes s = 0 \<and> bs_operation_count s = 1 \<and> length (chain_records (bs_audit s)) = 1"
  using assms
proof (rule stream_open_Inr)
  fix r fp g au
  assume l: "validate_stream_limits l = Inr l"
    and rec: "stream_record x \<lparr>bs_grant = g, bs_limits = l, bs_backend = b, bs_state = SOpen,
                   bs_read_bytes = 0, bs_written_bytes = 0, bs_elapsed = 0, bs_operation_count = 0,
                   bs_audit = \<lparr>chain_records = [], tail_hash = rec_hash r, genesis_anchor = rec_hash r\<rparr>\<rparr>
       None SoOpened metrics_default SOpen SOpen = (s, Inr au)"
  note f = stream_record_effect [OF rec, simplified]
  have one: "saturating_add 0 (1 :: u64) = 1" by (simp add: saturating_add_def)
  have s: "bs_limits s = l" "bs_backend s = b" "bs_state s = SOpen" "bs_read_bytes s = 0"
    "bs_written_bytes s = 0" "bs_elapsed s = 0" "bs_operation_count s = 1" by (subst f(1), simp add: one)+
  have "1 \<le> sl_maximum_operations l"
    using validate_stream_limits_bounds(10) [OF l] by (simp add: word_le_nat_alt word_less_nat_alt)
  then show ?thesis using l f(2,5) unfolding stream_wf_def s
    by (simp add: log_extends_def stream_verify_def chain_verify_Inr)
qed

section \<open>Properties\<close>

text \<open>
  C11: A stream stays within its budgets. Over any history of reads, writes, closes and changes of the
  backend from a stream that was opened, the bytes handed to the client and the bytes the backend
  accepted are within the limits of \<open>open\<close>. While the stream has not ended its records, the opening
  included, are within the operation limit; the record that ends it may be one beyond the limit.
  Unless the stream ended by a timeout, the elapsed time is within the total deadline. The limits are
  themselves below the hard ceilings. When no audit append failed, the counters are exact.
\<close>

theorem stream_history_bounded:
  assumes "stream_open x p rc ea l b = Ret (Inr s)" "stream_run x be cs s = (s', rs)"
  shows "length (concat (map delivered rs)) \<le> unat (sl_maximum_read_bytes l)
    \<and> sum_list (map accepted_bytes rs) \<le> unat (sl_maximum_write_bytes l)
    \<and> (\<not> stream_is_terminal (bs_state s') \<longrightarrow> length (chain_records (bs_audit s')) \<le> unat (sl_maximum_operations l))
    \<and> length (chain_records (bs_audit s')) \<le> unat (sl_maximum_operations l) + 1
    \<and> (bs_state s' \<noteq> STimedOut \<longrightarrow> bs_elapsed s' \<le> sl_total_deadline l)
    \<and> sl_maximum_read_bytes l \<le> 67108864 \<and> sl_maximum_write_bytes l \<le> 67108864
    \<and> sl_maximum_operations l \<le> 100000 \<and> sl_total_deadline l \<le> 120000
    \<and> (list_all (\<lambda>r. \<not> audit_failed r) rs \<longrightarrow>
         unat (bs_read_bytes s') = length (concat (map delivered rs))
       \<and> unat (bs_written_bytes s') = sum_list (map accepted_bytes rs)
       \<and> unat (bs_operation_count s') = length (chain_records (bs_audit s')))"
proof -
  note o = stream_open_wf [OF assms(1)]
  have f: "run_facts x s rs s'" using stream_run_facts [OF _ assms(2)] o by blast
  have wf: "stream_wf x s'" "bs_limits s' = l" using f o by (auto simp: run_facts_def)
  have l: "validate_stream_limits l = Inr l" using wf by (simp add: stream_wf_def)
  have "unat (bs_read_bytes s') \<le> unat (sl_maximum_read_bytes l)" "unat (bs_written_bytes s') \<le> unat (sl_maximum_write_bytes l)"
    "length (chain_records (bs_audit s')) \<le> unat (sl_maximum_operations l) + 1"
    "\<not> stream_is_terminal (bs_state s') \<Longrightarrow> length (chain_records (bs_audit s')) \<le> unat (sl_maximum_operations l)"
    using wf by (auto simp: stream_wf_def word_le_nat_alt)
  moreover have "length (concat (map delivered rs)) \<le> unat (bs_read_bytes s')"
    "sum_list (map accepted_bytes rs) \<le> unat (bs_written_bytes s')"
    using f o unfolding run_facts_def by (elim conjE, simp)+
  moreover have "list_all (\<lambda>r. \<not> audit_failed r) rs \<Longrightarrow>
         unat (bs_read_bytes s') = length (concat (map delivered rs))
       \<and> unat (bs_written_bytes s') = sum_list (map accepted_bytes rs)
       \<and> unat (bs_operation_count s') = length (chain_records (bs_audit s'))"
    using f o unfolding run_facts_def by (elim conjE) simp
  moreover have "bs_state s' \<noteq> STimedOut \<Longrightarrow> bs_elapsed s' \<le> sl_total_deadline l"
    using wf by (simp add: stream_wf_def)
  ultimately show ?thesis using validate_stream_limits_bounds(2,4,9,11) [OF l] by (meson order_trans)
qed

lemma operation_event_outcome: "sa_outcome (operation_event s d u m b a) = stream_outcome_code u"
  by (simp add: operation_event_def Let_def)

text \<open>
  C33: The audit chain of a stream is complete and anchored. After any history it verifies from the
  hash of the executor's record, it holds the opening followed by exactly the receipts returned, in
  order and with their contents, and no two of them share an operation id.
\<close>

theorem stream_history_audited:
  assumes "stream_open x p rc ea l b = Ret (Inr s)" "stream_run x be cs s = (s', rs)"
  shows "stream_verify x (bs_audit s') = Inr ()
    \<and> (\<exists>r \<in> set (chain_records ea). xe_execution_id (rec_event r) = rc_execution_id rc
         \<and> genesis_anchor (bs_audit s') = rec_hash r)
    \<and> (\<exists>opened. sa_outcome opened = ''opened''
         \<and> map event_view (chain_events (bs_audit s')) = event_view opened # map receipt_view (run_receipts rs))
    \<and> distinct (map op_operation_id (run_receipts rs))"
proof -
  have wf: "stream_wf x s" using stream_open_wf [OF assms(1)] by blast
  have f: "run_facts x s rs s'" by (rule stream_run_facts [OF wf assms(2)])
  from assms(1) have o: "(\<exists>r \<in> set (chain_records ea). xe_execution_id (rec_event r) = rc_execution_id rc
         \<and> genesis_anchor (bs_audit s) = rec_hash r)
    \<and> (\<exists>opened. sa_outcome opened = ''opened'' \<and> map event_view (chain_events (bs_audit s)) = [event_view opened])"
  proof (rule stream_open_Inr, goal_cases)
    case (1 r fp g au)
    have "\<exists>opened. sa_outcome opened = ''opened'' \<and> map event_view (chain_events (bs_audit s)) = [event_view opened]"
      using 1(9)
    proof (rule stream_record_result, goal_cases)
      case (1 au)
      then show ?case using operation_event_outcome [of _ None SoOpened metrics_default SOpen SOpen]
        by (auto simp: map_map [symmetric] simp del: map_map)
    qed simp
    then show ?case using stream_record_effect(3) [OF 1(9)] find_Some_iff [THEN iffD1, OF 1(3)] by fastforce
  qed
  obtain ns where ns: "map op_operation_id (run_receipts rs) = map (operation_name (bs_grant s)) ns" "sorted_wrt (<) ns"
    using f by (auto simp: run_facts_def)
  have "inj_on (operation_name (bs_grant s)) (set ns)" by (auto simp: inj_on_def operation_name_def decimal_pad_inject)
  then have "distinct (map op_operation_id (run_receipts rs))"
    unfolding ns(1) using strict_sorted_iff [of ns] ns(2) by (simp add: distinct_map)
  then show ?thesis using f o by (auto simp: run_facts_def stream_wf_def)
qed

lemma stream_read_refused: "\<not> can_read s n \<Longrightarrow> \<exists>e. stream_read x be s n ctl = (s, Inl e)"
  using read_guard [of s n] by (auto simp: stream_read_def split: sum.split)

lemma stream_write_refused:
  "\<not> can_write s (of_nat (length bytes)) \<Longrightarrow> \<exists>e. stream_write x be s bytes ctl = (s, Inl e)"
  using write_guard [of s "of_nat (length bytes)"] by (auto simp: stream_write_def Let_def split: sum.split)

lemma terminal_refuses:
  assumes "stream_is_terminal (bs_state s)" "\<And>f. c \<noteq> CallBackend f"
  shows "fst (stream_do x be c s) = s \<and> reply_receipt (snd (stream_do x be c s)) = None
    \<and> delivered (snd (stream_do x be c s)) = []"
proof (cases c)
  case (CallRead n ctl)
  have "\<not> can_read s n" using can_read_open assms(1) by blast
  from stream_read_refused [OF this, of x be ctl] show ?thesis by (auto simp: CallRead)
next
  case (CallWrite bytes ctl)
  have "\<not> can_write s (of_nat (length bytes))" using can_write_open assms(1) by blast
  from stream_write_refused [OF this, of x be ctl] show ?thesis by (auto simp: CallWrite)
next
  case CallClose
  then show ?thesis using assms(1) by (simp add: stream_close_def)
qed (use assms(2) in blast)

lemma terminal_run:
  assumes "stream_is_terminal (bs_state s)" "stream_run x be cs s = (s', rs)" "\<forall>c \<in> set cs. \<forall>f. c \<noteq> CallBackend f"
  shows "s' = s \<and> run_receipts rs = [] \<and> concat (map delivered rs) = []"
  using assms(2,3)
proof (induction cs arbitrary: rs)
  case (Cons c cs)
  then obtain r rs1 where "stream_do x be c s = (s, r)" "reply_receipt r = None" "delivered r = []"
      "stream_run x be cs s = (s', rs1)" "rs = r # rs1"
    using terminal_refuses [OF assms(1), of c x be] by (auto split: prod.split_asm)
  then show ?case using Cons by (auto simp: run_receipts_def)
qed (simp add: run_receipts_def)

text \<open>The guards of a read and of a write: the size, and that the half is open.\<close>

fun call_admitted :: "'b byte_stream \<Rightarrow> 'b stream_call \<Rightarrow> bool" where
  "call_admitted s (CallRead n ctl) = can_read s n"
| "call_admitted s (CallWrite bytes ctl) = can_write s (of_nat (length bytes))"
| "call_admitted s _ = True"

lemma stopped_record:
  assumes "stream_record x (s\<lparr>bs_state := stream_terminal_state u (bs_state s)\<rparr>) d u (metrics_requested n 0) b a = (s1, q)"
    "control_outcome ctl = Some u"
  shows "bs_backend s1 = bs_backend s \<and> bs_state s1 = stream_terminal_state u SOpen \<and> stream_is_terminal (bs_state s1)
    \<and> (\<forall>rc. q = Inr rc \<longrightarrow> op_outcome rc = u \<and> op_transferred_bytes rc = 0) \<and> (\<forall>e. q = Inl e \<longrightarrow> (\<exists>y. e = StreamAudit y))"
proof -
  have "stream_terminal_state u (bs_state s) = stream_terminal_state u SOpen \<and> stream_is_terminal (stream_terminal_state u SOpen)"
    using assms(2) by (auto simp: control_outcome_def split: if_split_asm)
  then show ?thesis using stream_record_fields [OF assms(1)] stream_record_effect(6) [OF assms(1)] by auto
qed

lemma stopped_call:
  assumes "control_outcome ctl = Some u" "c \<in> {CallRead n ctl, CallWrite bytes ctl}" "stream_do x be c s = (s1, r)"
  shows "bs_backend s1 = bs_backend s \<and> delivered r = [] \<and> accepted_bytes r = 0
    \<and> (if call_admitted s c
       then bs_state s1 = stream_terminal_state u SOpen \<and> stream_is_terminal (bs_state s1)
         \<and> (audit_failed r \<or> map_option op_outcome (reply_receipt r) = Some u)
       else s1 = s \<and> reply_receipt r = None)"
proof -
  from assms(2) consider (reading) "c = CallRead n ctl" | (writing) "c = CallWrite bytes ctl" by blast
  then show ?thesis
  proof cases
    case reading
    then obtain q where q: "stream_read x be s n ctl = (s1, q)" "r = ReplyRead q"
      using assms(3) by (auto simp: map_prod_def split: prod.split_asm)
    from q(1) show ?thesis
    proof (cases rule: stream_read_cases)
      case refused
      then show ?thesis using q(2) reading by (cases q) auto
    next
      case (stopped v w)
      then have v: "control_outcome ctl = Some v" "v = u" using assms(1) by auto
      show ?thesis using stopped_record [OF stopped(4) v(1)] stopped(1,5) q(2) v(2) reading by (cases w) auto
    qed (use assms(1) in auto)
  next
    case writing
    then obtain q where q: "stream_write x be s bytes ctl = (s1, q)" "r = ReplyOperation q"
      using assms(3) by (auto simp: map_prod_def split: prod.split_asm)
    from q(1) show ?thesis
    proof (cases rule: stream_write_cases)
      case refused
      then show ?thesis using q(2) writing by (cases q) auto
    next
      case (stopped v)
      then have v: "control_outcome ctl = Some v" "v = u" using assms(1) by auto
      show ?thesis using stopped_record [OF stopped(3) v(1)] stopped(1) q(2) v(2) writing by (cases q) auto
    qed (use assms(1) in auto)
  qed
qed

text \<open>
  C34: A stop is final. A read or write with cancellation or emergency stop requested never reaches the
  backend and moves no byte. If its size is admissible and its half of the stream is open, the stream
  is then in the terminal state of the request (an emergency stop takes precedence), the receipt says
  so (unless the audit append failed), and from then on every operation is refused, records nothing
  and leaves the stream, backend included, as it is. Only if one of those two guards fails is the
  call refused with an error that leaves the stream unchanged.
\<close>

theorem stop_is_final:
  assumes "sk_cancel_requested ctl \<or> sk_emergency_stop_requested ctl"
    "c \<in> {CallRead n ctl, CallWrite bytes ctl}" "stream_do x be c s = (s1, r)"
    "stream_run x be cs s1 = (s2, rs)" "\<forall>c \<in> set cs. \<forall>f. c \<noteq> CallBackend f"
  shows "bs_backend s1 = bs_backend s \<and> delivered r = [] \<and> accepted_bytes r = 0
    \<and> (if call_admitted s c
       then bs_state s1 = (if sk_emergency_stop_requested ctl then SEmergencyStopped else SCancelled)
         \<and> (audit_failed r \<or> map_option op_outcome (reply_receipt r)
              = Some (if sk_emergency_stop_requested ctl then SoEmergencyStopped else SoCancelled))
         \<and> s2 = s1 \<and> run_receipts rs = [] \<and> concat (map delivered rs) = []
       else s1 = s \<and> reply_receipt r = None)"
proof -
  define u where "u = (if sk_emergency_stop_requested ctl then SoEmergencyStopped else SoCancelled)"
  have u: "control_outcome ctl = Some u"
    "stream_terminal_state u SOpen = (if sk_emergency_stop_requested ctl then SEmergencyStopped else SCancelled)"
    using assms(1) by (auto simp: control_outcome_def u_def)
  note st = stopped_call [OF u(1) assms(2,3)]
  show ?thesis
  proof (cases "call_admitted s c")
    case True
    have "stream_is_terminal (bs_state s1)" using st [unfolded if_P [OF True]] by blast
    from terminal_run [OF this assms(4,5)] show ?thesis using st True u(2) unfolding u_def by simp
  qed (use st in simp)
qed

text \<open>
  What a read hands out. The bytes are those the backend reported, and only if the call was within
  the operation and read budgets, the backend answered within the read deadline and the total
  deadline, and it did not report more than it was asked for; otherwise nothing. The state after
  the read is the one its outcome stands for, and the receipt counts the bytes handed out.
\<close>

theorem read_delivers_exactly:
  assumes "stream_read x be s n ctl = (s', Inr res)"
  shows "rr_bytes res =
      (let report = snd (be_read be (bs_backend s) n (sl_read_deadline (bs_limits s))) in
       if control_outcome ctl = None \<and> bs_operation_count s < sl_maximum_operations (bs_limits s)
          \<and> n \<le> saturating_sub (sl_maximum_read_bytes (bs_limits s)) (bs_read_bytes s)
          \<and> br_elapsed report \<le> sl_read_deadline (bs_limits s)
          \<and> saturating_add (bs_elapsed s) (br_elapsed report) \<le> sl_total_deadline (bs_limits s)
       then (case br_status report of
               BrData d \<Rightarrow> if length d \<le> unat n then d else []
             | BrTruncated d \<Rightarrow> if length d \<le> unat n then d else []
             | _ \<Rightarrow> [])
       else [])
    \<and> unat (op_transferred_bytes (rr_receipt res)) = length (rr_bytes res)
    \<and> bs_state s' = stream_terminal_state (op_outcome (rr_receipt res)) (bs_state s)"
  using assms
proof (cases rule: stream_read_cases)
  case (stopped u q)
  then obtain rc where q: "q = Inr rc" "res = \<lparr>rr_bytes = [], rr_receipt = rc\<rparr>" by (cases q) auto
  then show ?thesis using stopped(2,3) stream_record_fields(1,9) [OF stopped(4)]
    by (auto simp: Let_def)
next
  case (late b report u q)
  then obtain rc where q: "q = Inr rc" "res = \<lparr>rr_bytes = [], rr_receipt = rc\<rparr>" by (cases q) auto
  have st: "stream_terminal_state u (bs_state s) = STimedOut" using late(6) by auto
  show ?thesis using q late(4,5) stream_record_fields(1,9) [OF late(7)]
    by (auto simp: Let_def not_le st)
next
  case (settled b report bytes u st m q)
  then obtain rc where q: "q = Inr rc" "res = \<lparr>rr_bytes = bytes, rr_receipt = rc\<rparr>" by (cases q) auto
  have "length bytes < 2 ^ 64" using settled(11) unat_bounds(4) [of n] by simp
  moreover have "bytes = (case br_status report of
               BrData d \<Rightarrow> if length d \<le> unat n then d else []
             | BrTruncated d \<Rightarrow> if length d \<le> unat n then d else []
             | _ \<Rightarrow> [])"
    using settled(7) by (cases "br_status report") (auto simp: backend_read_overflow_def split: if_split_asm)
  ultimately show ?thesis
    using q settled(2-6,10) classify_read_state [OF settled(7)] stream_record_fields(1,9) [OF settled(12)]
    by (simp add: unat_of_nat)
qed simp

section \<open>Executions and streams\<close>

lemma stream_fingerprint: "stream_endpoint_fingerprint x p a = endpoint_fingerprint (sx_executor x) p a"
  by (simp add: stream_endpoint_fingerprint_def endpoint_fingerprint_def)

text \<open>
  C12: A stream is bound to one completed execution. If \<open>open\<close> succeeds, the executor's chain
  verifies and holds a record of this execution with outcome completed; permit, receipt and record
  agree on every field, the grant carries exactly these values, so the destination of the stream is the
  recorded one, and the stream's chain starts at the hash of that record.
\<close>

theorem stream_bound_to_execution:
  assumes "stream_open x p rc ea l b = Ret (Inr s)"
  shows "rc_outcome rc = OCompleted \<and> executor_verify (sx_executor x) ea = Inr ()
    \<and> (\<exists>r \<in> set (chain_records ea). let ev = rec_event r; g = bs_grant s in
        xe_outcome ev = ''completed'' \<and> genesis_anchor (bs_audit s) = rec_hash r
      \<and> sg_executor_audit_anchor g = rec_hash r
      \<and> [sg_execution_id g, sg_executor_id g, sg_ticket_id g, sg_decision_id g, sg_dns_context_id g,
          sg_binding_hash g, sg_endpoint_fingerprint g, sg_remote_ip g, sg_scheme g, sg_http_host g]
        = [xe_execution_id ev, xe_executor_id ev, xe_ticket_id ev, xe_decision_id ev, xe_dns_context_id ev,
          xe_binding_hash ev, xe_endpoint_fingerprint ev, xe_remote_ip ev, xe_scheme ev, xe_http_host ev]
      \<and> [sg_execution_id g, sg_executor_id g, sg_ticket_id g, sg_decision_id g, sg_dns_context_id g,
          sg_binding_hash g, sg_endpoint_fingerprint g]
        = [rc_execution_id rc, rc_executor_id rc, rc_ticket_id rc, rc_decision_id rc, rc_dns_context_id rc,
          rc_binding_hash rc, rc_endpoint_fingerprint rc]
      \<and> sg_remote_ip g = ip_to_string (pm_remote_ip p) \<and> sg_port g = pm_port p \<and> xe_port ev = pm_port p
      \<and> sg_sni g = pm_sni p \<and> xe_sni ev = pm_sni p
      \<and> sg_redirect_depth g = pm_redirect_depth p \<and> xe_redirect_depth ev = pm_redirect_depth p
      \<and> endpoint_fingerprint (sx_executor x) p (xe_transport_audit_anchor ev) = Ret (sg_endpoint_fingerprint g))"
  using assms
proof (rule stream_open_Inr, goal_cases)
  case (1 r fp g au)
  have r: "r \<in> set (chain_records ea)" using 1(3) by (auto simp: find_Some_iff)
  have g: "bs_grant s = g" using stream_record_fields(7) [OF 1(9)] by simp
  have a: "genesis_anchor (bs_audit s) = rec_hash r" using stream_record_effect(3) [OF 1(9)] by simp
  note ch = 1(6) [unfolded binding_checks_def, simplified]
  note gr = 1(7) [unfolded make_stream_grant_def Let_def]
  show ?case unfolding Let_def g
    by (intro conjI bexI [OF _ r])
      (use 1(2,4) 1(5) [unfolded stream_fingerprint] a ch gr in \<open>auto split: sum.split_asm if_split_asm\<close>)
qed

lemma executor_run_append:
  "executor_run x f (cs1 @ cs2) e =
     (case executor_run x f cs1 e of Panic \<Rightarrow> Panic | Ret (e1, rs1) \<Rightarrow>
        (case executor_run x f cs2 e1 of Panic \<Rightarrow> Panic | Ret (e2, rs2) \<Rightarrow> Ret (e2, rs1 @ rs2)))"
proof (induction cs1 arbitrary: e)
  case Nil
  then show ?case by (auto split: run.split)
next
  case (Cons c cs1)
  obtain p anchor l ctl where c: "c = (p, anchor, l, ctl)" by (cases c) auto
  show ?case unfolding c by (auto simp: Cons.IH split: run.splits prod.splits)
qed

lemma execute_extends:
  assumes "execute x f e p anchor l ctl = Ret (e', r)"
  shows "prefix (chain_records (px_audit e)) (chain_records (px_audit e'))"
  using assms
proof (cases rule: execute_cases)
  case (accepted b states report outcome fp rc q)
  then show ?thesis using chain_append_Inr(1) chain_append_Inl
    by (cases q) (fastforce simp: executor_append_def)+
qed simp

lemma executor_run_extends:
  "executor_run x f cs e = Ret (e', rs) \<Longrightarrow> prefix (chain_records (px_audit e)) (chain_records (px_audit e'))"
proof (induction cs arbitrary: e rs)
  case (Cons c cs)
  obtain p anchor l ctl where c: "c = (p, anchor, l, ctl)" by (cases c) auto
  from Cons.prems obtain e1 r rs1 where e1: "execute x f e p anchor l ctl = Ret (e1, r)"
    "executor_run x f cs e1 = Ret (e', rs1)" by (auto simp: c split: run.splits)
  show ?case using execute_extends [OF e1(1)] Cons.IH [OF e1(2)] by (rule prefix_order.trans)
qed simp

lemma execute_records:
  assumes "execute x f e p anchor l ctl = Ret (e', Inr rc)"
  shows "endpoint_fingerprint x p anchor = Ret (rc_endpoint_fingerprint rc)"
    "rc_transport_audit_anchor rc = anchor" "rc_state_history rc \<noteq> []"
    "last (rc_state_history rc) = terminal_state (rc_outcome rc)"
    "rc_ticket_id rc = pm_ticket_id p" "rc_decision_id rc = pm_decision_id p" "rc_dns_context_id rc = pm_dns_context_id p"
    "rc_binding_hash rc = pm_binding_hash p"
    "\<exists>r. chain_records (px_audit e') = chain_records (px_audit e) @ [r] \<and> rec_event r = receipt_event p rc"
  using assms
  by (atomize (full), cases rule: execute_cases)
    (auto simp: executor_append_def dest: chain_append_Inr(1,3) split: sum.split_asm)

lemma find_key: "distinct (map k xs) \<Longrightarrow> r \<in> set xs \<Longrightarrow> find (\<lambda>q. k q = k r) xs = Some r"
  by (induction xs) (auto simp: image_iff)

lemma verify_hex:
  assumes "executor_verify x c = Inr ()" "r \<in> set (chain_records c)" "\<And>v. length (ex_sha256 x v) = 32"
  shows "is_lower_hex_sha256 (rec_hash r)"
proof -
  have "chain_hash (ser_executor x) (ex_sha256 x) (rec_sequence r) (rec_previous_hash r) (rec_event r) = Inr (rec_hash r)"
    using assms(1,2) verify_records_hash
    by (fastforce simp: executor_verify_def chain_verify_Inr executor_record_hash_def)
  then show ?thesis using is_lower_hex_sha256_digest [OF assms(3)]
    by (auto simp: chain_hash_def bind_r_Inr dest: sym)
qed

lemma stream_record_total:
  assumes "\<And>v. \<not> isl (ser_stream x v)"
  shows "\<exists>s' rc. stream_record x s d u m b a = (s', Inr rc)"
proof -
  let ?s = "s\<lparr>bs_operation_count := saturating_add (bs_operation_count s) 1\<rparr>"
  have "\<exists>d. stream_record_hash x n h e = Inr d" for n h e
    using assms [of "(n, h, e)"] by (cases "ser_stream x (n, h, e)") (auto simp: stream_record_hash_def chain_hash_def)
  then have "\<exists>c' r. stream_append x (bs_audit s) (operation_event ?s d u m b a) = (c', Inr r)"
    unfolding stream_append_def chain_append_Inr_iff by blast
  then show ?thesis by (auto simp: stream_record_def Let_def)
qed

text \<open>The record of an execution in the chain of any later moment is found by its id.\<close>

lemma execution_record_found:
  assumes "executor_new i b0 = Inr e0" "executor_run x f cs1 e0 = Ret (e, rs1)"
    "execute x f e p anchor xl ctl = Ret (e1, Inr rc)" "executor_run x f cs2 e1 = Ret (e2, rs2)"
    "length cs1 + length cs2 < 2 ^ 64 - 2"
  shows "executor_verify x (px_audit e2) = Inr ()
    \<and> (\<exists>r. find (\<lambda>r. xe_execution_id (rec_event r) = rc_execution_id rc) (chain_records (px_audit e2)) = Some r
         \<and> rec_event r = receipt_event p rc)"
proof -
  let ?cs = "cs1 @ (p, anchor, xl, ctl) # cs2"
  have e0: "px_audit e0 = executor_audit_new" "px_next_execution_id e0 = 1"
    using assms(1) by (auto simp: executor_new_def split: if_split_asm)
  have v: "executor_verify x (px_audit e0) = Inr ()" "chain_events (px_audit e0) = []"
    by (simp_all add: e0(1) executor_verify_def chain_verify_Inr executor_audit_new_def)
  have run: "executor_run x f ?cs e0 = Ret (e2, rs1 @ Inr rc # rs2)"
    using assms(2-4) by (simp add: executor_run_append)
  have b: "unat (px_next_execution_id e0) + length ?cs < 2 ^ 64" using assms(5) by (simp add: e0(2))
  obtain ns where ns: "map xe_execution_id (chain_events (px_audit e2)) = map execution_name ns" "sorted_wrt (<) ns"
      "executor_verify x (px_audit e2) = Inr ()"
    using executor_run_facts [OF run v(1) b] v(2) by auto
  have "inj_on execution_name (set ns)" by (auto simp: inj_on_def execution_name_def decimal_pad_inject)
  then have d: "distinct (map (\<lambda>r. xe_execution_id (rec_event r)) (chain_records (px_audit e2)))"
    using ns(1,2) strict_sorted_iff [of ns] by (simp add: comp_def distinct_map)
  obtain r where r: "chain_records (px_audit e1) = chain_records (px_audit e) @ [r]" "rec_event r = receipt_event p rc"
    using execute_records(9) [OF assms(3)] by blast
  have "r \<in> set (chain_records (px_audit e2))"
    using executor_run_extends [OF assms(4)] r(1) set_mono_prefix by fastforce
  from find_key [OF d this] show ?thesis using r(2) ns(3) by (auto simp: receipt_event_def)
qed

lemma completed_opens:
  assumes "executor_new i b0 = Inr e0" "executor_run (sx_executor x) f cs1 e0 = Ret (e, rs1)"
    "execute (sx_executor x) f e p anchor xl ctl = Ret (e1, Inr rc)" "executor_run (sx_executor x) f cs2 e1 = Ret (e2, rs2)"
    "length cs1 + length cs2 < 2 ^ 64 - 2" "rc_outcome rc = OCompleted" "validate_stream_limits l = Inr l"
    "\<And>v. length (sx_sha256 x v) = 32" "\<And>v. \<not> isl (ser_grant x v)" "\<And>v. \<not> isl (ser_stream x v)"
  shows "\<exists>s. stream_open x p rc (px_audit e2) l b = Ret (Inr s)"
proof -
  obtain r where r: "find (\<lambda>r. xe_execution_id (rec_event r) = rc_execution_id rc) (chain_records (px_audit e2)) = Some r"
      "rec_event r = receipt_event p rc" and v: "executor_verify (sx_executor x) (px_audit e2) = Inr ()"
    using execution_record_found [OF assms(1-5)] by blast
  note rc = execute_records [OF assms(3)]
  have "list_all fst (binding_checks p rc (rec_event r) (rc_endpoint_fingerprint rc))"
    using rc assms(6) by (simp add: binding_checks_def r(2) receipt_event_def)
  then have bind: "validate_execution_binding x p rc r = Ret (Inr ())"
    using rc assms(6) by (simp add: validate_execution_binding_def stream_fingerprint first_failed_None [symmetric])
  have "\<exists>g. make_stream_grant x p rc (rec_hash r) = Ret g"
    using assms(8) assms(9) by (auto simp: make_stream_grant_def Let_def split: sum.split) (metis isl_def)
  then obtain g where g: "make_stream_grant x p rc (rec_hash r) = Ret g" by blast
  have "r \<in> set (chain_records (px_audit e2))" using r(1) by (auto simp: find_Some_iff)
  from verify_hex [OF v this assms(8)] obtain c where c: "stream_audit_new (rec_hash r) = Inr c"
    by (simp add: stream_audit_new_def)
  obtain s z where "stream_record x \<lparr>bs_grant = g, bs_limits = l, bs_backend = b, bs_state = SOpen,
                   bs_read_bytes = 0, bs_written_bytes = 0, bs_elapsed = 0, bs_operation_count = 0,
                   bs_audit = c\<rparr> None SoOpened metrics_default SOpen SOpen = (s, Inr z)"
    using stream_record_total [OF assms(10)] by blast
  then show ?thesis using assms(7) v r(1) bind g c by (simp add: stream_open_def Let_def)
qed

text \<open>
  C35: Every completed execution can be opened as a stream. For a receipt with outcome completed, taken
  at any point of a history of a new executor, \<open>open\<close> succeeds with the permit of that execution and
  the executor's chain at any later point, given valid limits, a SHA-256 of 32 bytes and serializers
  that do not fail.
\<close>

theorem completed_execution_opens:
  assumes "executor_new i b0 = Inr e0" "executor_run (sx_executor x) f cs1 e0 = Ret (e, rs1)"
    "execute (sx_executor x) f e p anchor xl ctl = Ret (e1, Inr rc)" "executor_run (sx_executor x) f cs2 e1 = Ret (e2, rs2)"
    "length cs1 + length cs2 < 2 ^ 64 - 2" "rc_outcome rc = OCompleted" "validate_stream_limits l = Inr l"
    "\<And>v. length (sx_sha256 x v) = 32" "\<And>v. \<not> isl (ser_grant x v)" "\<And>v. \<not> isl (ser_stream x v)"
  shows "\<exists>s. stream_open x p rc (px_audit e2) l b = Ret (Inr s)"
  by (rule completed_opens [OF assms])

section \<open>Witnesses\<close>

definition sample_stream_ext :: stream_ext where
  "sample_stream_ext =
     \<lparr>sx_executor = \<lparr>ex_sha256 = \<lambda>_. replicate 32 (CHR 0x01), ser_executor = \<lambda>_. Inr [], ser_fingerprint = \<lambda>_. Inr []\<rparr>,
      ser_stream = \<lambda>_. Inr [], ser_grant = \<lambda>_. Inr []\<rparr>"

text \<open>A backend that serves a list of strings and accepts everything.\<close>

definition sample_backend :: "string list stream_backend" where
  "sample_backend =
     \<lparr>be_read = \<lambda>b n d. (case b of [] \<Rightarrow> (b, \<lparr>br_elapsed = 0, br_status = BrEof\<rparr>)
         | w # ws \<Rightarrow> (ws, \<lparr>br_elapsed = 0, br_status = BrData w\<rparr>)),
      be_write = \<lambda>b bytes d. (b, \<lparr>bw_elapsed = 0, bw_status = BwWritten (of_nat (length bytes))\<rparr>),
      be_close = \<lambda>b. b\<rparr>"

abbreviation sample_execute where
  "sample_execute \<equiv> execute (sx_executor sample_stream_ext) synthetic_execute sample_executor sample_permit
     (replicate 64 (CHR ''b'')) conservative_default (sample_control False)"

lemma sample_completed_eval: "(case sample_execute of Ret (_, Inr rc) \<Rightarrow> rc_outcome rc = OCompleted | _ \<Rightarrow> False)"
  by code_simp

lemma sample_completed: "\<exists>e rc. sample_execute = Ret (e, Inr rc) \<and> rc_outcome rc = OCompleted"
  using sample_completed_eval by (auto split: run.split_asm prod.split_asm sum.split_asm)

lemma sample_limits: "validate_stream_limits stream_conservative_default = Inr stream_conservative_default"
  by (simp add: validate_stream_limits_def stream_conservative_default_def MAX_STREAM_DIRECTION_BYTES_def
      MAX_STREAM_OPERATION_BYTES_def MAX_STREAM_DEADLINE_MILLISECONDS_def MAX_STREAM_OPERATIONS_def)

lemma sample_opened:
  obtains e rc s where "sample_execute = Ret (e, Inr rc)"
    "stream_open sample_stream_ext sample_permit rc (px_audit e) stream_conservative_default w = Ret (Inr s)"
proof -
  obtain e rc where e: "sample_execute = Ret (e, Inr rc)" "rc_outcome rc = OCompleted" using sample_completed by blast
  have new: "executor_new ''x'' (synthetic_new [scenario_success 1 2 3 4]) = Inr sample_executor" by code_simp
  have "\<exists>s. stream_open sample_stream_ext sample_permit rc (px_audit e) stream_conservative_default w = Ret (Inr s)"
    by (rule completed_opens [OF new executor_run.simps(1) e(1) executor_run.simps(1) _ e(2) sample_limits])
      (simp_all add: sample_stream_ext_def)
  then show thesis using that [OF e(1)] by blast
qed

abbreviation sample_stream_control :: "bool \<Rightarrow> stream_control" where
  "sample_stream_control stop \<equiv> \<lparr>sk_cancel_requested = False, sk_emergency_stop_requested = stop\<rparr>"

lemma sample_read:
  assumes "stream_open sample_stream_ext p rc ea stream_conservative_default [''abc''] = Ret (Inr s)"
  shows "\<exists>s' res. stream_read sample_stream_ext sample_backend s 5 (sample_stream_control False) = (s', Inr res)"
proof -
  note o = stream_open_wf [OF assms]
  have "can_read s 5" using o by (simp add: can_read_def stream_conservative_default_def)
  then have g: "bind_r (validate_operation_size s 5) (\<lambda>_. ensure_readable s) = Inr ()" by (simp only: read_guard)
  have *: "bs_elapsed s \<le> 30000" using o by (auto simp: stream_wf_def stream_conservative_default_def)
  then have "saturating_add (bs_elapsed s) 0 = bs_elapsed s"
    using unat_bounds(4) [of "bs_elapsed s"] by (simp add: saturating_add_def)
  moreover have "saturating_add 0 (3 :: u64) = 3" by (simp add: saturating_add_def)
  moreover have "\<exists>s' res. with_bytes bytes (stream_record sample_stream_ext s d u m b a) = (s', Inr res)" for bytes s d u m b a
    using stream_record_total [of sample_stream_ext s d u m b a] by (auto simp: sample_stream_ext_def with_bytes_def)
  ultimately show ?thesis using o *
    by (simp add: stream_read_def g control_outcome_def stream_conservative_default_def sample_backend_def
        saturating_sub_def charge_time_def Let_def word_le_nat_alt word_less_nat_alt)
qed

theorem stream_history_bounded_witness:
  "\<exists>e rc s s' rs. sample_execute = Ret (e, Inr rc)
     \<and> stream_open sample_stream_ext sample_permit rc (px_audit e) stream_conservative_default [''abc''] = Ret (Inr s)
     \<and> stream_run sample_stream_ext sample_backend
         [CallRead 5 (sample_stream_control False), CallWrite ''hi'' (sample_stream_control False), CallClose] s = (s', rs)
     \<and> length (concat (map delivered rs)) \<le> 2097152 \<and> length (chain_records (bs_audit s')) \<le> 4097"
proof -
  obtain e rc s where o: "sample_execute = Ret (e, Inr rc)"
    "stream_open sample_stream_ext sample_permit rc (px_audit e) stream_conservative_default [''abc''] = Ret (Inr s)"
    by (rule sample_opened)
  obtain s' rs where r: "stream_run sample_stream_ext sample_backend
         [CallRead 5 (sample_stream_control False), CallWrite ''hi'' (sample_stream_control False), CallClose] s = (s', rs)"
    by (rule prod.exhaust)
  show ?thesis using stream_history_bounded [OF o(2) r] o r
    by (intro exI [of _ e] exI [of _ rc] exI [of _ s] exI [of _ s'] exI [of _ rs])
      (simp add: stream_conservative_default_def del: stream_run.simps)
qed

theorem stream_history_audited_witness:
  "\<exists>e rc s s' rs. sample_execute = Ret (e, Inr rc)
     \<and> stream_open sample_stream_ext sample_permit rc (px_audit e) stream_conservative_default [''abc''] = Ret (Inr s)
     \<and> stream_run sample_stream_ext sample_backend [CallRead 5 (sample_stream_control False), CallClose] s = (s', rs)
     \<and> stream_verify sample_stream_ext (bs_audit s') = Inr () \<and> distinct (map op_operation_id (run_receipts rs))"
proof -
  obtain e rc s where o: "sample_execute = Ret (e, Inr rc)"
    "stream_open sample_stream_ext sample_permit rc (px_audit e) stream_conservative_default [''abc''] = Ret (Inr s)"
    by (rule sample_opened)
  obtain s' rs where r: "stream_run sample_stream_ext sample_backend
      [CallRead 5 (sample_stream_control False), CallClose] s = (s', rs)" by (rule prod.exhaust)
  show ?thesis using stream_history_audited [OF o(2) r] o r by blast
qed

theorem stop_is_final_witness:
  "\<exists>e rc s s1 r s2 rs. sample_execute = Ret (e, Inr rc)
     \<and> stream_open sample_stream_ext sample_permit rc (px_audit e) stream_conservative_default [''abc''] = Ret (Inr s)
     \<and> stream_do sample_stream_ext sample_backend (CallRead 5 (sample_stream_control True)) s = (s1, r)
     \<and> stream_run sample_stream_ext sample_backend [CallRead 5 (sample_stream_control False), CallClose] s1 = (s2, rs)
     \<and> bs_state s1 = SEmergencyStopped \<and> s2 = s1 \<and> bs_backend s1 = [''abc''] \<and> delivered r = []"
proof -
  obtain e rc s where o: "sample_execute = Ret (e, Inr rc)"
    "stream_open sample_stream_ext sample_permit rc (px_audit e) stream_conservative_default [''abc''] = Ret (Inr s)"
    by (rule sample_opened)
  obtain s1 r where d: "stream_do sample_stream_ext sample_backend (CallRead 5 (sample_stream_control True)) s = (s1, r)" by (rule prod.exhaust)
  obtain s2 rs where q: "stream_run sample_stream_ext sample_backend
      [CallRead 5 (sample_stream_control False), CallClose] s1 = (s2, rs)" by (rule prod.exhaust)
  have "can_read s 5" using stream_open_wf [OF o(2)] by (simp add: can_read_def stream_conservative_default_def)
  then have "bs_backend s1 = bs_backend s \<and> delivered r = [] \<and> bs_state s1 = SEmergencyStopped \<and> s2 = s1"
    using stop_is_final [of "sample_stream_control True" "CallRead 5 (sample_stream_control True)" 5 "[]", OF _ _ d q]
    by (simp del: stream_do.simps stream_run.simps)
  moreover have "bs_backend s = [''abc'']" using stream_open_wf [OF o(2)] by simp
  ultimately show ?thesis using o d q by metis
qed

theorem read_delivers_exactly_witness:
  "\<exists>e rc s s' res. sample_execute = Ret (e, Inr rc)
     \<and> stream_open sample_stream_ext sample_permit rc (px_audit e) stream_conservative_default [''abc''] = Ret (Inr s)
     \<and> stream_read sample_stream_ext sample_backend s 5 (sample_stream_control False) = (s', Inr res)
     \<and> rr_bytes res = ''abc''"
proof -
  obtain e rc s where o: "sample_execute = Ret (e, Inr rc)"
    "stream_open sample_stream_ext sample_permit rc (px_audit e) stream_conservative_default [''abc''] = Ret (Inr s)"
    by (rule sample_opened)
  note w = stream_open_wf [OF o(2)]
  have "bs_elapsed s \<le> 30000" using w by (auto simp: stream_wf_def stream_conservative_default_def)
  then have el: "saturating_add (bs_elapsed s) 0 \<le> 30000"
    using unat_bounds(4) [of "bs_elapsed s"] by (simp add: saturating_add_def)
  obtain s' res where r: "stream_read sample_stream_ext sample_backend s 5 (sample_stream_control False) = (s', Inr res)"
    using sample_read [OF o(2)] by blast
  have "rr_bytes res = ''abc''"
    using read_delivers_exactly [OF r] w el
    by (simp add: control_outcome_def stream_conservative_default_def sample_backend_def saturating_sub_def Let_def
        word_le_nat_alt word_less_nat_alt)
  then show ?thesis using o r by blast
qed

theorem stream_bound_to_execution_witness:
  "\<exists>e rc s. sample_execute = Ret (e, Inr rc)
     \<and> stream_open sample_stream_ext sample_permit rc (px_audit e) stream_conservative_default [''abc''] = Ret (Inr s)
     \<and> executor_verify (sx_executor sample_stream_ext) (px_audit e) = Inr ()"
proof -
  obtain e rc s where o: "sample_execute = Ret (e, Inr rc)"
    "stream_open sample_stream_ext sample_permit rc (px_audit e) stream_conservative_default [''abc''] = Ret (Inr s)"
    by (rule sample_opened)
  show ?thesis using stream_bound_to_execution [OF o(2)] o by blast
qed

theorem completed_execution_opens_witness:
  "\<exists>e rc s. sample_execute = Ret (e, Inr rc) \<and> rc_outcome rc = OCompleted
     \<and> stream_open sample_stream_ext sample_permit rc (px_audit e) stream_conservative_default () = Ret (Inr s)"
proof -
  obtain e rc where e: "sample_execute = Ret (e, Inr rc)" "rc_outcome rc = OCompleted" using sample_completed by blast
  have new: "executor_new ''x'' (synthetic_new [scenario_success 1 2 3 4]) = Inr sample_executor" by code_simp
  have "\<exists>s. stream_open sample_stream_ext sample_permit rc (px_audit e) stream_conservative_default () = Ret (Inr s)"
    by (rule completed_execution_opens [OF new executor_run.simps(1) e(1) executor_run.simps(1) _ e(2) sample_limits])
      (simp_all add: sample_stream_ext_def)
  then show ?thesis using e by blast
qed

end
