(* ===== verification/Vault.thy ===== *)
theory Vault
  imports Hash_Chain
begin

text \<open>
  The crate \<open>nxb-vault\<close>: secrets bound to an identity, hosts and schemes, leases on them, and the
  materialisation of a lease into HTTP headers that are handed out once. The serializers and SHA-256
  are in the record \<open>vault_ext\<close>. Times are seconds as \<open>i64\<close>.
\<close>

section \<open>Data\<close>

definition MAX_SECRET_BYTES :: nat where
  "MAX_SECRET_BYTES = 64 * 1024"

definition MAX_SECRET_LEASE_SECONDS :: i64 where
  "MAX_SECRET_LEASE_SECONDS = 300"

definition MAX_SECRET_HANDLES_PER_LEASE :: nat where
  "MAX_SECRET_HANDLES_PER_LEASE = 256"

type_synonym secret_handle = string

datatype secret_kind = Cookie | BearerToken | ApiKey | CsrfToken

fun secret_kind_code :: "secret_kind \<Rightarrow> string" where
  "secret_kind_code Cookie = ''cookie''"
| "secret_kind_code BearerToken = ''bearer_token''"
| "secret_kind_code ApiKey = ''api_key''"
| "secret_kind_code CsrfToken = ''csrf_token''"

datatype same_site_policy = Strict | Lax | SameSiteNone | Unspecified

record cookie_metadata =
  cm_name :: string
  cm_domain :: string
  cm_path :: string
  cm_expires_at :: "i64 option"
  cm_secure :: bool
  cm_http_only :: bool
  cm_same_site :: same_site_policy

record secret_binding =
  sb_run_id :: string
  sb_worker_id :: string
  sb_account_id :: string
  sb_tenant_id :: string
  sb_role_id :: string
  sb_allowed_hosts :: "string fset"
  sb_allowed_schemes :: "string fset"

record vault_context =
  vc_run_id :: string
  vc_worker_id :: string
  vc_account_id :: string
  vc_tenant_id :: string
  vc_role_id :: string
  vc_authority :: string
  vc_scheme :: string

datatype secret_delivery = DeliverCookie cookie_metadata | DeliverHeader string string

record secret_input =
  si_kind :: secret_kind
  si_value :: string
  si_binding :: secret_binding
  si_delivery :: secret_delivery
  si_expires_at :: "i64 option"

datatype secret_delivery_metadata = MetaCookie cookie_metadata | MetaHeader string u64

record secret_metadata =
  sm_handle :: secret_handle
  sm_kind :: secret_kind
  sm_binding :: secret_binding
  sm_delivery :: secret_delivery_metadata
  sm_created_at :: i64
  sm_expires_at :: "i64 option"

record secret_entry =
  se_metadata :: secret_metadata
  se_delivery :: secret_delivery
  se_value :: string

record lease_state =
  ls_handles :: "secret_handle list"
  ls_context :: vault_context
  ls_expires_at :: i64
  ls_consumed :: bool
  ls_revoked :: bool

record secret_lease =
  sle_lease_id :: string
  sle_context :: vault_context
  sle_expires_at :: i64
  sle_consumed :: bool

record materialized_header =
  mh_normalized_name :: string
  mh_wire_name :: string
  mh_value :: string

record secret_header_lease =
  hl_lease_id :: string
  hl_session_id :: string
  hl_authority :: string
  hl_scheme :: string
  hl_expires_at :: i64
  hl_fingerprint :: string
  hl_headers :: "materialized_header list"
  hl_consumed :: bool

record secret_header_batch =
  hb_lease_fingerprint :: string
  hb_headers :: "materialized_header list"
  hb_emitted :: bool

record vault_audit_event =
  va_action :: string
  va_outcome :: string
  va_vault_id :: string
  va_handle :: "string option"
  va_lease_id :: "string option"
  va_session_id :: "string option"
  va_metadata :: "(string \<times> string) list"

type_synonym vault_audit_chain = "vault_audit_event anchored_chain"

datatype vault_error =
  InvalidVaultIdentifier string
| InvalidSecretSize
| InvalidVaultBinding string
| InvalidDelivery string
| UnknownSecret
| SecretExpired
| AccessDenied
| InvalidLeaseSize
| InvalidLeaseDuration
| UnknownLease
| LeaseConsumed
| LeaseExpired
| LeaseRevoked
| LeaseContextMismatch
| HeaderLeaseConsumed
| HeaderLeaseBindingMismatch
| HeaderBatchConsumed
| InvalidHeaderName
| InvalidHeaderValue
| InvalidRequestTarget
| VaultAudit chain_error

text \<open>The tuple \<open>header_lease_fingerprint\<close> serializes; the names carry the lengths of the values.\<close>

type_synonym lease_fingerprint_material = "string \<times> string \<times> vault_context \<times> i64 \<times> (string \<times> nat) list"

record vault_ext =
  vx_sha256 :: "string \<Rightarrow> string"
  ser_vault :: "u64 \<times> string \<times> vault_audit_event \<Rightarrow> string + string"
  ser_lease_fingerprint :: "lease_fingerprint_material \<Rightarrow> string + string"

record secret_vault =
  iv_vault_id :: string
  iv_entries :: "(secret_handle \<times> secret_entry) list"
  iv_leases :: "(string \<times> lease_state) list"
  iv_next_secret_id :: u64
  iv_next_lease_id :: u64
  iv_audit :: vault_audit_chain

section \<open>Validation\<close>

definition is_token_byte :: "char \<Rightarrow> bool" where
  "is_token_byte c \<longleftrightarrow> is_ascii_alphanumeric c \<or> c \<in> set ''!#$%&*+-.^_|~'' \<or> byte c = 39 \<or> byte c = 96"

definition validate_vault_identifier :: "string \<Rightarrow> string \<Rightarrow> vault_error + unit" where
  "validate_vault_identifier value name =
     (if value = [] \<or> length value > 128
         \<or> \<not> list_all (\<lambda>c. is_ascii_alphanumeric c \<or> c \<in> set ''-_.'') value
      then Inl (InvalidVaultIdentifier name) else Inr ())"

definition vault_normalize_host :: "string \<Rightarrow> vault_error + string" where
  "vault_normalize_host host =
     (let normalized = to_ascii_lowercase (trim_end_matches (CHR ''.'') host) in
      if normalized = [] \<or> length normalized > 253 \<or> hd normalized = CHR ''.'' \<or> last normalized = CHR ''.''
         \<or> \<not> list_all (\<lambda>c. is_ascii_alphanumeric c \<or> c \<in> set ''.-'') normalized
      then Inl (InvalidVaultBinding ''host is invalid'') else Inr normalized)"

definition vault_normalize_scheme :: "string \<Rightarrow> vault_error + string" where
  "vault_normalize_scheme scheme =
     (let normalized = to_ascii_lowercase scheme in
      if normalized \<noteq> ''http'' \<and> normalized \<noteq> ''https'' then Inl (InvalidVaultBinding ''scheme is invalid'')
      else Inr normalized)"

definition validate_header_name :: "string \<Rightarrow> vault_error + unit" where
  "validate_header_name name =
     (if name = [] \<or> length name > 256 \<or> \<not> list_all is_token_byte name then Inl InvalidHeaderName else Inr ())"

definition is_field_byte :: "char \<Rightarrow> bool" where
  "is_field_byte c \<longleftrightarrow> \<not> (byte c < 32 \<and> byte c \<noteq> 9 \<or> byte c = 127)"

definition validate_header_value :: "string \<Rightarrow> vault_error + unit" where
  "validate_header_value value = (if \<not> list_all is_field_byte value then Inl InvalidHeaderValue else Inr ())"

definition is_protocol_managed_header :: "string \<Rightarrow> bool" where
  "is_protocol_managed_header name \<longleftrightarrow>
     name \<in> set [''host'', ''content-length'', ''transfer-encoding'', ''connection'', ''proxy-connection'',
       ''expect'', ''upgrade'', ''trailer'', ''te'']"

definition validate_request_target :: "string \<Rightarrow> vault_error + unit" where
  "validate_request_target target =
     (if target = ''*'' then Inr ()
      else if target = [] \<or> hd target \<noteq> CHR ''/'' \<or> CHR ''#'' \<in> set target
              \<or> list_ex (\<lambda>c. is_ascii_control c \<or> c = CHR '' '') target
        then Inl InvalidRequestTarget
      else Inr ())"

definition validate_cookie :: "cookie_metadata \<Rightarrow> vault_error + unit" where
  "validate_cookie c =
     (if cm_name c = [] \<or> \<not> list_all is_token_byte (cm_name c) \<or> cm_path c = [] \<or> hd (cm_path c) \<noteq> CHR ''/''
         \<or> list_ex is_ascii_control (cm_path c)
      then Inl (InvalidDelivery ''cookie name or path is invalid'')
      else bind_r (vault_normalize_host (cm_domain c)) (\<lambda>_. Inr ()))"

text \<open>The five identity checks both bindings and contexts start with.\<close>

definition validate_identity :: "string \<Rightarrow> string \<Rightarrow> string \<Rightarrow> string \<Rightarrow> string \<Rightarrow> vault_error + unit" where
  "validate_identity run_id worker_id account_id tenant_id role_id =
     bind_r (validate_vault_identifier run_id ''run_id'') (\<lambda>_.
     bind_r (validate_vault_identifier worker_id ''worker_id'') (\<lambda>_.
     bind_r (validate_vault_identifier account_id ''account_id'') (\<lambda>_.
     bind_r (validate_vault_identifier tenant_id ''tenant_id'') (\<lambda>_.
     validate_vault_identifier role_id ''role_id''))))"

definition normalized_binding :: "secret_binding \<Rightarrow> vault_error + secret_binding" where
  "normalized_binding b =
     bind_r (validate_identity (sb_run_id b) (sb_worker_id b) (sb_account_id b) (sb_tenant_id b) (sb_role_id b)) (\<lambda>_.
     if sb_allowed_hosts b = {||} \<or> sb_allowed_schemes b = {||} then
       Inl (InvalidVaultBinding ''host and scheme sets must not be empty'')
     else
       bind_r (collect_set vault_normalize_host (sb_allowed_hosts b)) (\<lambda>hosts.
       bind_r (collect_set vault_normalize_scheme (sb_allowed_schemes b)) (\<lambda>schemes.
       Inr (b\<lparr>sb_allowed_hosts := hosts, sb_allowed_schemes := schemes\<rparr>))))"

definition normalized_context :: "vault_context \<Rightarrow> vault_error + vault_context" where
  "normalized_context c =
     bind_r (validate_identity (vc_run_id c) (vc_worker_id c) (vc_account_id c) (vc_tenant_id c) (vc_role_id c)) (\<lambda>_.
     bind_r (vault_normalize_host (vc_authority c)) (\<lambda>authority.
     bind_r (vault_normalize_scheme (vc_scheme c)) (\<lambda>scheme.
     Inr (c\<lparr>vc_authority := authority, vc_scheme := scheme\<rparr>))))"

definition validate_secret_input :: "secret_input \<Rightarrow> i64 \<Rightarrow> vault_error + unit" where
  "validate_secret_input i now =
     (if si_value i = [] \<or> length (si_value i) > MAX_SECRET_BYTES then Inl InvalidSecretSize
      else
        bind_r (validate_header_value (si_value i)) (\<lambda>_.
        bind_r (normalized_binding (si_binding i)) (\<lambda>_.
        if (case si_expires_at i of None \<Rightarrow> False | Some expires \<Rightarrow> expires \<le> now) then Inl SecretExpired
        else
          (case si_delivery i of
             DeliverCookie cookie \<Rightarrow>
               (if si_kind i = Cookie then validate_cookie cookie
                else Inl (InvalidDelivery ''non-cookie secrets must use header delivery''))
           | DeliverHeader name pre \<Rightarrow>
               (if si_kind i = Cookie then Inl (InvalidDelivery ''cookie secrets must use cookie delivery'')
                else
                  bind_r (validate_header_name name) (\<lambda>_.
                  if is_protocol_managed_header (to_ascii_lowercase name) then
                    Inl (InvalidDelivery ''framing and authority headers cannot contain secrets'')
                  else validate_header_value pre))))))"

definition validate_entry_identity :: "secret_entry \<Rightarrow> vault_context \<Rightarrow> i64 \<Rightarrow> vault_error + unit" where
  "validate_entry_identity e c now =
     (if (case sm_expires_at (se_metadata e) of None \<Rightarrow> False | Some expires \<Rightarrow> now \<ge> expires) then Inl SecretExpired
      else
        let b = sm_binding (se_metadata e) in
        if sb_run_id b \<noteq> vc_run_id c \<or> sb_worker_id b \<noteq> vc_worker_id c \<or> sb_account_id b \<noteq> vc_account_id c
           \<or> sb_tenant_id b \<noteq> vc_tenant_id c \<or> sb_role_id b \<noteq> vc_role_id c
        then Inl AccessDenied else Inr ())"

definition validate_entry_access :: "secret_entry \<Rightarrow> vault_context \<Rightarrow> i64 \<Rightarrow> vault_error + unit" where
  "validate_entry_access e c now =
     bind_r (validate_entry_identity e c now) (\<lambda>_.
       let b = sm_binding (se_metadata e) in
       if vc_authority c |\<notin>| sb_allowed_hosts b \<or> vc_scheme c |\<notin>| sb_allowed_schemes b then Inl AccessDenied
       else Inr ())"

definition domain_matches :: "string \<Rightarrow> string \<Rightarrow> bool" where
  "domain_matches host domain \<longleftrightarrow>
     host = domain
     \<or> (suffix domain host \<and> (let rest = take (length host - length domain) host in rest \<noteq> [] \<and> last rest = CHR ''.''))"

definition cookie_path_matches :: "string \<Rightarrow> string \<Rightarrow> bool" where
  "cookie_path_matches target cookie_path \<longleftrightarrow>
     (let request_path = hd (split_on (CHR ''?'') target) in
      request_path = cookie_path
      \<or> (prefix cookie_path request_path
         \<and> (let rest = drop (length cookie_path) request_path in
            cookie_path \<noteq> [] \<and> last cookie_path = CHR ''/'' \<or> rest \<noteq> [] \<and> hd rest = CHR ''/'')))"

definition cookie_applies :: "cookie_metadata \<Rightarrow> vault_context \<Rightarrow> string \<Rightarrow> i64 \<Rightarrow> vault_error + bool" where
  "cookie_applies cookie c target now =
     bind_r (vault_normalize_host (cm_domain cookie)) (\<lambda>domain.
       if \<not> domain_matches (vc_authority c) domain \<or> \<not> cookie_path_matches target (cm_path cookie)
          \<or> (cm_secure cookie \<and> vc_scheme c \<noteq> ''https'')
          \<or> (case cm_expires_at cookie of None \<Rightarrow> False | Some expires \<Rightarrow> now \<ge> expires)
       then Inr False else Inr True)"

section \<open>The audit chain\<close>

definition vault_audit_new :: "vault_ext \<Rightarrow> string \<Rightarrow> vault_audit_chain" where
  "vault_audit_new x vault_id =
     (let genesis = to_lower_hex (vx_sha256 x (''nxb-vault:'' @ vault_id)) in
      \<lparr>chain_records = [], tail_hash = genesis, genesis_anchor = genesis\<rparr>)"

definition vault_record_hash :: "vault_ext \<Rightarrow> vault_audit_event record_hash" where
  "vault_record_hash x = chain_hash (ser_vault x) (vx_sha256 x)"

definition vault_append ::
  "vault_ext \<Rightarrow> vault_audit_chain \<Rightarrow> vault_audit_event
     \<Rightarrow> vault_audit_chain \<times> (chain_error + vault_audit_event chain_record)" where
  "vault_append x = chain_append (vault_record_hash x)"

definition vault_verify :: "vault_ext \<Rightarrow> vault_audit_chain \<Rightarrow> chain_error + unit" where
  "vault_verify x c = chain_verify (vault_record_hash x) (genesis_anchor c) c"

lemma vault_append_genesis: "vault_append x c e = (c', r) \<Longrightarrow> genesis_anchor c' = genesis_anchor c"
  using chain_append_genesis [of "vault_record_hash x" c e] by (simp add: vault_append_def)

interpretation vault_log: audit_log "vault_append x" "vault_verify x" chain_events
  for x
proof (unfold_locales, goal_cases)
  case (1 c e c' r)
  then show ?case using vault_append_genesis [OF 1(1)] chain_append_verify
    by (simp add: vault_verify_def vault_append_def)
qed (auto simp: vault_append_def chain_append_Inr dest: chain_append_Inl)

text \<open>\<open>self.audit.append(event)?\<close>\<close>

definition vault_record :: "vault_ext \<Rightarrow> secret_vault \<Rightarrow> vault_audit_event \<Rightarrow> secret_vault \<times> (vault_error + unit)" where
  "vault_record x v e =
     (case vault_append x (iv_audit v) e of
        (a, Inl err) \<Rightarrow> (v\<lparr>iv_audit := a\<rparr>, Inl (VaultAudit err))
      | (a, Inr _) \<Rightarrow> (v\<lparr>iv_audit := a\<rparr>, Inr ()))"

section \<open>The vault\<close>

definition vault_new :: "vault_ext \<Rightarrow> string \<Rightarrow> vault_error + secret_vault" where
  "vault_new x vault_id =
     bind_r (validate_vault_identifier vault_id ''vault_id'') (\<lambda>_.
     Inr \<lparr>iv_vault_id = vault_id, iv_entries = [], iv_leases = [], iv_next_secret_id = 1, iv_next_lease_id = 1,
          iv_audit = vault_audit_new x vault_id\<rparr>)"

fun delivery_metadata :: "secret_delivery \<Rightarrow> secret_delivery_metadata" where
  "delivery_metadata (DeliverCookie cookie) = MetaCookie cookie"
| "delivery_metadata (DeliverHeader name pre) = MetaHeader name (of_nat (length pre))"

definition secret_name :: "string \<Rightarrow> u64 \<Rightarrow> string" where
  "secret_name vault_id n = vault_id @ ''-secret-'' @ decimal_pad 20 (unat n)"

definition lease_name :: "string \<Rightarrow> u64 \<Rightarrow> string" where
  "lease_name vault_id n = vault_id @ ''-lease-'' @ decimal_pad 20 (unat n)"

definition vault_insert ::
  "vault_ext \<Rightarrow> secret_vault \<Rightarrow> secret_input \<Rightarrow> i64 \<Rightarrow> secret_vault \<times> (vault_error + secret_handle)" where
  "vault_insert x v i now =
     (case validate_secret_input i now of
        Inl err \<Rightarrow> (v, Inl err)
      | Inr _ \<Rightarrow>
          let handle = secret_name (iv_vault_id v) (iv_next_secret_id v);
              v = v\<lparr>iv_next_secret_id := saturating_add (iv_next_secret_id v) 1\<rparr> in
          (case normalized_binding (si_binding i) of
             Inl err \<Rightarrow> (v, Inl err)
           | Inr binding \<Rightarrow>
               let metadata = \<lparr>sm_handle = handle, sm_kind = si_kind i, sm_binding = binding,
                     sm_delivery = delivery_metadata (si_delivery i), sm_created_at = now,
                     sm_expires_at = si_expires_at i\<rparr>;
                   v = v\<lparr>iv_entries := AList.update handle
                     \<lparr>se_metadata = metadata, se_delivery = si_delivery i, se_value = si_value i\<rparr> (iv_entries v)\<rparr> in
               (case vault_record x v
                   \<lparr>va_action = ''secret_inserted'', va_outcome = ''stored'', va_vault_id = iv_vault_id v,
                    va_handle = Some handle, va_lease_id = None, va_session_id = None,
                    va_metadata = AList.update ''kind'' (secret_kind_code (si_kind i)) []\<rparr> of
                  (v, Inl err) \<Rightarrow> (v\<lparr>iv_entries := AList.delete handle (iv_entries v)\<rparr>, Inl err)
                | (v, Inr _) \<Rightarrow> (v, Inr handle))))"

definition vault_metadata :: "secret_vault \<Rightarrow> secret_handle \<Rightarrow> vault_error + secret_metadata" where
  "vault_metadata v handle = ok_or (map_option se_metadata (map_of (iv_entries v) handle)) UnknownSecret"

text \<open>The loop of \<open>lease\<close>: every secret must be known and fit the context.\<close>

fun check_handles :: "secret_vault \<Rightarrow> vault_context \<Rightarrow> i64 \<Rightarrow> secret_handle list \<Rightarrow> vault_error + unit" where
  "check_handles v c now [] = Inr ()"
| "check_handles v c now (handle # handles) =
     bind_r (ok_or (map_of (iv_entries v) handle) UnknownSecret) (\<lambda>e.
     bind_r (case se_delivery e of
               DeliverCookie _ \<Rightarrow> validate_entry_identity e c now
             | DeliverHeader _ _ \<Rightarrow> validate_entry_access e c now) (\<lambda>_.
     check_handles v c now handles))"

definition vault_lease ::
  "vault_ext \<Rightarrow> secret_vault \<Rightarrow> secret_handle list \<Rightarrow> vault_context \<Rightarrow> i64 \<Rightarrow> i64
     \<Rightarrow> secret_vault \<times> (vault_error + secret_lease)" where
  "vault_lease x v handles c lease_seconds now =
     (if handles = [] \<or> length handles > MAX_SECRET_HANDLES_PER_LEASE then (v, Inl InvalidLeaseSize)
      else if lease_seconds \<le> 0 \<or> lease_seconds > MAX_SECRET_LEASE_SECONDS then (v, Inl InvalidLeaseDuration)
      else
        (case bind_r (normalized_context c) (\<lambda>c. bind_r (check_handles v c now handles) (\<lambda>_. Inr c)) of
           Inl err \<Rightarrow> (v, Inl err)
         | Inr c \<Rightarrow>
             let lease_id = lease_name (iv_vault_id v) (iv_next_lease_id v);
                 expires_at = saturating_add_i64 now lease_seconds;
                 v = v\<lparr>iv_next_lease_id := saturating_add (iv_next_lease_id v) 1,
                       iv_leases := AList.update lease_id
                         \<lparr>ls_handles = handles, ls_context = c, ls_expires_at = expires_at,
                          ls_consumed = False, ls_revoked = False\<rparr> (iv_leases v)\<rparr> in
             (case vault_record x v
                 \<lparr>va_action = ''secret_lease_issued'', va_outcome = ''issued'', va_vault_id = iv_vault_id v,
                  va_handle = None, va_lease_id = Some lease_id, va_session_id = None,
                  va_metadata =
                    AList.update ''handle_count'' (decimal (length handles))
                    (AList.update ''authority'' (vc_authority c)
                    (AList.update ''scheme'' (vc_scheme c)
                    (AList.update ''expires_at'' (i64_to_string expires_at) [])))\<rparr> of
                (v, Inl err) \<Rightarrow> (v, Inl err)
              | (v, Inr _) \<Rightarrow>
                  (v, Inr \<lparr>sle_lease_id = lease_id, sle_context = c, sle_expires_at = expires_at,
                           sle_consumed = False\<rparr>))))"

text \<open>
  The loop of \<open>materialize_http_headers\<close>: the headers and the applicable cookies so far.
\<close>

fun collect_secrets ::
  "secret_vault \<Rightarrow> vault_context \<Rightarrow> string \<Rightarrow> i64 \<Rightarrow> secret_handle list
     \<Rightarrow> materialized_header list \<Rightarrow> (string \<times> string) list
     \<Rightarrow> vault_error + materialized_header list \<times> (string \<times> string) list" where
  "collect_secrets v c target now [] headers cookies = Inr (headers, cookies)"
| "collect_secrets v c target now (handle # handles) headers cookies =
     bind_r (ok_or (map_of (iv_entries v) handle) UnknownSecret) (\<lambda>e.
     case se_delivery e of
       DeliverCookie cookie \<Rightarrow>
         bind_r (validate_entry_identity e c now) (\<lambda>_.
         let b = sm_binding (se_metadata e) in
         bind_r (if vc_authority c |\<in>| sb_allowed_hosts b \<and> vc_scheme c |\<in>| sb_allowed_schemes b
                 then cookie_applies cookie c target now else Inr False) (\<lambda>applies.
         collect_secrets v c target now handles headers
           (if applies then cookies @ [(cm_name cookie, se_value e)] else cookies)))
     | DeliverHeader name pre \<Rightarrow>
         bind_r (validate_entry_access e c now) (\<lambda>_.
         bind_r (validate_header_value (pre @ se_value e)) (\<lambda>_.
         collect_secrets v c target now handles
           (headers @ [\<lparr>mh_normalized_name = to_ascii_lowercase name, mh_wire_name = name,
                        mh_value = pre @ se_value e\<rparr>]) cookies)))"

fun combine_cookies :: "(string \<times> string) list \<Rightarrow> string" where
  "combine_cookies [] = []"
| "combine_cookies [(name, value)] = name @ ''='' @ value"
| "combine_cookies ((name, value) # cs) = name @ ''='' @ value @ ''; '' @ combine_cookies cs"

definition with_cookies :: "materialized_header list \<Rightarrow> (string \<times> string) list \<Rightarrow> materialized_header list" where
  "with_cookies headers cookies =
     (if cookies \<noteq> [] then
        headers @ [\<lparr>mh_normalized_name = ''cookie'', mh_wire_name = ''Cookie'', mh_value = combine_cookies cookies\<rparr>]
      else headers)"

definition header_lease_fingerprint ::
  "vault_ext \<Rightarrow> string \<Rightarrow> string \<Rightarrow> vault_context \<Rightarrow> i64 \<Rightarrow> materialized_header list \<Rightarrow> string run" where
  "header_lease_fingerprint x lease_id session_id c expires_at headers =
     (case ser_lease_fingerprint x
         (lease_id, session_id, c, expires_at, map (\<lambda>h. (mh_normalized_name h, length (mh_value h))) headers) of
        Inl _ \<Rightarrow> Panic
      | Inr material \<Rightarrow> Ret (to_lower_hex (vx_sha256 x material)))"

text \<open>The checks on the lease before the secrets are collected.\<close>

definition check_lease :: "secret_vault \<Rightarrow> secret_lease \<Rightarrow> i64 \<Rightarrow> vault_error + lease_state" where
  "check_lease v lease now =
     bind_r (ok_or (map_of (iv_leases v) (sle_lease_id lease)) UnknownLease) (\<lambda>state.
     if ls_revoked state then Inl LeaseRevoked
     else if ls_consumed state then Inl LeaseConsumed
     else if now \<ge> ls_expires_at state then Inl LeaseExpired
     else if ls_context state \<noteq> sle_context lease then Inl LeaseContextMismatch
     else Inr state)"

definition materialize_http_headers ::
  "vault_ext \<Rightarrow> secret_vault \<Rightarrow> secret_lease \<Rightarrow> string \<Rightarrow> string \<Rightarrow> i64
     \<Rightarrow> (secret_vault \<times> secret_lease \<times> (vault_error + secret_header_lease)) run" where
  "materialize_http_headers x v lease session_id target now =
     (case bind_r (validate_vault_identifier session_id ''session_id'') (\<lambda>_. validate_request_target target) of
        Inl err \<Rightarrow> Ret (v, lease, Inl err)
      | Inr _ \<Rightarrow>
          if sle_consumed lease then Ret (v, lease, Inl LeaseConsumed)
          else
            let lease = lease\<lparr>sle_consumed := True\<rparr> in
            (case bind_r (check_lease v lease now) (\<lambda>state.
                    bind_r (collect_secrets v (ls_context state) target now (ls_handles state) [] []) (\<lambda>(hs, cs).
                    Inr (state, with_cookies hs cs))) of
               Inl err \<Rightarrow> Ret (v, lease, Inl err)
             | Inr (state, headers) \<Rightarrow>
                 let v = v\<lparr>iv_leases := AList.map_entry (sle_lease_id lease) (\<lambda>s. s\<lparr>ls_consumed := True\<rparr>) (iv_leases v)\<rparr> in
                 (case header_lease_fingerprint x (sle_lease_id lease) session_id (ls_context state)
                     (ls_expires_at state) headers of
                    Panic \<Rightarrow> Panic
                  | Ret fingerprint \<Rightarrow>
                      (case vault_record x v
                          \<lparr>va_action = ''http_headers_materialized'', va_outcome = ''materialized'',
                           va_vault_id = iv_vault_id v, va_handle = None,
                           va_lease_id = Some (sle_lease_id lease), va_session_id = Some session_id,
                           va_metadata =
                             AList.update ''header_count'' (decimal (length headers))
                             (AList.update ''authority'' (vc_authority (ls_context state))
                             (AList.update ''scheme'' (vc_scheme (ls_context state))
                             (AList.update ''fingerprint'' fingerprint [])))\<rparr> of
                         (v, Inl err) \<Rightarrow> Ret (v, lease, Inl err)
                       | (v, Inr _) \<Rightarrow>
                           Ret (v, lease, Inr
                             \<lparr>hl_lease_id = sle_lease_id lease, hl_session_id = session_id,
                              hl_authority = vc_authority (ls_context state), hl_scheme = vc_scheme (ls_context state),
                              hl_expires_at = ls_expires_at state, hl_fingerprint = fingerprint,
                              hl_headers = headers, hl_consumed = False\<rparr>)))))"

definition revoke_secret :: "vault_ext \<Rightarrow> secret_vault \<Rightarrow> secret_handle \<Rightarrow> secret_vault \<times> (vault_error + unit)" where
  "revoke_secret x v handle =
     (case map_of (iv_entries v) handle of
        None \<Rightarrow> (v, Inl UnknownSecret)
      | Some _ \<Rightarrow>
          let v = v\<lparr>iv_entries := AList.delete handle (iv_entries v),
                    iv_leases := map (\<lambda>(i, s). (i, if handle \<in> set (ls_handles s) then s\<lparr>ls_revoked := True\<rparr> else s)) (iv_leases v)\<rparr> in
          vault_record x v
            \<lparr>va_action = ''secret_revoked'', va_outcome = ''revoked'', va_vault_id = iv_vault_id v,
             va_handle = Some handle, va_lease_id = None, va_session_id = None, va_metadata = []\<rparr>)"

definition revoke_lease :: "vault_ext \<Rightarrow> secret_vault \<Rightarrow> string \<Rightarrow> secret_vault \<times> (vault_error + unit)" where
  "revoke_lease x v lease_id =
     (case map_of (iv_leases v) lease_id of
        None \<Rightarrow> (v, Inl UnknownLease)
      | Some _ \<Rightarrow>
          let v = v\<lparr>iv_leases := AList.map_entry lease_id (\<lambda>s. s\<lparr>ls_revoked := True\<rparr>) (iv_leases v)\<rparr> in
          vault_record x v
            \<lparr>va_action = ''secret_lease_revoked'', va_outcome = ''revoked'', va_vault_id = iv_vault_id v,
             va_handle = None, va_lease_id = Some lease_id, va_session_id = None, va_metadata = []\<rparr>)"

definition emergency_purge :: "vault_ext \<Rightarrow> secret_vault \<Rightarrow> secret_vault \<times> (vault_error + unit)" where
  "emergency_purge x v =
     (let secret_count = length (iv_entries v); lease_count = length (iv_leases v);
          v = v\<lparr>iv_entries := [], iv_leases := []\<rparr> in
      vault_record x v
        \<lparr>va_action = ''emergency_purge'', va_outcome = ''purged'', va_vault_id = iv_vault_id v,
         va_handle = None, va_lease_id = None, va_session_id = None,
         va_metadata = AList.update ''secret_count'' (decimal secret_count)
           (AList.update ''lease_count'' (decimal lease_count) [])\<rparr>)"

section \<open>Handing headers out\<close>

definition take_for ::
  "secret_header_lease \<Rightarrow> string \<Rightarrow> string \<Rightarrow> i64 \<Rightarrow> secret_header_lease \<times> (vault_error + secret_header_batch)" where
  "take_for l authority scheme now =
     (if hl_consumed l then (l, Inl HeaderLeaseConsumed)
      else
        let l = l\<lparr>hl_consumed := True\<rparr> in
        if now \<ge> hl_expires_at l then (l, Inl LeaseExpired)
        else
          (case bind_r (vault_normalize_host authority) (\<lambda>host.
                  if host \<noteq> hl_authority l then Inr False
                  else bind_r (vault_normalize_scheme scheme) (\<lambda>s. Inr (s = hl_scheme l))) of
             Inl err \<Rightarrow> (l, Inl err)
           | Inr False \<Rightarrow> (l, Inl HeaderLeaseBindingMismatch)
           | Inr True \<Rightarrow>
               (l\<lparr>hl_headers := []\<rparr>,
                Inr \<lparr>hb_lease_fingerprint = hl_fingerprint l, hb_headers = hl_headers l, hb_emitted = False\<rparr>)))"

definition batch_contains_name :: "secret_header_batch \<Rightarrow> string \<Rightarrow> bool" where
  "batch_contains_name b name \<longleftrightarrow> list_ex (\<lambda>h. mh_normalized_name h = name) (hb_headers b)"

definition crlf :: string where
  "crlf = [CHR 0x0D, CHR 0x0A]"

definition secret_line :: "materialized_header \<Rightarrow> string" where
  "secret_line h = mh_wire_name h @ '': '' @ mh_value h @ crlf"

definition redacted_line :: "materialized_header \<Rightarrow> string" where
  "redacted_line h = mh_wire_name h @ '': <redacted:'' @ decimal (length (mh_value h)) @ ''>'' @ crlf"

text \<open>The loop of \<open>append_http1\<close>: both wires are extended until a header is invalid.\<close>

fun append_headers :: "materialized_header list \<Rightarrow> string \<Rightarrow> string \<Rightarrow> string \<times> string \<times> (vault_error + unit)" where
  "append_headers [] wire redacted = (wire, redacted, Inr ())"
| "append_headers (h # hs) wire redacted =
     (case bind_r (validate_header_name (mh_wire_name h)) (\<lambda>_. validate_header_value (mh_value h)) of
        Inl err \<Rightarrow> (wire, redacted, Inl err)
      | Inr _ \<Rightarrow> append_headers hs (wire @ secret_line h) (redacted @ redacted_line h))"

definition append_http1 ::
  "secret_header_batch \<Rightarrow> string \<Rightarrow> string \<Rightarrow> secret_header_batch \<times> string \<times> string \<times> (vault_error + unit)" where
  "append_http1 b wire redacted =
     (if hb_emitted b then (b, wire, redacted, Inl HeaderBatchConsumed)
      else (b\<lparr>hb_emitted := True\<rparr>, append_headers (hb_headers b) wire redacted))"

section \<open>Histories\<close>

datatype vault_call =
  VInsert secret_input i64
| VLease "secret_handle list" vault_context i64 i64
| VMaterialize secret_lease string string i64
| VRevokeSecret secret_handle
| VRevokeLease string
| VPurge

datatype vault_reply =
  RHandle "vault_error + secret_handle"
| RLease "vault_error + secret_lease"
| RHeaders secret_lease "vault_error + secret_header_lease"
| RUnit "vault_error + unit"

fun vault_do :: "vault_ext \<Rightarrow> vault_call \<Rightarrow> secret_vault \<Rightarrow> (secret_vault \<times> vault_reply) run" where
  "vault_do x (VInsert i now) v = Ret (map_prod id RHandle (vault_insert x v i now))"
| "vault_do x (VLease handles c lease_seconds now) v = Ret (map_prod id RLease (vault_lease x v handles c lease_seconds now))"
| "vault_do x (VMaterialize lease session_id target now) v =
     (case materialize_http_headers x v lease session_id target now of
        Panic \<Rightarrow> Panic | Ret (v, lease, r) \<Rightarrow> Ret (v, RHeaders lease r))"
| "vault_do x (VRevokeSecret handle) v = Ret (map_prod id RUnit (revoke_secret x v handle))"
| "vault_do x (VRevokeLease lease_id) v = Ret (map_prod id RUnit (revoke_lease x v lease_id))"
| "vault_do x VPurge v = Ret (map_prod id RUnit (emergency_purge x v))"

text \<open>A history with its replies; a panic ends it.\<close>

fun vault_run :: "vault_ext \<Rightarrow> vault_call list \<Rightarrow> secret_vault \<Rightarrow> (secret_vault \<times> vault_reply list) run" where
  "vault_run x [] v = Ret (v, [])"
| "vault_run x (c # cs) v =
     (case vault_do x c v of
        Panic \<Rightarrow> Panic
      | Ret (v1, r) \<Rightarrow>
          (case vault_run x cs v1 of Panic \<Rightarrow> Panic | Ret (v2, rs) \<Rightarrow> Ret (v2, r # rs)))"

section \<open>What a lease gives out\<close>

lemma vault_record_fields:
  "vault_record x v e = (v', r) \<Longrightarrow>
     v' = v\<lparr>iv_audit := iv_audit v'\<rparr> \<and> log_extends (vault_verify x) chain_events (iv_audit v) (iv_audit v')
     \<and> genesis_anchor (iv_audit v') = genesis_anchor (iv_audit v)"
  using vault_log.extends_append [of x "iv_audit v" e]
  by (auto simp: vault_record_def dest: vault_append_genesis split: prod.split_asm sum.split_asm)

lemma vault_record_same:
  assumes "vault_record x v e = (v', r)"
  shows "iv_vault_id v' = iv_vault_id v" "iv_entries v' = iv_entries v" "iv_leases v' = iv_leases v"
    "iv_next_secret_id v' = iv_next_secret_id v" "iv_next_lease_id v' = iv_next_lease_id v"
  using vault_record_fields [OF assms] by (metis secret_vault.select_convs secret_vault.surjective secret_vault.update_convs(6))+

definition entry_identity :: "secret_entry \<Rightarrow> vault_context \<Rightarrow> bool" where
  "entry_identity e c \<longleftrightarrow> (let b = sm_binding (se_metadata e) in
     sb_run_id b = vc_run_id c \<and> sb_worker_id b = vc_worker_id c \<and> sb_account_id b = vc_account_id c
     \<and> sb_tenant_id b = vc_tenant_id c \<and> sb_role_id b = vc_role_id c)"

definition entry_live :: "secret_entry \<Rightarrow> i64 \<Rightarrow> bool" where
  "entry_live e now \<longleftrightarrow> (\<forall>t. sm_expires_at (se_metadata e) = Some t \<longrightarrow> now < t)"

definition entry_scope :: "secret_entry \<Rightarrow> vault_context \<Rightarrow> bool" where
  "entry_scope e c \<longleftrightarrow> vc_authority c |\<in>| sb_allowed_hosts (sm_binding (se_metadata e))
     \<and> vc_scheme c |\<in>| sb_allowed_schemes (sm_binding (se_metadata e))"

lemma validate_entry_identity_Inr:
  "validate_entry_identity e c now = Inr u \<longleftrightarrow> entry_live e now \<and> entry_identity e c"
  by (cases "sm_expires_at (se_metadata e)")
    (auto simp: validate_entry_identity_def entry_live_def entry_identity_def Let_def)

lemma validate_entry_access_Inr:
  "validate_entry_access e c now = Inr u \<longleftrightarrow> entry_live e now \<and> entry_identity e c \<and> entry_scope e c"
  using validate_entry_identity_Inr [of e c now "()"]
  by (auto simp: validate_entry_access_def entry_scope_def Let_def bind_r_Inr split: if_split_asm)

text \<open>A header that carries one secret, and a cookie that may be sent.\<close>

definition header_of :: "secret_entry \<Rightarrow> materialized_header \<Rightarrow> bool" where
  "header_of e h \<longleftrightarrow> (\<exists>name pre. se_delivery e = DeliverHeader name pre \<and> mh_wire_name h = name
     \<and> mh_normalized_name h = to_ascii_lowercase name \<and> mh_value h = pre @ se_value e)"

definition cookie_of :: "secret_entry \<Rightarrow> vault_context \<Rightarrow> string \<Rightarrow> i64 \<Rightarrow> string \<times> string \<Rightarrow> bool" where
  "cookie_of e c target now p \<longleftrightarrow> (\<exists>cookie domain. se_delivery e = DeliverCookie cookie
     \<and> p = (cm_name cookie, se_value e) \<and> vault_normalize_host (cm_domain cookie) = Inr domain
     \<and> domain_matches (vc_authority c) domain \<and> cookie_path_matches target (cm_path cookie)
     \<and> (cm_secure cookie \<longrightarrow> vc_scheme c = ''https'') \<and> (\<forall>t. cm_expires_at cookie = Some t \<longrightarrow> now < t))"

lemma cookie_applies_True:
  "cookie_applies cookie c target now = Inr True \<longleftrightarrow>
     (\<exists>domain. vault_normalize_host (cm_domain cookie) = Inr domain \<and> domain_matches (vc_authority c) domain
       \<and> cookie_path_matches target (cm_path cookie) \<and> (cm_secure cookie \<longrightarrow> vc_scheme c = ''https'')
       \<and> (\<forall>t. cm_expires_at cookie = Some t \<longrightarrow> now < t))"
  by (cases "cm_expires_at cookie") (auto simp: cookie_applies_def bind_r_Inr not_le)

definition releasable :: "secret_vault \<Rightarrow> secret_handle list \<Rightarrow> vault_context \<Rightarrow> i64 \<Rightarrow> secret_entry \<Rightarrow> bool" where
  "releasable v handles c now e \<longleftrightarrow>
     (\<exists>h \<in> set handles. map_of (iv_entries v) h = Some e) \<and> entry_live e now \<and> entry_identity e c \<and> entry_scope e c"

lemma releasable_mono: "releasable v hs c now e \<Longrightarrow> set hs \<subseteq> set hs' \<Longrightarrow> releasable v hs' c now e"
  by (auto simp: releasable_def)

lemma collect_secrets_Inr:
  "collect_secrets v c target now handles headers cookies = Inr (headers', cookies') \<Longrightarrow>
     (\<forall>h \<in> set handles. \<exists>e. map_of (iv_entries v) h = Some e \<and> entry_live e now \<and> entry_identity e c)
     \<and> (\<forall>h \<in> set headers'. h \<in> set headers \<or> (\<exists>e. releasable v handles c now e \<and> header_of e h))
     \<and> (\<forall>p \<in> set cookies'. p \<in> set cookies \<or> (\<exists>e. releasable v handles c now e \<and> cookie_of e c target now p))"
proof (induction v c target now handles headers cookies rule: collect_secrets.induct)
  case (2 v c target now handle handles headers cookies)
  obtain e where e: "map_of (iv_entries v) handle = Some e"
    using "2.prems" by (auto simp: bind_r_Inr ok_or_Inr)
  have mono: "releasable v handles c now f \<Longrightarrow> releasable v (handle # handles) c now f" for f
    by (rule releasable_mono) auto
  show ?case
  proof (cases "se_delivery e")
    case (DeliverCookie cookie)
    let ?b = "sm_binding (se_metadata e)"
    obtain ap where ap: "(if vc_authority c |\<in>| sb_allowed_hosts ?b \<and> vc_scheme c |\<in>| sb_allowed_schemes ?b
                 then cookie_applies cookie c target now else Inr False) = Inr ap"
      "validate_entry_identity e c now = Inr ()"
      "collect_secrets v c target now handles headers
           (if ap then cookies @ [(cm_name cookie, se_value e)] else cookies) = Inr (headers', cookies')"
      using "2.prems" e DeliverCookie by (auto simp: bind_r_Inr Let_def)
    have i: "entry_live e now" "entry_identity e c" using ap(2) by (auto simp: validate_entry_identity_Inr)
    have "ap \<Longrightarrow> releasable v (handle # handles) c now e \<and> cookie_of e c target now (cm_name cookie, se_value e)"
      using ap(1) e i DeliverCookie
      by (auto simp: releasable_def entry_scope_def cookie_of_def cookie_applies_True split: if_split_asm)
    moreover have "(\<forall>h \<in> set handles. \<exists>e. map_of (iv_entries v) h = Some e \<and> entry_live e now \<and> entry_identity e c)
     \<and> (\<forall>h \<in> set headers'. h \<in> set headers \<or> (\<exists>e. releasable v handles c now e \<and> header_of e h))
     \<and> (\<forall>p \<in> set cookies'. p \<in> set (if ap then cookies @ [(cm_name cookie, se_value e)] else cookies)
          \<or> (\<exists>e. releasable v handles c now e \<and> cookie_of e c target now p))"
      by (rule "2.IH"(1) [OF DeliverCookie refl ap(3)])
    ultimately show ?thesis using e i mono by (auto split: if_split_asm)
  next
    case (DeliverHeader name pre)
    let ?h = "\<lparr>mh_normalized_name = to_ascii_lowercase name, mh_wire_name = name, mh_value = pre @ se_value e\<rparr>"
    have ac: "validate_entry_access e c now = Inr ()"
      and cs: "collect_secrets v c target now handles (headers @ [?h]) cookies = Inr (headers', cookies')"
      using "2.prems" e DeliverHeader by (auto simp: bind_r_Inr)
    have i: "entry_live e now" "entry_identity e c" "entry_scope e c" using ac by (auto simp: validate_entry_access_Inr)
    have "releasable v (handle # handles) c now e \<and> header_of e ?h"
      using e i DeliverHeader by (auto simp: releasable_def header_of_def)
    moreover have "(\<forall>h \<in> set handles. \<exists>e. map_of (iv_entries v) h = Some e \<and> entry_live e now \<and> entry_identity e c)
     \<and> (\<forall>h \<in> set headers'. h \<in> set (headers @ [?h]) \<or> (\<exists>e. releasable v handles c now e \<and> header_of e h))
     \<and> (\<forall>p \<in> set cookies'. p \<in> set cookies \<or> (\<exists>e. releasable v handles c now e \<and> cookie_of e c target now p))"
      by (rule "2.IH"(2) [OF DeliverHeader cs])
    ultimately show ?thesis using e i mono by auto
  qed
qed simp

lemma check_lease_Inr:
  "check_lease v lease now = Inr s \<longleftrightarrow> map_of (iv_leases v) (sle_lease_id lease) = Some s \<and> \<not> ls_revoked s
     \<and> \<not> ls_consumed s \<and> now < ls_expires_at s \<and> ls_context s = sle_context lease"
  by (auto simp: check_lease_def bind_r_Inr ok_or_Inr split: if_split_asm)

lemma map_of_map_entry:
  "map_of (AList.map_entry k f xs) = (case map_of xs k of None \<Rightarrow> map_of xs | Some v \<Rightarrow> (map_of xs)(k \<mapsto> f v))"
  by (induction xs) (auto simp: fun_eq_iff split: option.splits)

lemma materialize_Inr:
  assumes "materialize_http_headers x v lease session_id target now = Ret (v', lease', Inr hl)"
  obtains state hs cs fp where "\<not> sle_consumed lease" "check_lease v lease now = Inr state"
    "collect_secrets v (ls_context state) target now (ls_handles state) [] [] = Inr (hs, cs)"
    "hl = \<lparr>hl_lease_id = sle_lease_id lease, hl_session_id = session_id,
           hl_authority = vc_authority (ls_context state), hl_scheme = vc_scheme (ls_context state),
           hl_expires_at = ls_expires_at state, hl_fingerprint = fp, hl_headers = with_cookies hs cs, hl_consumed = False\<rparr>"
    "lease' = lease\<lparr>sle_consumed := True\<rparr>"
    "iv_leases v' = AList.map_entry (sle_lease_id lease) (\<lambda>s. s\<lparr>ls_consumed := True\<rparr>) (iv_leases v)"
    "iv_entries v' = iv_entries v" "iv_next_lease_id v' = iv_next_lease_id v" "iv_vault_id v' = iv_vault_id v"
    "iv_next_secret_id v' = iv_next_secret_id v"
proof -
  let ?l = "lease\<lparr>sle_consumed := True\<rparr>"
  have c: "check_lease v ?l now = check_lease v lease now" by (simp add: check_lease_def cong: if_cong)
  note m = assms [unfolded materialize_http_headers_def Let_def]
  obtain state hs cs where s: "check_lease v lease now = Inr state"
      "collect_secrets v (ls_context state) target now (ls_handles state) [] [] = Inr (hs, cs)"
    using m by (auto simp: bind_r_Inr c split: sum.split_asm if_split_asm)
  let ?v = "v\<lparr>iv_leases := AList.map_entry (sle_lease_id lease) (\<lambda>s. s\<lparr>ls_consumed := True\<rparr>) (iv_leases v)\<rparr>"
  obtain fp e where r: "vault_record x ?v e = (v', Inr ())"
    and hl: "hl = \<lparr>hl_lease_id = sle_lease_id lease, hl_session_id = session_id,
           hl_authority = vc_authority (ls_context state), hl_scheme = vc_scheme (ls_context state),
           hl_expires_at = ls_expires_at state, hl_fingerprint = fp, hl_headers = with_cookies hs cs, hl_consumed = False\<rparr>"
    "lease' = ?l" "\<not> sle_consumed lease"
    using m s by (auto simp: c split: sum.split_asm if_split_asm run.split_asm prod.split_asm)
  show thesis using that [OF hl(3) s hl(1,2)] vault_record_same [OF r] by simp
qed

section \<open>Properties\<close>

text \<open>
  C18: Secrets are released only to the context they are bound to. When headers are materialised for a
  lease, the lease was known, neither revoked nor used, unexpired and issued for this context; every
  secret of the lease is unexpired and bound to the run, worker, account, tenant and role of the
  context; every header carries one secret whose allowed hosts and schemes contain the authority and
  scheme of the context, or is the cookie header, made of cookies that also match domain, path and
  the Secure attribute and are unexpired. The lease is used up by it.
\<close>

theorem secrets_released_to_bound_context:
  assumes "materialize_http_headers x v lease session_id target now = Ret (v', lease', Inr hl)"
  shows "\<exists>s. map_of (iv_leases v) (sle_lease_id lease) = Some s \<and> \<not> ls_revoked s \<and> \<not> ls_consumed s
      \<and> now < ls_expires_at s \<and> ls_context s = sle_context lease
      \<and> hl_authority hl = vc_authority (ls_context s) \<and> hl_scheme hl = vc_scheme (ls_context s)
      \<and> (\<forall>h \<in> set (ls_handles s). \<exists>e. map_of (iv_entries v) h = Some e \<and> entry_live e now \<and> entry_identity e (ls_context s))
      \<and> (\<forall>h \<in> set (hl_headers hl).
           (\<exists>e. releasable v (ls_handles s) (ls_context s) now e \<and> header_of e h)
         \<or> (\<exists>cs. h = \<lparr>mh_normalized_name = ''cookie'', mh_wire_name = ''Cookie'', mh_value = combine_cookies cs\<rparr>
              \<and> (\<forall>p \<in> set cs. \<exists>e. releasable v (ls_handles s) (ls_context s) now e \<and> cookie_of e (ls_context s) target now p)))
      \<and> sle_consumed lease' \<and> map_of (iv_leases v') (sle_lease_id lease) = Some (s\<lparr>ls_consumed := True\<rparr>)"
  using assms
proof (rule materialize_Inr)
  fix s hs cs fp
  assume a: "check_lease v lease now = Inr s"
    "collect_secrets v (ls_context s) target now (ls_handles s) [] [] = Inr (hs, cs)"
    "hl = \<lparr>hl_lease_id = sle_lease_id lease, hl_session_id = session_id,
           hl_authority = vc_authority (ls_context s), hl_scheme = vc_scheme (ls_context s),
           hl_expires_at = ls_expires_at s, hl_fingerprint = fp, hl_headers = with_cookies hs cs, hl_consumed = False\<rparr>"
    "lease' = lease\<lparr>sle_consumed := True\<rparr>"
    "iv_leases v' = AList.map_entry (sle_lease_id lease) (\<lambda>s. s\<lparr>ls_consumed := True\<rparr>) (iv_leases v)"
  note l = a(1) [unfolded check_lease_Inr]
  note c = collect_secrets_Inr [OF a(2)]
  have "\<forall>h \<in> set (with_cookies hs cs). (\<exists>e. releasable v (ls_handles s) (ls_context s) now e \<and> header_of e h)
         \<or> (\<exists>cs. h = \<lparr>mh_normalized_name = ''cookie'', mh_wire_name = ''Cookie'', mh_value = combine_cookies cs\<rparr>
              \<and> (\<forall>p \<in> set cs. \<exists>e. releasable v (ls_handles s) (ls_context s) now e \<and> cookie_of e (ls_context s) target now p))"
    using c by (auto simp: with_cookies_def split: if_split_asm)
  then show ?thesis using l c by (intro exI [of _ s]) (simp add: a(3-5) map_of_map_entry)
qed

section \<open>Leases are used once, revoked secrets stay gone\<close>

definition lease_number :: "string \<Rightarrow> nat \<Rightarrow> string" where
  "lease_number vault_id k = vault_id @ ''-lease-'' @ decimal_pad 20 k"

definition secret_number :: "string \<Rightarrow> nat \<Rightarrow> string" where
  "secret_number vault_id k = vault_id @ ''-secret-'' @ decimal_pad 20 k"

lemma lease_number_inject: "lease_number i k = lease_number i m \<longleftrightarrow> k = m"
  by (simp add: lease_number_def decimal_pad_inject)

lemma secret_number_inject: "secret_number i k = secret_number i m \<longleftrightarrow> k = m"
  by (simp add: secret_number_def decimal_pad_inject)

lemma vault_names: "lease_name i w = lease_number i (unat w)" "secret_name i w = secret_number i (unat w)"
  by (simp_all add: lease_name_def secret_name_def lease_number_def secret_number_def)

definition known_lease :: "secret_vault \<Rightarrow> string \<Rightarrow> bool" where
  "known_lease v i \<longleftrightarrow> (\<exists>k < unat (iv_next_lease_id v). i = lease_number (iv_vault_id v) k)"

definition known_secret :: "secret_vault \<Rightarrow> string \<Rightarrow> bool" where
  "known_secret v h \<longleftrightarrow> (\<exists>k < unat (iv_next_secret_id v). h = secret_number (iv_vault_id v) k)"

text \<open>A lease that was used, or whose record is gone; a secret that was removed.\<close>

definition lease_used :: "secret_vault \<Rightarrow> string \<Rightarrow> bool" where
  "lease_used v i \<longleftrightarrow> known_lease v i \<and> (\<forall>s. map_of (iv_leases v) i = Some s \<longrightarrow> ls_consumed s)"

definition secret_gone :: "secret_vault \<Rightarrow> string \<Rightarrow> bool" where
  "secret_gone v h \<longleftrightarrow> known_secret v h \<and> map_of (iv_entries v) h = None"

definition entry_ok :: "secret_entry \<Rightarrow> bool" where
  "entry_ok e \<longleftrightarrow> list_all is_field_byte (se_value e)
     \<and> (case se_delivery e of
          DeliverHeader name pre \<Rightarrow> \<not> is_protocol_managed_header (to_ascii_lowercase name) | DeliverCookie _ \<Rightarrow> True)"

definition vault_inv :: "vault_ext \<Rightarrow> secret_vault \<Rightarrow> bool" where
  "vault_inv x v \<longleftrightarrow> (\<forall>i \<in> dom (map_of (iv_leases v)). known_lease v i)
     \<and> (\<forall>h \<in> dom (map_of (iv_entries v)). known_secret v h)
     \<and> (\<forall>e \<in> ran (map_of (iv_entries v)). entry_ok e)
     \<and> vault_verify x (iv_audit v) = Inr ()"

definition vault_steps :: "vault_ext \<Rightarrow> secret_vault \<Rightarrow> secret_vault \<Rightarrow> bool" where
  "vault_steps x v v' \<longleftrightarrow> vault_inv x v'
     \<and> iv_vault_id v' = iv_vault_id v
     \<and> unat (iv_next_lease_id v) \<le> unat (iv_next_lease_id v') \<and> unat (iv_next_lease_id v') \<le> Suc (unat (iv_next_lease_id v))
     \<and> unat (iv_next_secret_id v) \<le> unat (iv_next_secret_id v') \<and> unat (iv_next_secret_id v') \<le> Suc (unat (iv_next_secret_id v))
     \<and> (\<forall>i. lease_used v i \<longrightarrow> lease_used v' i) \<and> (\<forall>h. secret_gone v h \<longrightarrow> secret_gone v' h)
     \<and> prefix (chain_events (iv_audit v)) (chain_events (iv_audit v'))"

lemma known_mono:
  assumes "iv_vault_id v' = iv_vault_id v" "unat (iv_next_lease_id v) \<le> unat (iv_next_lease_id v')"
    "unat (iv_next_secret_id v) \<le> unat (iv_next_secret_id v')"
  shows "known_lease v i \<Longrightarrow> known_lease v' i" "known_secret v h \<Longrightarrow> known_secret v' h"
  using assms less_le_trans unfolding known_lease_def known_secret_def by metis+

text \<open>
  Every call that changes the vault marks, removes or adds leases, removes or adds secrets, and
  records itself; what it adds has a name not handed out before.
\<close>

lemma steps_record:
  assumes inv: "vault_inv x v" and rec: "vault_record x v1 e = (v', r)"
    and same: "iv_vault_id v1 = iv_vault_id v" "iv_audit v1 = iv_audit v"
    and next_id: "unat (iv_next_lease_id v) \<le> unat (iv_next_lease_id v1)" "unat (iv_next_lease_id v1) \<le> Suc (unat (iv_next_lease_id v))"
      "unat (iv_next_secret_id v) \<le> unat (iv_next_secret_id v1)" "unat (iv_next_secret_id v1) \<le> Suc (unat (iv_next_secret_id v))"
    and leases: "\<And>i s'. map_of (iv_leases v1) i = Some s' \<Longrightarrow>
      (\<exists>s. map_of (iv_leases v) i = Some s \<and> (ls_consumed s \<longrightarrow> ls_consumed s')) \<or> (\<not> known_lease v i \<and> known_lease v1 i)"
    and entries: "\<And>h e. map_of (iv_entries v1) h = Some e \<Longrightarrow>
      map_of (iv_entries v) h = Some e \<or> (\<not> known_secret v h \<and> known_secret v1 h \<and> entry_ok e)"
  shows "vault_steps x v v'"
proof -
  note f = vault_record_same [OF rec] and g = vault_record_fields [OF rec, THEN conjunct2, unfolded same log_extends_def]
  have id: "iv_vault_id v' = iv_vault_id v" "iv_next_lease_id v' = iv_next_lease_id v1" "iv_next_secret_id v' = iv_next_secret_id v1"
    "iv_leases v' = iv_leases v1" "iv_entries v' = iv_entries v1" using f same by simp_all
  have k: "known_lease v' = known_lease v1" "known_secret v' = known_secret v1"
    by (auto simp: fun_eq_iff known_lease_def known_secret_def id same)
  have m: "known_lease v i \<Longrightarrow> known_lease v1 i" "known_secret v h \<Longrightarrow> known_secret v1 h" for i h
    using known_mono [OF same(1) next_id(1,3)] by blast+
  have i: "i \<in> dom (map_of (iv_leases v)) \<Longrightarrow> known_lease v i" "h \<in> dom (map_of (iv_entries v)) \<Longrightarrow> known_secret v h"
    "e \<in> ran (map_of (iv_entries v)) \<Longrightarrow> entry_ok e" for i h e
    using inv by (auto simp: vault_inv_def)
  have "known_lease v1 i" if "map_of (iv_leases v1) i = Some s" for i s
    using leases [OF that] m i(1) by blast
  moreover have "known_secret v1 h \<and> entry_ok e" if "map_of (iv_entries v1) h = Some e" for h e
    using entries [OF that] m i(2) [of h] i(3) [OF ranI, of h] by blast
  ultimately have "vault_inv x v'"
    using inv g unfolding vault_inv_def k id by (auto simp: ran_def)
  moreover have "lease_used v i \<Longrightarrow> lease_used v' i" for i
    using leases m(1) unfolding lease_used_def k id by blast
  moreover have "secret_gone v h \<Longrightarrow> secret_gone v' h" for h
    using entries [of h] m(2) unfolding secret_gone_def k id by (cases "map_of (iv_entries v1) h") auto
  ultimately show ?thesis unfolding vault_steps_def id using g next_id by simp
qed

lemma steps_refl: "vault_inv x v \<Longrightarrow> vault_steps x v v"
  by (simp add: vault_steps_def)

lemma steps_trans_inv: "vault_steps x v v' \<Longrightarrow> vault_inv x v'"
  by (simp add: vault_steps_def)

lemma map_of_map_value: "map_of (map (\<lambda>(k, v). (k, f v)) xs) k = map_option f (map_of xs k)"
  by (induction xs) auto

lemma map_of_delete: "map_of (AList.delete k xs) = (map_of xs)(k := None)"
  by (simp add: delete_conv')

lemma fresh_lease: "\<not> known_lease v (lease_name (iv_vault_id v) (iv_next_lease_id v))"
  by (auto simp: known_lease_def vault_names lease_number_inject)

lemma fresh_secret: "\<not> known_secret v (secret_name (iv_vault_id v) (iv_next_secret_id v))"
  by (auto simp: known_secret_def vault_names secret_number_inject)

lemma revoke_secret_steps:
  assumes "vault_inv x v" "revoke_secret x v h = (v', r)"
  shows "vault_steps x v v'" and "r = Inr () \<Longrightarrow> secret_gone v' h"
proof -
  have *: "vault_steps x v v' \<and> (r = Inr () \<longrightarrow> secret_gone v' h)"
  proof (cases "map_of (iv_entries v) h")
    case None
    then show ?thesis using assms by (auto simp: revoke_secret_def steps_refl)
  next
    case (Some e)
    let ?v = "v\<lparr>iv_entries := AList.delete h (iv_entries v),
        iv_leases := map (\<lambda>(i, s). (i, if h \<in> set (ls_handles s) then s\<lparr>ls_revoked := True\<rparr> else s)) (iv_leases v)\<rparr>"
    obtain ev where rec: "vault_record x ?v ev = (v', r)" using assms(2) Some by (auto simp: revoke_secret_def Let_def)
    have "vault_steps x v v'"
      by (rule steps_record [OF assms(1) rec]) (auto simp: map_of_map_value map_of_delete split: if_split_asm)
    moreover have "known_secret v h" using assms(1) Some by (auto simp: vault_inv_def)
    then have "secret_gone v' h"
      using vault_record_same [OF rec] by (simp add: secret_gone_def known_secret_def map_of_delete)
    ultimately show ?thesis by simp
  qed
  then show "vault_steps x v v'" "r = Inr () \<Longrightarrow> secret_gone v' h" by simp_all
qed

lemma revoke_lease_steps:
  assumes "vault_inv x v" "revoke_lease x v i = (v', r)"
  shows "vault_steps x v v'"
proof (cases "map_of (iv_leases v) i")
  case None
  then show ?thesis using assms by (simp add: revoke_lease_def steps_refl)
next
  case (Some s)
  then obtain ev where rec: "vault_record x (v\<lparr>iv_leases := AList.map_entry i (\<lambda>s. s\<lparr>ls_revoked := True\<rparr>) (iv_leases v)\<rparr>) ev = (v', r)"
    using assms(2) by (auto simp: revoke_lease_def Let_def)
  show ?thesis
    by (rule steps_record [OF assms(1) rec]) (auto simp: map_of_map_entry Some split: if_split_asm)
qed

lemma emergency_purge_steps:
  assumes "vault_inv x v" "emergency_purge x v = (v', r)"
  shows "vault_steps x v v'"
proof -
  obtain ev where rec: "vault_record x (v\<lparr>iv_entries := [], iv_leases := []\<rparr>) ev = (v', r)"
    using assms(2) by (auto simp: emergency_purge_def Let_def)
  show ?thesis by (rule steps_record [OF assms(1) rec]) auto
qed

lemma vault_lease_steps:
  assumes "vault_inv x v" "vault_lease x v hs c secs now = (v', r)" "unat (iv_next_lease_id v) < 2 ^ 64 - 1"
  shows "vault_steps x v v'"
proof (cases "v' = v")
  case False
  let ?i = "lease_name (iv_vault_id v) (iv_next_lease_id v)"
  obtain s ev q where rec: "vault_record x (v\<lparr>iv_next_lease_id := saturating_add (iv_next_lease_id v) 1,
      iv_leases := AList.update ?i s (iv_leases v)\<rparr>) ev = (v', q)"
    using assms(2) False by (auto simp: vault_lease_def Let_def split: if_split_asm sum.split_asm prod.split_asm)
  have n: "unat (saturating_add (iv_next_lease_id v) 1) = Suc (unat (iv_next_lease_id v))"
    using assms(3) by (simp add: unat_saturating_add)
  show ?thesis
    by (rule steps_record [OF assms(1) rec])
      (use fresh_lease [of v] n in \<open>auto simp: update_conv' known_lease_def vault_names split: if_split_asm\<close>)
qed (simp add: steps_refl assms(1))

lemma known_entries [simp]:
  "known_lease (v\<lparr>iv_entries := es\<rparr>) = known_lease v" "known_secret (v\<lparr>iv_entries := es\<rparr>) = known_secret v"
  "lease_used (v\<lparr>iv_entries := es\<rparr>) = lease_used v"
  by (auto simp: fun_eq_iff known_lease_def known_secret_def lease_used_def)

lemma steps_delete: "vault_steps x v v1 \<Longrightarrow> vault_steps x v (v1\<lparr>iv_entries := AList.delete h (iv_entries v1)\<rparr>)"
  by (auto simp: vault_steps_def vault_inv_def secret_gone_def map_of_delete ran_def split: if_split_asm)

lemma vault_insert_steps:
  assumes "vault_inv x v" "vault_insert x v i now = (v', r)" "unat (iv_next_secret_id v) < 2 ^ 64 - 1"
  shows "vault_steps x v v'"
proof (cases "validate_secret_input i now")
  case (Inl e)
  then show ?thesis using assms by (simp add: vault_insert_def steps_refl)
next
  case (Inr u)
  let ?h = "secret_name (iv_vault_id v) (iv_next_secret_id v)"
  have "\<exists>b. normalized_binding (si_binding i) = Inr b"
    and ok: "entry_ok \<lparr>se_metadata = m, se_delivery = si_delivery i, se_value = si_value i\<rparr>" for m
    using Inr by (auto simp: validate_secret_input_def validate_header_value_def bind_r_Inr entry_ok_def
        split: if_split_asm secret_delivery.split_asm)
  then obtain m ev v1 q where rec: "vault_record x (v\<lparr>iv_next_secret_id := saturating_add (iv_next_secret_id v) 1,
      iv_entries := AList.update ?h \<lparr>se_metadata = m, se_delivery = si_delivery i, se_value = si_value i\<rparr> (iv_entries v)\<rparr>) ev = (v1, q)"
    and v': "v' = v1 \<or> v' = v1\<lparr>iv_entries := AList.delete ?h (iv_entries v1)\<rparr>"
    using assms(2) Inr by (auto simp: vault_insert_def Let_def split: sum.split_asm prod.split_asm)
  have n: "unat (saturating_add (iv_next_secret_id v) 1) = Suc (unat (iv_next_secret_id v))"
    using assms(3) by (simp add: unat_saturating_add)
  have s1: "vault_steps x v v1"
    by (rule steps_record [OF assms(1) rec])
      (use fresh_secret [of v] n ok in
        \<open>auto simp: update_conv' known_secret_def vault_names split: if_split_asm\<close>)
  from v' show ?thesis
  proof
    assume "v' = v1\<lparr>iv_entries := AList.delete ?h (iv_entries v1)\<rparr>"
    then show ?thesis using steps_delete [OF s1] by simp
  qed (use s1 in simp)
qed

lemma materialize_steps:
  assumes "vault_inv x v" "materialize_http_headers x v lease sid target now = Ret (v', lease', r)"
  shows "vault_steps x v v'"
proof (cases "v' = v")
  case False
  obtain ev q where rec: "vault_record x (v\<lparr>iv_leases :=
      AList.map_entry (sle_lease_id lease) (\<lambda>s. s\<lparr>ls_consumed := True\<rparr>) (iv_leases v)\<rparr>) ev = (v', q)"
    using assms(2) False
    by (auto simp: materialize_http_headers_def Let_def split: if_split_asm sum.split_asm prod.split_asm run.split_asm)
  show ?thesis
    by (rule steps_record [OF assms(1) rec]) (auto simp: map_of_map_entry split: if_split_asm option.split_asm)
qed (simp add: steps_refl assms(1))

lemma vault_do_steps:
  assumes "vault_inv x v" "vault_do x c v = Ret (v', r)"
    "unat (iv_next_lease_id v) < 2 ^ 64 - 1" "unat (iv_next_secret_id v) < 2 ^ 64 - 1"
  shows "vault_steps x v v'"
  using assms vault_insert_steps [OF assms(1)] vault_lease_steps [OF assms(1)] materialize_steps [OF assms(1)]
    revoke_secret_steps(1) [OF assms(1)] revoke_lease_steps [OF assms(1)] emergency_purge_steps [OF assms(1)]
  by (cases c) (auto simp: map_prod_def split: prod.split_asm run.split_asm)

definition materialized :: "vault_reply \<Rightarrow> string list" where
  "materialized r = (case r of RHeaders lease (Inr hl) \<Rightarrow> [hl_lease_id hl] | _ \<Rightarrow> [])"

lemma vault_do_materialized:
  assumes "vault_inv x v" "vault_do x c v = Ret (v', r)" "i \<in> set (materialized r)"
  shows "\<not> lease_used v i" "lease_used v' i" "materialized r = [i]"
proof -
  obtain lease sid target now lease' hl where c: "c = VMaterialize lease sid target now"
      "materialize_http_headers x v lease sid target now = Ret (v', lease', Inr hl)" "r = RHeaders lease' (Inr hl)"
      "i = hl_lease_id hl"
    using assms(2,3)
    by (cases c) (auto simp: materialized_def map_prod_def split: prod.split_asm run.split_asm sum.split_asm)
  from c(2) show "\<not> lease_used v i" "lease_used v' i" "materialized r = [i]"
  proof (atomize (full), rule materialize_Inr, goal_cases)
    case (1 s hs cs fp)
    have i: "i = sle_lease_id lease" using c(4) 1(4) by simp
    have l: "map_of (iv_leases v) i = Some s" "\<not> ls_consumed s" using 1(2) by (auto simp: check_lease_Inr i)
    have "known_lease v i" using assms(1) l(1) by (auto simp: vault_inv_def)
    then have "known_lease v' i" using 1(8,9) by (simp add: known_lease_def)
    then show ?case using l 1(6) c(3,4) by (auto simp: lease_used_def i map_of_map_entry materialized_def)
  qed
qed

lemma vault_run_facts:
  assumes "vault_inv x v" "vault_run x cs v = Ret (v', rs)"
    "unat (iv_next_lease_id v) + length cs < 2 ^ 64" "unat (iv_next_secret_id v) + length cs < 2 ^ 64"
  shows "vault_inv x v' \<and> (\<forall>i. lease_used v i \<longrightarrow> lease_used v' i) \<and> (\<forall>h. secret_gone v h \<longrightarrow> secret_gone v' h)
    \<and> distinct (concat (map materialized rs)) \<and> (\<forall>i \<in> set (concat (map materialized rs)). \<not> lease_used v i)
    \<and> prefix (chain_events (iv_audit v)) (chain_events (iv_audit v'))"
  using assms
proof (induction cs arbitrary: v rs)
  case (Cons c cs)
  obtain v1 r rs1 where d: "vault_do x c v = Ret (v1, r)" "vault_run x cs v1 = Ret (v', rs1)" "rs = r # rs1"
    using Cons.prems(2) by (auto split: run.split_asm)
  have st: "vault_steps x v v1" by (rule vault_do_steps [OF Cons.prems(1) d(1)]) (use Cons.prems(3,4) in simp_all)
  have ih: "vault_inv x v' \<and> (\<forall>i. lease_used v1 i \<longrightarrow> lease_used v' i) \<and> (\<forall>h. secret_gone v1 h \<longrightarrow> secret_gone v' h)
    \<and> distinct (concat (map materialized rs1)) \<and> (\<forall>i \<in> set (concat (map materialized rs1)). \<not> lease_used v1 i)
    \<and> prefix (chain_events (iv_audit v1)) (chain_events (iv_audit v'))"
    by (rule Cons.IH [OF _ d(2)]) (use st Cons.prems(3,4) in \<open>auto simp: vault_steps_def\<close>)
  note m = vault_do_materialized [OF Cons.prems(1) d(1)]
  have "distinct (materialized r)" "set (materialized r) \<inter> set (concat (map materialized rs1)) = {}"
    "\<forall>i \<in> set (materialized r). \<not> lease_used v i"
    using m ih by (cases "materialized r"; fastforce)+
  then show ?case using ih st unfolding d(3) vault_steps_def
    by (auto intro: prefix_order.trans)
qed simp

lemma vault_new_inv: "vault_new x i = Inr v \<Longrightarrow> vault_inv x v \<and> iv_next_lease_id v = 1 \<and> iv_next_secret_id v = 1"
  by (auto simp: vault_new_def bind_r_Inr vault_inv_def vault_verify_def chain_verify_Inr vault_audit_new_def Let_def)

text \<open>
  C19: A lease is used at most once. In any history of a new vault, whatever leases its client presents
  and whatever is revoked or purged in between, no lease is materialised twice; the audit chain
  verifies at the end.
\<close>

theorem lease_materialised_once:
  assumes "vault_new x i = Inr v" "vault_run x cs v = Ret (v', rs)" "length cs < 2 ^ 64 - 1"
  shows "distinct (concat (map materialized rs)) \<and> vault_verify x (iv_audit v') = Inr ()"
  using vault_run_facts [OF _ assms(2)] vault_new_inv [OF assms(1)] assms(3) by (simp add: vault_inv_def)

text \<open>
  C36: Revocation is final. Once a secret of a vault with a valid state has been revoked, then after any
  further history no lease that names it is materialised, however the lease was obtained.
\<close>

theorem revoked_secret_is_gone:
  assumes "vault_inv x v" "revoke_secret x v h = (v1, Inr ())" "vault_run x cs v1 = Ret (v2, rs)"
    "unat (iv_next_lease_id v) + length cs < 2 ^ 64" "unat (iv_next_secret_id v) + length cs < 2 ^ 64"
    "map_of (iv_leases v2) (sle_lease_id lease) = Some s" "h \<in> set (ls_handles s)"
  shows "materialize_http_headers x v2 lease sid target now \<noteq> Ret (v3, lease', Inr hl)"
proof
  assume m: "materialize_http_headers x v2 lease sid target now = Ret (v3, lease', Inr hl)"
  have "map_of (iv_entries v) h \<noteq> None" using assms(2) by (cases "map_of (iv_entries v) h") (auto simp: revoke_secret_def)
  then have "iv_next_lease_id v1 = iv_next_lease_id v" "iv_next_secret_id v1 = iv_next_secret_id v"
    using assms(2) vault_record_same(4,5) by (fastforce simp: revoke_secret_def Let_def)+
  then have "secret_gone v2 h"
    using vault_run_facts [OF _ assms(3)] revoke_secret_steps [OF assms(1,2)] assms(4,5) by (auto simp: vault_steps_def)
  moreover from m have "\<exists>e. map_of (iv_entries v2) h = Some e"
  proof (rule materialize_Inr)
    fix s' hs cs'
    assume a: "check_lease v2 lease now = Inr s'"
      "collect_secrets v2 (ls_context s') target now (ls_handles s') [] [] = Inr (hs, cs')"
    have "s' = s" using a(1) assms(6) by (simp add: check_lease_Inr)
    then show ?thesis using collect_secrets_Inr [OF a(2)] assms(7) by blast
  qed
  ultimately show False by (simp add: secret_gone_def)
qed

section \<open>What an observer learns of a secret\<close>

text \<open>
  Erasing a value keeps its length and whether it is a legal field value, and nothing else.
\<close>

definition erase_byte :: "char \<Rightarrow> char" where
  "erase_byte c = (if is_field_byte c then CHR ''x'' else CHR 0x00)"

definition erase_value :: "string \<Rightarrow> string" where
  "erase_value v = map erase_byte v"

definition erase_entry :: "secret_entry \<Rightarrow> secret_entry" where
  "erase_entry e = e\<lparr>se_value := erase_value (se_value e)\<rparr>"

definition erase_vault :: "secret_vault \<Rightarrow> secret_vault" where
  "erase_vault v = v\<lparr>iv_entries := map (\<lambda>(h, e). (h, erase_entry e)) (iv_entries v)\<rparr>"

definition erase_header :: "materialized_header \<Rightarrow> materialized_header" where
  "erase_header h = h\<lparr>mh_value := erase_value (mh_value h)\<rparr>"

fun erase_call :: "vault_call \<Rightarrow> vault_call" where
  "erase_call (VInsert i now) = VInsert (i\<lparr>si_value := erase_value (si_value i)\<rparr>) now"
| "erase_call c = c"

fun erase_reply :: "vault_reply \<Rightarrow> vault_reply" where
  "erase_reply (RHeaders l (Inr hl)) = RHeaders l (Inr (hl\<lparr>hl_headers := map erase_header (hl_headers hl)\<rparr>))"
| "erase_reply r = r"

lemma erase_byte_simps [simp]: "is_field_byte (erase_byte c) = is_field_byte c" "erase_byte (erase_byte c) = erase_byte c"
proof -
  have "is_field_byte (CHR ''x'')" "\<not> is_field_byte (CHR 0x00)" by (simp_all add: is_field_byte_def byte_def)
  then show "is_field_byte (erase_byte c) = is_field_byte c" "erase_byte (erase_byte c) = erase_byte c"
    by (simp_all add: erase_byte_def)
qed

lemma erase_value_simps [simp]:
  "length (erase_value v) = length v" "erase_value (erase_value v) = erase_value v" "erase_value [] = []"
  "erase_value (c # s) = erase_byte c # erase_value s" "erase_value (a @ b) = erase_value a @ erase_value b" "erase_value v = [] \<longleftrightarrow> v = []"
  "list_all is_field_byte (erase_value v) = list_all is_field_byte v"
  by (simp_all add: erase_value_def list_all_iff)

lemma erase_header_length: "erase_header a = erase_header b \<Longrightarrow> length (mh_value a) = length (mh_value b)"
  using erase_value_simps(1) [of "mh_value a"] erase_value_simps(1) [of "mh_value b"]
  by (cases a; cases b) (auto simp: erase_header_def)

lemma erase_header_name: "erase_header a = erase_header b \<Longrightarrow> mh_wire_name a = mh_wire_name b \<and> mh_normalized_name a = mh_normalized_name b"
  by (cases a; cases b) (auto simp: erase_header_def)

lemma erase_vault_fields [simp]:
  "iv_vault_id (erase_vault v) = iv_vault_id v" "iv_leases (erase_vault v) = iv_leases v" "iv_audit (erase_vault v) = iv_audit v"
  "iv_next_secret_id (erase_vault v) = iv_next_secret_id v" "iv_next_lease_id (erase_vault v) = iv_next_lease_id v"
  "map_of (iv_entries (erase_vault v)) h = map_option erase_entry (map_of (iv_entries v) h)"
  "length (iv_entries (erase_vault v)) = length (iv_entries v)"
  by (simp_all add: erase_vault_def map_of_map_value)

lemma erase_vault_updates [simp]:
  "erase_vault (v\<lparr>iv_audit := a\<rparr>) = (erase_vault v)\<lparr>iv_audit := a\<rparr>"
  "erase_vault (v\<lparr>iv_leases := l\<rparr>) = (erase_vault v)\<lparr>iv_leases := l\<rparr>"
  "erase_vault (v\<lparr>iv_next_secret_id := n\<rparr>) = (erase_vault v)\<lparr>iv_next_secret_id := n\<rparr>"
  "erase_vault (v\<lparr>iv_next_lease_id := n\<rparr>) = (erase_vault v)\<lparr>iv_next_lease_id := n\<rparr>"
  by (simp_all add: erase_vault_def)

lemma map_update: "map (\<lambda>(h, e). (h, f e)) (AList.update k a xs) = AList.update k (f a) (map (\<lambda>(h, e). (h, f e)) xs)"
  by (induction xs) auto

lemma map_delete: "map (\<lambda>(h, e). (h, f e)) (AList.delete k xs) = AList.delete k (map (\<lambda>(h, e). (h, f e)) xs)"
  by (induction xs) (auto simp: delete_simps)

lemma erase_vault_entries:
  "erase_vault (v\<lparr>iv_entries := AList.update k e (iv_entries v)\<rparr>)
     = (erase_vault v)\<lparr>iv_entries := AList.update k (erase_entry e) (iv_entries (erase_vault v))\<rparr>"
  "erase_vault (v\<lparr>iv_entries := AList.delete k (iv_entries v)\<rparr>)
     = (erase_vault v)\<lparr>iv_entries := AList.delete k (iv_entries (erase_vault v))\<rparr>"
  by (simp_all add: erase_vault_def map_update map_delete)

lemma erase_record: "vault_record x (erase_vault v) e = map_prod erase_vault id (vault_record x v e)"
  by (auto simp: vault_record_def split: prod.split sum.split)

lemma erase_entry_checks [simp]:
  "validate_entry_identity (erase_entry e) c now = validate_entry_identity e c now"
  "validate_entry_access (erase_entry e) c now = validate_entry_access e c now"
  "se_delivery (erase_entry e) = se_delivery e" "se_metadata (erase_entry e) = se_metadata e"
  "se_value (erase_entry e) = erase_value (se_value e)"
  by (simp_all add: erase_entry_def validate_entry_identity_def validate_entry_access_def)

lemma erase_insert:
  "vault_insert x (erase_vault v) (i\<lparr>si_value := erase_value (si_value i)\<rparr>) now
     = map_prod erase_vault id (vault_insert x v i now)"
proof -
  have v: "validate_secret_input (i\<lparr>si_value := erase_value (si_value i)\<rparr>) now = validate_secret_input i now"
    by (cases "si_delivery i") (simp_all add: validate_secret_input_def validate_header_value_def cong: if_cong)
  show ?thesis
  proof (cases "validate_secret_input i now")
    case (Inr u)
    then obtain b where b: "normalized_binding (si_binding i) = Inr b"
      by (auto simp: validate_secret_input_def bind_r_Inr split: if_split_asm)
    let ?h = "secret_name (iv_vault_id v) (iv_next_secret_id v)"
    define m where "m = \<lparr>sm_handle = ?h, sm_kind = si_kind i, sm_binding = b,
        sm_delivery = delivery_metadata (si_delivery i), sm_created_at = now, sm_expires_at = si_expires_at i\<rparr>"
    define w where "w = v\<lparr>iv_next_secret_id := saturating_add (iv_next_secret_id v) 1,
        iv_entries := AList.update ?h \<lparr>se_metadata = m, se_delivery = si_delivery i, se_value = si_value i\<rparr> (iv_entries v)\<rparr>"
    have "erase_vault w = (erase_vault v)\<lparr>iv_next_secret_id := saturating_add (iv_next_secret_id v) 1,
        iv_entries := AList.update ?h \<lparr>se_metadata = m, se_delivery = si_delivery i, se_value = erase_value (si_value i)\<rparr>
          (iv_entries (erase_vault v))\<rparr>"
      by (simp add: w_def erase_vault_def map_update erase_entry_def)
    then show ?thesis using erase_record [of x w] erase_vault_entries(2)
      by (auto simp: vault_insert_def v Inr b Let_def m_def [symmetric] w_def [symmetric] split: prod.split sum.split)
  qed (simp add: vault_insert_def v)
qed

lemma erase_check_handles: "check_handles (erase_vault v) c now hs = check_handles v c now hs"
  by (induction hs) (auto simp: ok_or_def split: option.split secret_delivery.split)

lemma erase_lease:
  "vault_lease x (erase_vault v) hs c secs now = map_prod erase_vault id (vault_lease x v hs c secs now)"
  by (auto simp: vault_lease_def erase_check_handles Let_def erase_vault_updates [symmetric] erase_record
      simp del: erase_vault_updates split: sum.split prod.split)

lemma erase_revoke_secret: "revoke_secret x (erase_vault v) h = map_prod erase_vault id (revoke_secret x v h)"
proof (cases "map_of (iv_entries v) h")
  case (Some e)
  define w where "w = v\<lparr>iv_entries := AList.delete h (iv_entries v),
        iv_leases := map (\<lambda>(i, s). (i, if h \<in> set (ls_handles s) then s\<lparr>ls_revoked := True\<rparr> else s)) (iv_leases v)\<rparr>"
  have "(erase_vault v)\<lparr>iv_entries := AList.delete h (iv_entries (erase_vault v)),
        iv_leases := map (\<lambda>(i, s). (i, if h \<in> set (ls_handles s) then s\<lparr>ls_revoked := True\<rparr> else s)) (iv_leases v)\<rparr> = erase_vault w"
    by (simp add: w_def erase_vault_def map_delete)
  then show ?thesis using Some by (simp add: revoke_secret_def Let_def erase_record w_def [symmetric])
qed (simp add: revoke_secret_def)

lemma erase_revoke_lease: "revoke_lease x (erase_vault v) i = map_prod erase_vault id (revoke_lease x v i)"
  by (auto simp: revoke_lease_def Let_def erase_vault_updates [symmetric] erase_record
      simp del: erase_vault_updates split: option.split)

lemma erase_purge: "emergency_purge x (erase_vault v) = map_prod erase_vault id (emergency_purge x v)"
proof -
  have "(erase_vault v)\<lparr>iv_entries := [], iv_leases := []\<rparr> = erase_vault (v\<lparr>iv_entries := [], iv_leases := []\<rparr>)"
    by (simp add: erase_vault_def)
  then show ?thesis by (simp add: emergency_purge_def Let_def erase_record del: erase_vault_updates)
qed

definition erase_cookie :: "string \<times> string \<Rightarrow> string \<times> string" where
  "erase_cookie p = (fst p, erase_value (snd p))"

lemma erase_cookie_pair [simp]: "erase_cookie (n, v) = (n, erase_value v)"
  by (simp add: erase_cookie_def)

text \<open>The observable part of the collected secrets.\<close>

definition erase_collected ::
  "vault_error + materialized_header list \<times> (string \<times> string) list
     \<Rightarrow> vault_error + materialized_header list \<times> (string \<times> string) list" where
  "erase_collected = map_sum id (map_prod (map erase_header) (map erase_cookie))"

lemma erase_collect:
  "map erase_header hs = map erase_header hs' \<Longrightarrow> map erase_cookie cs = map erase_cookie cs' \<Longrightarrow>
     erase_collected (collect_secrets (erase_vault v) c target now handles hs cs)
       = erase_collected (collect_secrets v c target now handles hs' cs')"
proof (induction handles arbitrary: hs cs hs' cs')
  case Nil
  then show ?case by (simp add: erase_collected_def)
next
  case (Cons h handles)
  show ?case
  proof (cases "map_of (iv_entries v) h")
    case (Some e)
    show ?thesis
    proof (cases "se_delivery e")
      case (DeliverCookie cookie)
      let ?b = "sm_binding (se_metadata e)"
      define ap where "ap = (if vc_authority c |\<in>| sb_allowed_hosts ?b \<and> vc_scheme c |\<in>| sb_allowed_schemes ?b
                 then cookie_applies cookie c target now else Inr False)"
      have u: "collect_secrets w c target now (h # handles) hs cs = bind_r (validate_entry_identity e c now) (\<lambda>_.
          bind_r ap (\<lambda>a. collect_secrets w c target now handles hs (if a then cs @ [(cm_name cookie, se_value f)] else cs)))"
        if "map_of (iv_entries w) h = Some f" "f = e \<or> f = erase_entry e" for w f hs cs
        using that DeliverCookie by (auto simp: Let_def ap_def)
      have u1: "collect_secrets (erase_vault v) c target now (h # handles) hs cs = bind_r (validate_entry_identity e c now) (\<lambda>_.
          bind_r ap (\<lambda>a. collect_secrets (erase_vault v) c target now handles hs
            (if a then cs @ [(cm_name cookie, erase_value (se_value e))] else cs)))"
        using u [of "erase_vault v", OF _ disjI2 [OF refl], of hs cs] Some
        by (simp only: erase_vault_fields option.map erase_entry_checks simp_thms)
      have "map erase_cookie (if a then cs @ [(cm_name cookie, erase_value (se_value e))] else cs)
          = map erase_cookie (if a then cs' @ [(cm_name cookie, se_value e)] else cs')" for a
        using Cons.prems(2) by simp
      note ih = Cons.IH [OF Cons.prems(1) this]
      have u2: "collect_secrets v c target now (h # handles) hs' cs' = bind_r (validate_entry_identity e c now) (\<lambda>_.
          bind_r ap (\<lambda>a. collect_secrets v c target now handles hs' (if a then cs' @ [(cm_name cookie, se_value e)] else cs')))"
        by (rule u [OF Some]) simp
      show ?thesis unfolding u1 u2
        by (cases "validate_entry_identity e c now"; cases ap) (simp_all only: bind_r_simps ih)
    next
      case (DeliverHeader name pre)
      show ?thesis
        using Cons.IH [OF _ Cons.prems(2), of "hs @ [\<lparr>mh_normalized_name = to_ascii_lowercase name, mh_wire_name = name,
              mh_value = pre @ erase_value (se_value e)\<rparr>]" "hs' @ [\<lparr>mh_normalized_name = to_ascii_lowercase name,
              mh_wire_name = name, mh_value = pre @ se_value e\<rparr>]"] Cons.prems
        by (cases "validate_entry_access e c now")
          (auto simp: Some DeliverHeader validate_header_value_def erase_header_def)
    qed
  qed simp
qed

lemma erase_combine: "erase_value (combine_cookies (map erase_cookie cs)) = erase_value (combine_cookies cs)"
  by (induction cs rule: combine_cookies.induct) auto

lemma erase_with_cookies:
  assumes "map erase_header hs = map erase_header hs'" "map erase_cookie cs = map erase_cookie cs'"
  shows "map erase_header (with_cookies hs cs) = map erase_header (with_cookies hs' cs')"
proof -
  have "erase_value (combine_cookies cs) = erase_value (combine_cookies cs')"
    using erase_combine [of cs] erase_combine [of cs'] assms(2) by simp
  moreover have "cs = [] \<longleftrightarrow> cs' = []" using assms(2) by auto
  ultimately show ?thesis using assms(1) by (auto simp: with_cookies_def erase_header_def)
qed

lemma erase_fingerprint:
  assumes "map erase_header hs = map erase_header hs'"
  shows "header_lease_fingerprint x i sid c t hs = header_lease_fingerprint x i sid c t hs'"
proof -
  let ?g = "\<lambda>h. (mh_normalized_name h, length (mh_value h))"
  have e: "map ?g (map erase_header hs) = map ?g hs" for hs by (simp add: erase_header_def)
  have "map ?g hs = map ?g hs'" using e [of hs] e [of hs'] assms by simp
  then show ?thesis by (simp add: header_lease_fingerprint_def)
qed

lemma erase_collected_cases:
  assumes "erase_collected a = erase_collected b"
  obtains (error) err where "a = Inl err" "b = Inl err"
  | (ok) hs cs hs' cs' where "a = Inr (hs, cs)" "b = Inr (hs', cs')" "map erase_header hs = map erase_header hs'"
      "map erase_cookie cs = map erase_cookie cs'"
  using assms by (cases a; cases b) (auto simp: erase_collected_def)

text \<open>A call on the erased vault: the vault afterwards is the erased one, and the reply looks the same.\<close>

definition erase_result :: "secret_vault \<times> vault_reply \<Rightarrow> secret_vault \<times> vault_reply" where
  "erase_result p = (erase_vault (fst p), erase_reply (snd p))"

lemma erase_vault_idem [simp]: "erase_vault (erase_vault v) = erase_vault v"
  by (simp add: erase_vault_def case_prod_unfold comp_def erase_entry_def)

lemma erase_materialize:
  "map_run erase_result (vault_do x (VMaterialize lease sid target now) (erase_vault v))
     = map_run erase_result (vault_do x (VMaterialize lease sid target now) v)"
proof -
  let ?l = "lease\<lparr>sle_consumed := True\<rparr>"
  have c: "check_lease (erase_vault v) ?l now = check_lease v ?l now" by (simp add: check_lease_def)
  consider (early) "isl (bind_r (validate_vault_identifier sid ''session_id'') (\<lambda>_. validate_request_target target))"
      | (used) "\<not> isl (bind_r (validate_vault_identifier sid ''session_id'') (\<lambda>_. validate_request_target target))" "sle_consumed lease"
      | (bad) e where "check_lease v ?l now = Inl e"
      | (go) s where "\<not> isl (bind_r (validate_vault_identifier sid ''session_id'') (\<lambda>_. validate_request_target target))"
          "\<not> sle_consumed lease" "check_lease v ?l now = Inr s"
    by (cases "check_lease v ?l now") auto
  then show ?thesis
  proof cases
    case (go s)
    define w where "w = v\<lparr>iv_leases := AList.map_entry (sle_lease_id lease) (\<lambda>s. s\<lparr>ls_consumed := True\<rparr>) (iv_leases v)\<rparr>"
    have w: "(erase_vault v)\<lparr>iv_leases := AList.map_entry (sle_lease_id lease) (\<lambda>s. s\<lparr>ls_consumed := True\<rparr>) (iv_leases v)\<rparr> = erase_vault w"
      by (simp add: w_def)
    have "erase_collected (collect_secrets (erase_vault v) (ls_context s) target now (ls_handles s) [] [])
        = erase_collected (collect_secrets v (ls_context s) target now (ls_handles s) [] [])"
      by (rule erase_collect) simp_all
    then show ?thesis
    proof (cases rule: erase_collected_cases)
      case (error err)
      then show ?thesis using go
        by (auto simp: materialize_http_headers_def c erase_result_def split: sum.split)
    next
      case (ok hs cs hs' cs')
      have e: "map erase_header (with_cookies hs cs) = map erase_header (with_cookies hs' cs')"
        by (rule erase_with_cookies [OF ok(3,4)])
      then have n: "length (with_cookies hs cs) = length (with_cookies hs' cs')" by (rule map_eq_imp_length_eq)
      show ?thesis using go ok(1,2) e
        by (auto simp: materialize_http_headers_def c Let_def w w_def [symmetric] erase_fingerprint [OF e] n erase_record
            erase_result_def split: sum.split run.split prod.split)
    qed
  qed (auto simp: materialize_http_headers_def c erase_result_def Let_def split: sum.split)
qed

lemma erase_do:
  "map_run erase_result (vault_do x (erase_call c) (erase_vault v)) = map_run erase_result (vault_do x c v)"
proof (cases c)
  case (VMaterialize lease sid target now)
  then show ?thesis using erase_materialize by simp
qed (auto simp: erase_result_def erase_insert erase_lease erase_revoke_secret erase_revoke_lease erase_purge map_prod_def
      split: prod.split)

definition erase_run :: "(secret_vault \<times> vault_reply list) run \<Rightarrow> (secret_vault \<times> vault_reply list) run" where
  "erase_run = map_run (map_prod erase_vault (map erase_reply))"

lemma erase_run_eq:
  "erase_vault v = erase_vault w \<Longrightarrow> map erase_call cs = map erase_call ds \<Longrightarrow>
     erase_run (vault_run x cs v) = erase_run (vault_run x ds w)"
proof (induction cs arbitrary: ds v w)
  case Nil
  then show ?case by (simp add: erase_run_def)
next
  case (Cons c cs)
  then obtain d ds1 where d: "ds = d # ds1" "erase_call c = erase_call d" "map erase_call cs = map erase_call ds1"
    by (cases ds) auto
  have eq: "map_run erase_result (vault_do x c v) = map_run erase_result (vault_do x d w)"
    using erase_do [of x c v] erase_do [of x d w] d(2) Cons.prems(1) by simp
  show ?case
  proof (cases "vault_do x c v")
    case Panic
    then show ?thesis using eq by (cases "vault_do x d w") (auto simp: erase_run_def d(1))
  next
    case (Ret p)
    obtain v1 r where p: "p = (v1, r)" by fastforce
    obtain w1 q where q: "vault_do x d w = Ret (w1, q)" "erase_vault v1 = erase_vault w1" "erase_reply r = erase_reply q"
      using eq Ret p by (cases "vault_do x d w") (auto simp: erase_result_def)
    have "erase_run (vault_run x cs v1) = erase_run (vault_run x ds1 w1)"
      by (rule Cons.IH [OF q(2) d(3)])
    then show ?thesis using q(3)
      by (cases "vault_run x cs v1"; cases "vault_run x ds1 w1") (auto simp: erase_run_def d(1) Ret p q(1))
  qed
qed

text \<open>
  C37: The audit trail and the replies reveal of a secret only its length and whether it is a legal field
  value. Replace the secrets in any history of a vault by others of the same lengths: the audit
  chains are equal, and the replies differ only in the values of the headers handed out.
\<close>

theorem audit_reveals_no_secret:
  assumes "map erase_call cs = map erase_call ds" "vault_run x cs v = Ret (v1, rs)"
  shows "\<exists>v2 ss. vault_run x ds v = Ret (v2, ss) \<and> iv_audit v2 = iv_audit v1 \<and> map erase_reply ss = map erase_reply rs"
proof -
  have "erase_run (vault_run x cs v) = erase_run (vault_run x ds v)" by (rule erase_run_eq [OF refl assms(1)])
  then obtain v2 ss where "vault_run x ds v = Ret (v2, ss)" "erase_vault v1 = erase_vault v2" "map erase_reply rs = map erase_reply ss"
    using assms(2) by (cases "vault_run x ds v") (auto simp: erase_run_def)
  then show ?thesis by (metis erase_vault_fields(3))
qed

section \<open>Witnesses\<close>

definition sample_vault_ext :: vault_ext where
  "sample_vault_ext = \<lparr>vx_sha256 = \<lambda>_. [], ser_vault = \<lambda>_. Inr [], ser_lease_fingerprint = \<lambda>_. Inr []\<rparr>"

definition sample_secret_input :: "string \<Rightarrow> secret_input" where
  "sample_secret_input value =
     \<lparr>si_kind = BearerToken, si_value = value,
      si_binding = \<lparr>sb_run_id = ''r'', sb_worker_id = ''w'', sb_account_id = ''a'', sb_tenant_id = ''t'', sb_role_id = ''o'',
        sb_allowed_hosts = {|''h''|}, sb_allowed_schemes = {|''https''|}\<rparr>,
      si_delivery = DeliverHeader ''A'' ''B '', si_expires_at = None\<rparr>"

definition sample_context :: vault_context where
  "sample_context =
     \<lparr>vc_run_id = ''r'', vc_worker_id = ''w'', vc_account_id = ''a'', vc_tenant_id = ''t'', vc_role_id = ''o'',
      vc_authority = ''h'', vc_scheme = ''https''\<rparr>"

definition sample_lease :: secret_lease where
  "sample_lease = \<lparr>sle_lease_id = ''v-lease-00000000000000000001'', sle_context = sample_context,
     sle_expires_at = 31, sle_consumed = False\<rparr>"

definition vault_sample_calls :: "string \<Rightarrow> vault_call list" where
  "vault_sample_calls value = [VInsert (sample_secret_input value) 0,
     VLease [''v-secret-00000000000000000001''] sample_context 30 1, VMaterialize sample_lease ''s'' ''/'' 2,
     VMaterialize sample_lease ''s'' ''/'' 2]"

definition sample_vault :: secret_vault where
  "sample_vault = \<lparr>iv_vault_id = ''v'', iv_entries = [], iv_leases = [], iv_next_secret_id = 1, iv_next_lease_id = 1,
     iv_audit = vault_audit_new sample_vault_ext ''v''\<rparr>"

lemma sample_vault_eval:
  "(case vault_run sample_vault_ext (vault_sample_calls ''k'') sample_vault of
      Ret (v, rs) \<Rightarrow> length rs = 4 \<and> concat (map materialized rs) = [''v-lease-00000000000000000001''] | Panic \<Rightarrow> False)"
  by code_simp

lemma sample_vault_ran:
  obtains v rs where "vault_run sample_vault_ext (vault_sample_calls ''k'') sample_vault = Ret (v, rs)" "length rs = 4"
  using sample_vault_eval by (auto split: run.split_asm simp del: vault_run.simps)

lemma sample_vault_new: "vault_new sample_vault_ext ''v'' = Inr sample_vault"
  by code_simp

theorem lease_materialised_once_witness:
  "\<exists>v rs. vault_run sample_vault_ext (vault_sample_calls ''k'') sample_vault = Ret (v, rs) \<and> length rs = 4
     \<and> distinct (concat (map materialized rs))"
proof -
  obtain v rs where r: "vault_run sample_vault_ext (vault_sample_calls ''k'') sample_vault = Ret (v, rs)" "length rs = 4"
    by (rule sample_vault_ran)
  have "length (vault_sample_calls ''k'') < 2 ^ 64 - 1" by (simp add: vault_sample_calls_def)
  from lease_materialised_once [OF sample_vault_new r(1) this] show ?thesis using r by auto
qed

theorem audit_reveals_no_secret_witness:
  "\<exists>v1 rs v2 ss. vault_run sample_vault_ext (vault_sample_calls ''k'') sample_vault = Ret (v1, rs)
     \<and> vault_run sample_vault_ext (vault_sample_calls ''q'') sample_vault = Ret (v2, ss) \<and> iv_audit v2 = iv_audit v1"
proof -
  obtain v rs where r: "vault_run sample_vault_ext (vault_sample_calls ''k'') sample_vault = Ret (v, rs)" "length rs = 4"
    by (rule sample_vault_ran)
  have "map erase_call (vault_sample_calls ''k'') = map erase_call (vault_sample_calls ''q'')"
    by (simp add: vault_sample_calls_def sample_secret_input_def erase_value_def erase_byte_def is_field_byte_def byte_def)
  from audit_reveals_no_secret [OF this r(1)] show ?thesis using r by blast
qed

definition sample_leased_vault :: secret_vault where
  "sample_leased_vault = (case vault_run sample_vault_ext (take 2 (vault_sample_calls ''k'')) sample_vault of
     Ret (v, _) \<Rightarrow> v | Panic \<Rightarrow> sample_vault)"

lemma sample_materialized_eval:
  "(case materialize_http_headers sample_vault_ext sample_leased_vault sample_lease ''s'' ''/'' 2 of
      Ret (_, _, Inr hl) \<Rightarrow> True | _ \<Rightarrow> False)"
  by code_simp

theorem secrets_released_to_bound_context_witness:
  "\<exists>v l hl. materialize_http_headers sample_vault_ext sample_leased_vault sample_lease ''s'' ''/'' 2 = Ret (v, l, Inr hl)
     \<and> sle_consumed l"
proof -
  obtain v l hl where m: "materialize_http_headers sample_vault_ext sample_leased_vault sample_lease ''s'' ''/'' 2 = Ret (v, l, Inr hl)"
    using sample_materialized_eval by (auto split: run.split_asm prod.split_asm sum.split_asm)
  show ?thesis using secrets_released_to_bound_context [OF m] m by blast
qed

lemma sample_revoked_eval:
  "(case revoke_secret sample_vault_ext sample_leased_vault ''v-secret-00000000000000000001'' of
      (v, Inr _) \<Rightarrow> (case map_of (iv_leases v) (sle_lease_id sample_lease) of
         Some s \<Rightarrow> ''v-secret-00000000000000000001'' \<in> set (ls_handles s) | None \<Rightarrow> False) | _ \<Rightarrow> False)
   \<and> iv_next_lease_id sample_leased_vault = 2 \<and> iv_next_secret_id sample_leased_vault = 2"
  by code_simp

lemma sample_leased_inv: "vault_inv sample_vault_ext sample_leased_vault"
proof -
  have "(case vault_run sample_vault_ext (take 2 (vault_sample_calls ''k'')) sample_vault of Ret _ \<Rightarrow> True | Panic \<Rightarrow> False)"
    by code_simp
  then obtain v rs where r: "vault_run sample_vault_ext (take 2 (vault_sample_calls ''k'')) sample_vault = Ret (v, rs)"
    by (auto split: run.split_asm simp del: vault_run.simps)
  have "vault_inv sample_vault_ext sample_vault" "iv_next_lease_id sample_vault = 1" "iv_next_secret_id sample_vault = 1"
    using vault_new_inv [OF sample_vault_new] by simp_all
  then have "vault_inv sample_vault_ext v" using vault_run_facts [OF _ r] by (simp add: vault_sample_calls_def)
  then show ?thesis using r by (simp add: sample_leased_vault_def)
qed

theorem revoked_secret_is_gone_witness:
  "\<exists>v1. revoke_secret sample_vault_ext sample_leased_vault ''v-secret-00000000000000000001'' = (v1, Inr ())
     \<and> (\<forall>w l hl. materialize_http_headers sample_vault_ext v1 sample_lease ''s'' ''/'' 2 \<noteq> Ret (w, l, Inr hl))"
proof -
  obtain v1 s where v1: "revoke_secret sample_vault_ext sample_leased_vault ''v-secret-00000000000000000001'' = (v1, Inr ())"
    "map_of (iv_leases v1) (sle_lease_id sample_lease) = Some s" "''v-secret-00000000000000000001'' \<in> set (ls_handles s)"
    and n: "iv_next_lease_id sample_leased_vault = 2" "iv_next_secret_id sample_leased_vault = 2"
    using sample_revoked_eval by (auto split: prod.split_asm sum.split_asm option.split_asm)
  have "materialize_http_headers sample_vault_ext v1 sample_lease ''s'' ''/'' 2 \<noteq> Ret (w, l, Inr hl)" for w l hl
    by (rule revoked_secret_is_gone [OF sample_leased_inv v1(1) vault_run.simps(1) _ _ v1(2,3)]) (simp_all add: n)
  then show ?thesis using v1(1) by blast
qed

end
