(* ===== verification/Http1_Parser.thy ===== *)
theory Http1_Parser
  imports Stream Vault
begin

text \<open>
  The crate \<open>nxb-http1\<close>, its data (\<open>model.rs\<close>) and its response parser (\<open>parser.rs\<close>). The parser is
  called again with a longer prefix of the response each time bytes arrive; it returns a response
  with the number of bytes it spans, that more bytes are needed, or an error.
\<close>

section \<open>Data\<close>

definition MAX_HTTP_HEADER_BYTES :: u64 where
  "MAX_HTTP_HEADER_BYTES = 256 * 1024"

definition MAX_HTTP_HEADERS :: u64 where
  "MAX_HTTP_HEADERS = 512"

definition MAX_HTTP_BODY_BYTES :: u64 where
  "MAX_HTTP_BODY_BYTES = 64 * 1024 * 1024"

definition MAX_HTTP_CHUNKS :: u64 where
  "MAX_HTTP_CHUNKS = 65536"

definition MAX_HTTP_TRAILER_BYTES :: u64 where
  "MAX_HTTP_TRAILER_BYTES = 64 * 1024"

definition MAX_HTTP_INTERIM_RESPONSES :: u64 where
  "MAX_HTTP_INTERIM_RESPONSES = 32"

definition MAX_HTTP_OPERATION_BYTES :: u64 where
  "MAX_HTTP_OPERATION_BYTES = 64 * 1024"

definition MAX_HTTP_BACKPRESSURE_EVENTS :: u64 where
  "MAX_HTTP_BACKPRESSURE_EVENTS = 1024"

definition MAX_HTTP_WIRE_BYTES :: u64 where
  "MAX_HTTP_WIRE_BYTES = 96 * 1024 * 1024"

record http1_limits =
  hm_request_header_bytes :: u64
  hm_response_header_bytes :: u64
  hm_header_count :: u64
  hm_header_name_bytes :: u64
  hm_header_value_bytes :: u64
  hm_request_body_bytes :: u64
  hm_response_body_bytes :: u64
  hm_chunk_bytes :: u64
  hm_chunk_count :: u64
  hm_trailer_bytes :: u64
  hm_trailer_count :: u64
  hm_interim_responses :: u64
  hm_io_operation_bytes :: u64
  hm_backpressure_events :: u64
  hm_response_wire_bytes :: u64

record http1_header =
  hh_name :: string
  hh_value :: string

record http1_request =
  hq_method :: string
  hq_target :: string
  hq_headers :: "http1_header list"
  hq_body :: string

datatype http1_version = Http10 | Http11

fun http1_version_code :: "http1_version \<Rightarrow> string" where
  "http1_version_code Http10 = ''http_1_0''"
| "http1_version_code Http11 = ''http_1_1''"

datatype http1_framing = NoBody | ContentLength u64 | Chunked | ConnectionClose

fun http1_framing_code :: "http1_framing \<Rightarrow> string" where
  "http1_framing_code NoBody = ''no_body''"
| "http1_framing_code (ContentLength _) = ''content_length''"
| "http1_framing_code Chunked = ''chunked''"
| "http1_framing_code ConnectionClose = ''connection_close''"

record http1_response =
  hr_version :: http1_version
  hr_status_code :: u16
  hr_reason :: string
  hr_headers :: "http1_header list"
  hr_trailers :: "http1_header list"
  hr_body :: string
  hr_framing :: http1_framing
  hr_interim_responses :: u64

datatype http1_audit_error = InvalidGenesisHash | Http1Chain chain_error

datatype http1_error =
  InvalidHttpLimits string
| InvalidRequest string
| InvalidResponse string
| TruncatedResponse string
| HttpStream stream_error
| HttpStreamState stream_state
| HttpStreamOutcome stream_outcome
| BackpressureBudgetExceeded
| ExchangeAlreadyCompleted
| SecretHeaders vault_error
| HttpAudit http1_audit_error
| HttpStreamAudit chain_error

section \<open>Limits\<close>

definition http1_conservative_default :: http1_limits where
  "http1_conservative_default =
     \<lparr>hm_request_header_bytes = 32 * 1024, hm_response_header_bytes = 64 * 1024, hm_header_count = 128,
      hm_header_name_bytes = 128, hm_header_value_bytes = 8 * 1024, hm_request_body_bytes = 2 * 1024 * 1024,
      hm_response_body_bytes = 8 * 1024 * 1024, hm_chunk_bytes = 1024 * 1024, hm_chunk_count = 4096,
      hm_trailer_bytes = 16 * 1024, hm_trailer_count = 32, hm_interim_responses = 8,
      hm_io_operation_bytes = 16 * 1024, hm_backpressure_events = 32, hm_response_wire_bytes = 16 * 1024 * 1024\<rparr>"

definition validate_nonzero_cap :: "u64 \<Rightarrow> u64 \<Rightarrow> string \<Rightarrow> http1_error + unit" where
  "validate_nonzero_cap value cap name =
     (if value = 0 \<or> value > cap then Inl (InvalidHttpLimits (name @ '' is outside the supported range'')) else Inr ())"

definition validate_http1_limits :: "http1_limits \<Rightarrow> http1_error + http1_limits" where
  "validate_http1_limits l =
     bind_r (validate_nonzero_cap (hm_request_header_bytes l) MAX_HTTP_HEADER_BYTES ''request_header_bytes'') (\<lambda>_.
     bind_r (validate_nonzero_cap (hm_response_header_bytes l) MAX_HTTP_HEADER_BYTES ''response_header_bytes'') (\<lambda>_.
     bind_r (validate_nonzero_cap (hm_header_count l) MAX_HTTP_HEADERS ''header_count'') (\<lambda>_.
     bind_r (validate_nonzero_cap (hm_header_name_bytes l) 1024 ''header_name_bytes'') (\<lambda>_.
     bind_r (validate_nonzero_cap (hm_header_value_bytes l) MAX_HTTP_HEADER_BYTES ''header_value_bytes'') (\<lambda>_.
     bind_r (validate_nonzero_cap (hm_request_body_bytes l) MAX_HTTP_BODY_BYTES ''request_body_bytes'') (\<lambda>_.
     bind_r (validate_nonzero_cap (hm_response_body_bytes l) MAX_HTTP_BODY_BYTES ''response_body_bytes'') (\<lambda>_.
     bind_r (validate_nonzero_cap (hm_chunk_bytes l) (hm_response_body_bytes l) ''chunk_bytes'') (\<lambda>_.
     bind_r (validate_nonzero_cap (hm_chunk_count l) MAX_HTTP_CHUNKS ''chunk_count'') (\<lambda>_.
     bind_r (validate_nonzero_cap (hm_trailer_bytes l) MAX_HTTP_TRAILER_BYTES ''trailer_bytes'') (\<lambda>_.
     bind_r (validate_nonzero_cap (hm_trailer_count l) (hm_header_count l) ''trailer_count'') (\<lambda>_.
     bind_r (validate_nonzero_cap (hm_interim_responses l) MAX_HTTP_INTERIM_RESPONSES ''interim_responses'') (\<lambda>_.
     bind_r (validate_nonzero_cap (hm_io_operation_bytes l) MAX_HTTP_OPERATION_BYTES ''io_operation_bytes'') (\<lambda>_.
     bind_r (validate_nonzero_cap (hm_backpressure_events l) MAX_HTTP_BACKPRESSURE_EVENTS ''backpressure_events'') (\<lambda>_.
     bind_r (validate_nonzero_cap (hm_response_wire_bytes l) MAX_HTTP_WIRE_BYTES ''response_wire_bytes'') (\<lambda>_.
     if hm_response_wire_bytes l < hm_response_body_bytes l then
       Inl (InvalidHttpLimits ''response wire budget must cover response body budget'')
     else Inr l)))))))))))))))"

section \<open>Bytes\<close>

text \<open>The first position of a byte; the first CRLF; the end of the first empty line.\<close>

fun position :: "char \<Rightarrow> string \<Rightarrow> nat option" where
  "position d [] = None"
| "position d (c # s) = (if c = d then Some 0 else map_option Suc (position d s))"

fun find_crlf :: "string \<Rightarrow> nat option" where
  "find_crlf (a # b # s) = (if [a, b] = crlf then Some 0 else map_option Suc (find_crlf (b # s)))"
| "find_crlf _ = None"

fun find_four :: "string \<Rightarrow> nat option" where
  "find_four (a # b # c # d # s) =
     (if [a, b, c, d] = crlf @ crlf then Some 0 else map_option Suc (find_four (b # c # d # s)))"
| "find_four _ = None"

definition find_double_crlf :: "string \<Rightarrow> nat option" where
  "find_double_crlf bytes = map_option (\<lambda>index. index + 4) (find_four bytes)"

text \<open>\<open>validate_crlf_block\<close>, with the byte before the current one.\<close>

fun check_crlf :: "char option \<Rightarrow> string \<Rightarrow> http1_error + unit" where
  "check_crlf previous [] = Inr ()"
| "check_crlf previous (c # s) =
     (if c = CHR 0x0A \<and> previous \<noteq> Some (CHR 0x0D) then Inl (InvalidResponse ''bare LF is prohibited'')
      else if c = CHR 0x0D \<and> (s = [] \<or> hd s \<noteq> CHR 0x0A) then Inl (InvalidResponse ''bare CR is prohibited'')
      else check_crlf (Some c) s)"

definition validate_crlf_block :: "string \<Rightarrow> http1_error + unit" where
  "validate_crlf_block bytes = check_crlf None bytes"

lemma find_crlf_bound: "find_crlf s = Some i \<Longrightarrow> i + 2 \<le> length s"
  by (induction s arbitrary: i rule: find_crlf.induct) (auto split: if_split_asm)

function split_crlf :: "string \<Rightarrow> string list" where
  "split_crlf bytes =
     (case find_crlf bytes of
        Some index \<Rightarrow> take index bytes # split_crlf (drop (index + 2) bytes)
      | None \<Rightarrow> [bytes])"
  by pat_completeness auto
termination
  by (relation "measure length") (auto dest: find_crlf_bound)

declare split_crlf.simps [simp del]

definition is_ows :: "char \<Rightarrow> bool" where
  "is_ows c \<longleftrightarrow> c = CHR '' '' \<or> c = CHR 0x09"

definition trim_ows :: "string \<Rightarrow> string" where
  "trim_ows value = rev (dropWhile is_ows (rev (dropWhile is_ows value)))"

definition validate_field_value :: "string \<Rightarrow> http1_error + unit" where
  "validate_field_value value =
     (if \<not> list_all is_field_byte value then Inl (InvalidResponse ''header value contains prohibited control bytes'')
      else Inr ())"

definition validate_reason_phrase :: "string \<Rightarrow> http1_error + unit" where
  "validate_reason_phrase value =
     (if \<not> list_all is_field_byte value then Inl (InvalidResponse ''reason phrase contains prohibited control bytes'')
      else Inr ())"

definition is_prohibited_trailer :: "string \<Rightarrow> bool" where
  "is_prohibited_trailer name \<longleftrightarrow>
     name \<in> set [''content-length'', ''transfer-encoding'', ''host'', ''connection'', ''trailer'', ''upgrade'',
       ''proxy-connection'']"

text \<open>\<open>str::from_utf8\<close>: the well-formed sequences of one to four bytes.\<close>

definition is_continuation :: "char \<Rightarrow> bool" where
  "is_continuation c \<longleftrightarrow> 128 \<le> byte c \<and> byte c \<le> 191"

definition utf8_pair :: "nat \<Rightarrow> nat \<Rightarrow> bool" where
  "utf8_pair a b \<longleftrightarrow>
     (if a = 224 then 160 \<le> b \<and> b \<le> 191 else if a = 237 then 128 \<le> b \<and> b \<le> 159
      else if a = 240 then 144 \<le> b \<and> b \<le> 191 else if a = 244 then 128 \<le> b \<and> b \<le> 143
      else 128 \<le> b \<and> b \<le> 191)"

fun valid_utf8 :: "string \<Rightarrow> bool" where
  "valid_utf8 [] = True"
| "valid_utf8 (a # s) =
     (if byte a < 128 then valid_utf8 s
      else if 194 \<le> byte a \<and> byte a \<le> 223 then
        (case s of b # s' \<Rightarrow> is_continuation b \<and> valid_utf8 s' | _ \<Rightarrow> False)
      else if 224 \<le> byte a \<and> byte a \<le> 239 then
        (case s of b # c # s' \<Rightarrow> utf8_pair (byte a) (byte b) \<and> is_continuation c \<and> valid_utf8 s' | _ \<Rightarrow> False)
      else if 240 \<le> byte a \<and> byte a \<le> 244 then
        (case s of b # c # d # s' \<Rightarrow>
           utf8_pair (byte a) (byte b) \<and> is_continuation c \<and> is_continuation d \<and> valid_utf8 s' | _ \<Rightarrow> False)
      else False)"

section \<open>Lines\<close>

definition parse_status_line :: "string \<Rightarrow> http1_error + http1_version \<times> u16 \<times> string" where
  "parse_status_line line =
     (if CHR 0x09 \<in> set line then Inl (InvalidResponse ''status line contains horizontal tab'')
      else case position (CHR '' '') line of
        None \<Rightarrow> Inl (InvalidResponse ''status line is missing status code'')
      | Some first_space \<Rightarrow>
          bind_r (if take first_space line = ''HTTP/1.0'' then Inr Http10
                  else if take first_space line = ''HTTP/1.1'' then Inr Http11
                  else Inl (InvalidResponse ''unsupported or malformed HTTP version'')) (\<lambda>version.
          let remainder = drop (first_space + 1) line in
          if length remainder < 3 \<or> \<not> list_all is_ascii_digit (take 3 remainder) then
            Inl (InvalidResponse ''status code must contain exactly three digits'')
          else if length remainder > 3 \<and> remainder ! 3 \<noteq> CHR '' '' then
            Inl (InvalidResponse ''status code must be followed by a single space'')
          else
            let status_code = of_nat (digit_value (remainder ! 0)) * 100 + of_nat (digit_value (remainder ! 1)) * 10
                  + of_nat (digit_value (remainder ! 2)) in
            if status_code < 100 \<or> status_code > 999 then
              Inl (InvalidResponse ''status code is outside the supported range'')
            else if length remainder > 3 then
              let value = drop 4 remainder in
              bind_r (validate_reason_phrase value) (\<lambda>_. Inr (version, status_code, value))
            else Inr (version, status_code, [])))"

definition parse_header_line :: "http1_limits \<Rightarrow> bool \<Rightarrow> string \<Rightarrow> http1_error + http1_header" where
  "parse_header_line l trailers line =
     (if line = [] then Inl (InvalidResponse ''unexpected empty header line'')
      else if is_ows (hd line) then Inl (InvalidResponse ''obsolete folded headers are prohibited'')
      else case position (CHR '':'') line of
        None \<Rightarrow> Inl (InvalidResponse ''header is missing colon'')
      | Some colon \<Rightarrow>
          if colon = 0 then Inl (InvalidResponse ''header name is empty'')
          else
            let name = take colon line in
            if length name > unat (hm_header_name_bytes l) then
              Inl (InvalidResponse ''header name exceeds configured limit'')
            else if \<not> list_all is_token_byte name then
              Inl (InvalidResponse ''header name contains invalid bytes or whitespace before colon'')
            else
              let name = to_ascii_lowercase name in
              if trailers \<and> is_prohibited_trailer name then
                Inl (InvalidResponse (''prohibited trailer field: '' @ name))
              else
                let value = trim_ows (drop (colon + 1) line) in
                if length value > unat (hm_header_value_bytes l) then
                  Inl (InvalidResponse ''header value exceeds configured limit'')
                else bind_r (validate_field_value value) (\<lambda>_. Inr \<lparr>hh_name = name, hh_value = value\<rparr>))"

definition parse_header_lines :: "string list \<Rightarrow> http1_limits \<Rightarrow> bool \<Rightarrow> http1_error + http1_header list" where
  "parse_header_lines lines l trailers =
     (if length lines > unat (if trailers then hm_trailer_count l else hm_header_count l) then
        Inl (InvalidResponse (if trailers then ''trailer count exceeds configured limit''
                              else ''header count exceeds configured limit''))
      else collect_r (map (parse_header_line l trailers) lines))"

section \<open>Framing\<close>

definition header_values :: "string \<Rightarrow> http1_header list \<Rightarrow> string list" where
  "header_values name headers = map hh_value (filter (\<lambda>h. hh_name h = name) headers)"

text \<open>\<open>trim_matches([' ', '\t'])\<close> is the loop of \<open>trim_ows\<close>.\<close>

definition parse_length_component :: "string \<Rightarrow> http1_error + u64" where
  "parse_length_component component =
     (let component = trim_ows component in
      if component = [] \<or> \<not> list_all is_ascii_digit component then
        Inl (InvalidResponse ''Content-Length contains a non-decimal value'')
      else ok_or (parse_u64 component) (InvalidResponse ''Content-Length integer overflow''))"

definition parse_content_length :: "http1_header list \<Rightarrow> http1_error + u64 option" where
  "parse_content_length headers =
     bind_r (collect_r (map (\<lambda>value.
         if \<not> valid_utf8 value then Inl (InvalidResponse ''Content-Length must contain ASCII digits'')
         else collect_r (map parse_length_component (split_on (CHR '','') value)))
       (header_values ''content-length'' headers))) (\<lambda>vss.
     case concat vss of
       [] \<Rightarrow> Inr None
     | first # values \<Rightarrow>
         if list_ex (\<lambda>v. v \<noteq> first) (first # values) then Inl (InvalidResponse ''conflicting Content-Length values'')
         else Inr (Some first))"

definition parse_coding_component :: "string \<Rightarrow> http1_error + string" where
  "parse_coding_component component =
     (let token = to_ascii_lowercase (trim_ows component) in
      if token = [] \<or> \<not> list_all is_token_byte token then
        Inl (InvalidResponse ''Transfer-Encoding contains an invalid token'')
      else Inr token)"

definition parse_transfer_encoding :: "http1_header list \<Rightarrow> http1_error + bool" where
  "parse_transfer_encoding headers =
     bind_r (collect_r (map (\<lambda>value.
         if \<not> valid_utf8 value then Inl (InvalidResponse ''Transfer-Encoding must be ASCII'')
         else collect_r (map parse_coding_component (split_on (CHR '','') value)))
       (header_values ''transfer-encoding'' headers))) (\<lambda>tss.
     let tokens = concat tss in
     if tokens = [] then Inr False
     else if length tokens \<noteq> 1 \<or> hd tokens \<noteq> ''chunked'' then
       Inl (InvalidResponse ''only one final chunked transfer coding is supported'')
     else Inr True)"

definition bodyless :: "string \<Rightarrow> u16 \<Rightarrow> bool" where
  "bodyless request_method status_code \<longleftrightarrow>
     to_ascii_lowercase request_method = ''head'' \<or> (100 \<le> status_code \<and> status_code < 200)
     \<or> status_code = 204 \<or> status_code = 304"

definition determine_framing ::
  "string \<Rightarrow> http1_version \<Rightarrow> u16 \<Rightarrow> http1_header list \<Rightarrow> http1_error + http1_framing" where
  "determine_framing request_method version status_code headers =
     (if bodyless request_method status_code then Inr NoBody
      else
        bind_r (parse_content_length headers) (\<lambda>content_length.
        bind_r (parse_transfer_encoding headers) (\<lambda>transfer_encoding.
        if content_length \<noteq> None \<and> transfer_encoding then
          Inl (InvalidResponse ''Transfer-Encoding and Content-Length cannot coexist'')
        else if transfer_encoding then
          (if version \<noteq> Http11 then Inl (InvalidResponse ''chunked transfer coding requires HTTP/1.1'')
           else Inr Chunked)
        else
          (case content_length of Some n \<Rightarrow> Inr (ContentLength n) | None \<Rightarrow> Inr ConnectionClose))))"

section \<open>Chunked bodies\<close>

record parsed_body =
  pb_body :: string
  pb_trailers :: "http1_header list"
  pb_consumed :: nat

text \<open>\<open>usize\<close> arithmetic: \<open>checked_add\<close> fails at \<open>2^64\<close>.\<close>

definition checked_add_usize :: "nat \<Rightarrow> nat \<Rightarrow> nat option" where
  "checked_add_usize a b = (if a + b < 2 ^ 64 then Some (a + b) else None)"

definition parse_hex_u64 :: "string \<Rightarrow> u64 option" where
  "parse_hex_u64 s = (if read_hex s < 2 ^ 64 then Some (of_nat (read_hex s)) else None)"

text \<open>What follows the zero chunk; \<open>rest\<close> are the bytes from \<open>cursor\<close> on.\<close>

definition parse_chunk_end ::
  "http1_limits \<Rightarrow> bool \<Rightarrow> string \<Rightarrow> nat \<Rightarrow> string \<Rightarrow> http1_error + parsed_body option" where
  "parse_chunk_end l eof rest cursor decoded =
     (if length rest < 2 then
        (if eof then Inl (TruncatedResponse ''zero chunk was not followed by a trailer terminator'') else Inr None)
      else if take 2 rest = crlf then
        Inr (Some \<lparr>pb_body = decoded, pb_trailers = [], pb_consumed = cursor + 2\<rparr>)
      else case find_double_crlf rest of
        None \<Rightarrow>
          if length rest > unat (hm_trailer_bytes l) then Inl (InvalidResponse ''trailer block exceeds configured limit'')
          else if eof then Inl (TruncatedResponse ''trailer block ended before CRLFCRLF'')
          else Inr None
      | Some trailer_end \<Rightarrow>
          let trailer_block = take trailer_end rest in
          if length trailer_block > unat (hm_trailer_bytes l) then
            Inl (InvalidResponse ''trailer block exceeds configured limit'')
          else
            bind_r (validate_crlf_block trailer_block) (\<lambda>_.
            bind_r (parse_header_lines (split_crlf (take (length trailer_block - 4) trailer_block)) l True) (\<lambda>trailers.
            Inr (Some \<lparr>pb_body = decoded, pb_trailers = trailers, pb_consumed = cursor + trailer_end\<rparr>))))"

text \<open>The size on a chunk's line, and the checks of a chunk of that size; the result is its end.\<close>

definition parse_chunk_size :: "string \<Rightarrow> http1_error + u64" where
  "parse_chunk_size line =
     (if CHR '';'' \<in> set line then Inl (InvalidResponse ''chunk extensions are intentionally unsupported'')
      else if line = [] \<or> length line > 16 \<or> \<not> list_all is_ascii_hexdigit line then
        Inl (InvalidResponse ''chunk size must be 1-16 hexadecimal digits'')
      else if \<not> valid_utf8 line then Inl (InvalidResponse ''chunk size must be ASCII'')
      else ok_or (parse_hex_u64 line) (InvalidResponse ''chunk size overflow''))"

definition admit_chunk :: "http1_limits \<Rightarrow> nat \<Rightarrow> nat \<Rightarrow> u64 \<Rightarrow> u64 \<Rightarrow> http1_error + nat" where
  "admit_chunk l cursor decoded_len chunks chunk_size =
     (if chunks > hm_chunk_count l then Inl (InvalidResponse ''chunk count exceeds configured limit'')
      else if chunk_size > hm_chunk_bytes l then Inl (InvalidResponse ''chunk size exceeds configured limit'')
      else if saturating_add (of_nat decoded_len) chunk_size > hm_response_body_bytes l then
        Inl (InvalidResponse ''decoded chunked body exceeds configured limit'')
      else
        bind_r (ok_or (checked_add_usize cursor (unat chunk_size)) (InvalidResponse ''chunk offset overflow'')) (\<lambda>chunk_end.
        bind_r (ok_or (checked_add_usize chunk_end 2) (InvalidResponse ''chunk suffix overflow'')) (\<lambda>_.
        Inr chunk_end)))"

function parse_chunks ::
  "http1_limits \<Rightarrow> bool \<Rightarrow> string \<Rightarrow> nat \<Rightarrow> string \<Rightarrow> u64 \<Rightarrow> http1_error + parsed_body option" where
  "parse_chunks l eof bytes cursor decoded chunks =
     (case find_crlf bytes of
        None \<Rightarrow>
          if length bytes > 128 then Inl (InvalidResponse ''chunk-size line exceeds 128 bytes'')
          else if eof then Inl (TruncatedResponse ''chunk-size line ended before CRLF'')
          else Inr None
      | Some line_end \<Rightarrow>
          (case parse_chunk_size (take line_end bytes) of
             Inl err \<Rightarrow> Inl err
           | Inr chunk_size \<Rightarrow>
               let rest = drop (line_end + 2) bytes; cursor = cursor + line_end + 2 in
               if chunk_size = 0 then parse_chunk_end l eof rest cursor decoded
               else
                 (case admit_chunk l cursor (length decoded) (saturating_add chunks 1) chunk_size of
                    Inl err \<Rightarrow> Inl err
                  | Inr chunk_end \<Rightarrow>
                      let size = unat chunk_size in
                      if length rest < size + 2 then
                        (if eof then Inl (TruncatedResponse ''chunk data ended before declared size or CRLF'')
                         else Inr None)
                      else if take 2 (drop size rest) \<noteq> crlf then
                        Inl (InvalidResponse ''chunk data is not followed by CRLF'')
                      else
                        parse_chunks l eof (drop (size + 2) rest) (chunk_end + 2) (decoded @ take size rest)
                          (saturating_add chunks 1))))"
  by pat_completeness auto
termination
  by (relation "measure (\<lambda>(l, eof, bytes, cursor, decoded, chunks). length bytes)") auto

declare parse_chunks.simps [simp del]

definition parse_chunked :: "string \<Rightarrow> bool \<Rightarrow> http1_limits \<Rightarrow> http1_error + parsed_body option" where
  "parse_chunked bytes eof l = parse_chunks l eof bytes 0 [] 0"

section \<open>Responses\<close>

datatype parse_progress = Incomplete | Complete http1_response nat

text \<open>The body of a final response; \<open>rest\<close> are the bytes after its head.\<close>

definition parse_body :: "http1_limits \<Rightarrow> bool \<Rightarrow> http1_framing \<Rightarrow> string \<Rightarrow> http1_error + parsed_body option" where
  "parse_body l eof framing rest =
     (case framing of
        NoBody \<Rightarrow> Inr (Some \<lparr>pb_body = [], pb_trailers = [], pb_consumed = 0\<rparr>)
      | ContentLength n \<Rightarrow>
          if n > hm_response_body_bytes l then Inl (InvalidResponse ''Content-Length exceeds configured body limit'')
          else if length rest < unat n then
            (if eof then Inl (TruncatedResponse (''Content-Length promised '' @ decimal (unat n)
                 @ '' bytes but only '' @ decimal (length rest) @ '' arrived''))
             else Inr None)
          else Inr (Some \<lparr>pb_body = take (unat n) rest, pb_trailers = [], pb_consumed = unat n\<rparr>)
      | Chunked \<Rightarrow> parse_chunked rest eof l
      | ConnectionClose \<Rightarrow>
          if \<not> eof then Inr None
          else if length rest > unat (hm_response_body_bytes l) then
            Inl (InvalidResponse ''connection-close body exceeds configured limit'')
          else Inr (Some \<lparr>pb_body = rest, pb_trailers = [], pb_consumed = length rest\<rparr>))"

text \<open>
  One turn of the loop up to the headers: nothing if more bytes are needed, else the end of the head
  with the status line and the headers. Offsets are bounded by the length of the input, so the
  source's checked additions of offsets do not fail.
\<close>

definition parse_head ::
  "http1_limits \<Rightarrow> bool \<Rightarrow> string \<Rightarrow> http1_error + (nat \<times> (http1_version \<times> u16 \<times> string) \<times> http1_header list) option" where
  "parse_head l eof bytes =
     (case find_double_crlf bytes of
        None \<Rightarrow>
          if length bytes > unat (hm_response_header_bytes l) then
            Inl (InvalidResponse ''response header block exceeds configured limit'')
          else if eof then Inl (TruncatedResponse ''response header block ended before CRLFCRLF'')
          else Inr None
      | Some head_end \<Rightarrow>
          let head = take head_end bytes in
          if length head > unat (hm_response_header_bytes l) then
            Inl (InvalidResponse ''response header block exceeds configured limit'')
          else
            bind_r (validate_crlf_block head) (\<lambda>_.
            let lines = split_crlf (take (length head - 4) head) in
            bind_r (parse_status_line (hd lines)) (\<lambda>status.
            bind_r (parse_header_lines (tl lines) l False) (\<lambda>headers.
            Inr (Some (head_end, status, headers))))))"

lemma find_four_bound: "find_four s = Some i \<Longrightarrow> i + 4 \<le> length s"
  by (induction s arbitrary: i rule: find_four.induct) (auto split: if_split_asm)

lemma find_double_crlf_bound: "find_double_crlf s = Some i \<Longrightarrow> 4 \<le> i \<and> i \<le> length s"
  by (auto simp: find_double_crlf_def dest: find_four_bound)

lemma parse_head_bound: "parse_head l eof s = Inr (Some (i, st, hs)) \<Longrightarrow> 4 \<le> i \<and> i \<le> length s"
  by (auto simp: parse_head_def Let_def bind_r_Inr dest: find_double_crlf_bound split: option.split_asm if_split_asm)

function parse_from ::
  "http1_limits \<Rightarrow> bool \<Rightarrow> string \<Rightarrow> string \<Rightarrow> nat \<Rightarrow> u64 \<Rightarrow> http1_error + parse_progress" where
  "parse_from l eof request_method bytes offset interim_responses =
     (case parse_head l eof bytes of
        Inl err \<Rightarrow> Inl err
      | Inr None \<Rightarrow> Inr Incomplete
      | Inr (Some (head_end, (version, status_code, reason), headers)) \<Rightarrow>
          let rest = drop head_end bytes; body_start = offset + head_end in
          if 100 \<le> status_code \<and> status_code < 200 then
            (if status_code = 101 then Inl (InvalidResponse ''protocol upgrades are not supported'')
             else
               let interim_responses = saturating_add interim_responses 1 in
               if interim_responses > hm_interim_responses l then
                 Inl (InvalidResponse ''interim response count exceeds configured limit'')
               else if rest = [] then
                 (if eof then Inl (TruncatedResponse ''stream ended after interim response'') else Inr Incomplete)
               else parse_from l eof request_method rest body_start interim_responses)
          else
            bind_r (determine_framing request_method version status_code headers) (\<lambda>framing.
            bind_r (parse_body l eof framing rest) (\<lambda>body.
            case body of
              None \<Rightarrow> Inr Incomplete
            | Some b \<Rightarrow>
                Inr (Complete
                  \<lparr>hr_version = version, hr_status_code = status_code, hr_reason = reason, hr_headers = headers,
                   hr_trailers = pb_trailers b, hr_body = pb_body b, hr_framing = framing,
                   hr_interim_responses = interim_responses\<rparr>
                  (body_start + pb_consumed b)))))"
  by pat_completeness auto
termination
  by (relation "measure (\<lambda>(l, eof, m, bytes, offset, n). length bytes)") (auto dest: parse_head_bound)

declare parse_from.simps [simp del]

definition parse_response :: "string \<Rightarrow> bool \<Rightarrow> string \<Rightarrow> http1_limits \<Rightarrow> http1_error + parse_progress" where
  "parse_response bytes eof request_method l = parse_from l eof request_method bytes 0 0"

section \<open>What the parser reads of its input\<close>

text \<open>A search that succeeds has looked no further than the end of what it found.\<close>

lemma find_crlf_local: "find_crlf s = Some i \<Longrightarrow> find_crlf (take (i + 2) s @ q) = Some i"
proof (induction s arbitrary: i rule: find_crlf.induct)
  case (1 a b s)
  show ?case
  proof (cases "[a, b] = crlf")
    case False
    then obtain j where j: "i = Suc j" "find_crlf (b # s) = Some j" using 1(2) by (auto split: if_split_asm)
    have "find_crlf (take (j + 2) (b # s) @ q) = Some j" using 1(1) False j(2) by blast
    then show ?thesis using False j(1) by (cases "take (j + 1) s @ q") auto
  qed (use 1(2) in \<open>auto simp: crlf_def\<close>)
qed auto

lemma find_four_local: "find_four s = Some i \<Longrightarrow> find_four (take (i + 4) s @ q) = Some i"
proof (induction s arbitrary: i rule: find_four.induct)
  case (1 a b c d s)
  show ?case
  proof (cases "[a, b, c, d] = crlf @ crlf")
    case False
    then obtain j where j: "i = Suc j" "find_four (b # c # d # s) = Some j" using 1(2) by (auto split: if_split_asm)
    have *: "find_four (take (j + 4) (b # c # d # s) @ q) = Some j" using 1(1) False j(2) by blast
    then show ?thesis using False j(1) by (auto simp: numeral_eq_Suc)
  qed (use 1(2) in \<open>auto simp: crlf_def\<close>)
qed auto

lemma find_double_crlf_local: "find_double_crlf s = Some i \<Longrightarrow> find_double_crlf (take i s @ q) = Some i"
  using find_four_local by (fastforce simp: find_double_crlf_def)

text \<open>A search that fails can succeed on a longer input only past the end of the shorter one.\<close>

lemma find_crlf_extend: "find_crlf s = None \<Longrightarrow> find_crlf (s @ q) = Some i \<Longrightarrow> length s < i + 2"
  using find_crlf_local [of "s @ q" i "drop (i + 2) s"] by (cases "length s < i + 2") auto

lemma find_double_crlf_extend: "find_double_crlf s = None \<Longrightarrow> find_double_crlf (s @ q) = Some i \<Longrightarrow> length s < i"
  using find_double_crlf_local [of "s @ q" i "drop i s"] by (cases "length s < i") auto

lemma find_crlf_append: "find_crlf s = Some i \<Longrightarrow> find_crlf (s @ q) = Some i"
  using find_crlf_local [of s i "drop (i + 2) s @ q"] by (simp flip: append_assoc)

lemma find_double_crlf_append: "find_double_crlf s = Some i \<Longrightarrow> find_double_crlf (s @ q) = Some i"
  using find_double_crlf_local [of s i "drop i s @ q"] by (simp flip: append_assoc)

lemma parse_head_local:
  assumes "parse_head l eof s = Inr (Some (i, x))"
  shows "parse_head l eof' (take i s @ q) = Inr (Some (i, x))"
proof -
  have "find_double_crlf s = Some i" using assms by (auto simp: parse_head_def Let_def bind_r_Inr split: option.split_asm if_split_asm)
  from this find_double_crlf_local [OF this] find_double_crlf_bound [OF this] show ?thesis
    using assms by (simp add: parse_head_def Let_def min_def)
qed

lemma parse_chunk_end_local:
  assumes "parse_chunk_end l eof s cursor decoded = Inr (Some b)"
  obtains k where "pb_consumed b = cursor + k" "k \<le> length s"
    "\<And>q eof'. parse_chunk_end l eof' (take k s @ q) cursor decoded = Inr (Some b)"
proof (cases "take 2 s = crlf")
  case True
  with assms have "length s \<ge> 2" "b = \<lparr>pb_body = decoded, pb_trailers = [], pb_consumed = cursor + 2\<rparr>"
    by (auto simp: parse_chunk_end_def split: if_split_asm)
  with True show ?thesis by (intro that [of 2]) (auto simp: parse_chunk_end_def crlf_def)
next
  case False
  with assms obtain k where k: "find_double_crlf s = Some k" "\<not> length s < 2"
    by (auto simp: parse_chunk_end_def Let_def split: if_split_asm option.split_asm)
  note b = find_double_crlf_bound [OF k(1)] find_double_crlf_local [OF k(1)]
  show ?thesis
  proof (rule that [of k])
    show "pb_consumed b = cursor + k"
      using assms k False by (auto simp: parse_chunk_end_def Let_def bind_r_Inr split: if_split_asm)
    show "parse_chunk_end l eof' (take k s @ q) cursor decoded = Inr (Some b)" for q eof'
      using assms k False b by (simp add: parse_chunk_end_def Let_def min_def cong: if_cong)
  qed (use b in simp)
qed

lemma parse_chunks_step:
  assumes "find_crlf s = Some i" "parse_chunk_size (take i s) = Inr n" "n \<noteq> 0"
    and "admit_chunk l (cursor + i + 2) (length decoded) (saturating_add chunks 1) n = Inr e"
    and "drop (i + 2) s = d @ crlf @ r" "length d = unat n"
  shows "parse_chunks l eof s cursor decoded chunks = parse_chunks l eof r (e + 2) (decoded @ d) (saturating_add chunks 1)"
  using assms by (simp add: parse_chunks.simps [of _ _ s] Let_def crlf_def)

lemma parse_chunks_stepE:
  assumes "parse_chunks l eof s cursor decoded chunks = Inr (Some b)"
    "find_crlf s = Some i" "parse_chunk_size (take i s) = Inr n" "n \<noteq> 0"
  obtains e d r where "admit_chunk l (cursor + i + 2) (length decoded) (saturating_add chunks 1) n = Inr e"
    "drop (i + 2) s = d @ crlf @ r" "length d = unat n" "e = cursor + i + 2 + unat n"
proof -
  from assms obtain e where e: "admit_chunk l (cursor + i + 2) (length decoded) (saturating_add chunks 1) n = Inr e"
    by (subst (asm) parse_chunks.simps) (auto simp: Let_def split: sum.split_asm)
  have e': "e = cursor + i + 2 + unat n"
    using e by (auto simp: admit_chunk_def checked_add_usize_def ok_or_def bind_r_Inr split: if_split_asm option.split_asm)
  let ?rest = "drop (i + 2) s"
  from assms e have ln: "\<not> length ?rest < unat n + 2" and cr: "take 2 (drop (unat n) ?rest) = crlf"
    by (simp_all add: parse_chunks.simps [of _ _ s] Let_def split: if_split_asm)
  have "?rest = take (unat n) ?rest @ crlf @ drop (unat n + 2) ?rest"
    unfolding cr [symmetric] by (metis append_take_drop_id drop_drop add.commute)
  then show thesis using ln by (intro that [OF e _ _ e']) auto
qed

lemma parse_chunks_local:
  "parse_chunks l eof s cursor decoded chunks = Inr (Some b) \<Longrightarrow>
   \<exists>k. pb_consumed b = cursor + k \<and> k \<le> length s
     \<and> (\<forall>q eof'. parse_chunks l eof' (take k s @ q) cursor decoded chunks = Inr (Some b))"
proof (induction l eof s cursor decoded chunks rule: parse_chunks.induct)
  case (1 l eof s cursor decoded chunks)
  from 1(2) obtain i n where i: "find_crlf s = Some i" and n: "parse_chunk_size (take i s) = Inr n"
    by (subst (asm) parse_chunks.simps) (auto split: option.split_asm if_split_asm sum.split_asm)
  define rest where "rest = drop (i + 2) s"
  note loc = find_crlf_local [OF i] and len = find_crlf_bound [OF i]
  have fc: "find_crlf (take (i + 2 + k) s @ q) = Some i" for k q
    using find_crlf_local [OF i, of "take k (drop (i + 2) s) @ q"] by (simp only: take_add [of "i + 2" k] append_assoc)
  show ?case
  proof (cases "n = 0")
    case True
    have "parse_chunk_end l eof rest (cursor + i + 2) decoded = Inr (Some b)"
      using 1(2) i n True by (simp add: parse_chunks.simps [of _ _ s] rest_def)
    then obtain k where k: "pb_consumed b = cursor + i + 2 + k" "k \<le> length rest"
        "\<And>q eof'. parse_chunk_end l eof' (take k rest @ q) (cursor + i + 2) decoded = Inr (Some b)"
      by (elim parse_chunk_end_local) auto
    have "parse_chunks l eof' (take (i + 2 + k) s @ q) cursor decoded chunks = Inr (Some b)" for eof' q
      using len n True k(2,3) fc [of k q]
      by (simp add: parse_chunks.simps [of _ _ "_ @ _"] rest_def drop_take min_def)
    then show ?thesis using k(1,2) len by (intro exI [of _ "i + 2 + k"]) (auto simp: rest_def)
  next
    case False
    from parse_chunks_stepE [OF 1(2) i n False] obtain e d r
      where e: "admit_chunk l (cursor + i + 2) (length decoded) (saturating_add chunks 1) n = Inr e"
        and r: "drop (i + 2) s = d @ crlf @ r" "length d = unat n" and e': "e = cursor + i + 2 + unat n" by blast
    have ih: "parse_chunks l eof r (e + 2) (decoded @ d) (saturating_add chunks 1) = Inr (Some b)"
      using parse_chunks_step [OF i n False e r, of eof] 1(2) by simp
    with 1(1) [OF i n refl refl False e refl, unfolded r(1)] r(2) obtain k where k: "pb_consumed b = e + 2 + k" "k \<le> length r"
        "\<And>q eof'. parse_chunks l eof' (take k r @ q) (e + 2) (decoded @ d) (saturating_add chunks 1) = Inr (Some b)"
      by (auto simp: crlf_def)
    have "parse_chunks l eof' (take (i + 2 + (unat n + 2 + k)) s @ q) cursor decoded chunks = Inr (Some b)" for eof' q
    proof (subst parse_chunks_step [OF fc _ False e])
      show "drop (i + 2) (take (i + 2 + (unat n + 2 + k)) s @ q) = d @ crlf @ (take k r @ q)"
        using len r k(2) by (simp add: drop_take crlf_def)
    qed (use len n k(3) r in \<open>simp_all add: min_def\<close>)
    moreover have "length (drop (i + 2) s) = unat n + 2 + length r"
      unfolding r(1) by (simp add: crlf_def r(2))
    ultimately show ?thesis using k(1,2) e' len by (intro exI [of _ "i + 2 + (unat n + 2 + k)"]) auto
  qed
qed

text \<open>An error is not undone by more input.\<close>

lemma parse_chunk_end_error:
  "parse_chunk_end l False s cursor decoded = Inl err \<Longrightarrow> \<exists>err'. parse_chunk_end l eof (s @ q) cursor decoded = Inl err'"
  by (auto simp: parse_chunk_end_def Let_def find_double_crlf_append bind_r_Inl split: if_split_asm option.split_asm option.split
      dest: find_double_crlf_extend find_double_crlf_bound)

lemma parse_chunks_data:
  assumes "find_crlf s = Some i" "parse_chunk_size (take i s) = Inr n" "n \<noteq> 0"
    and "admit_chunk l (cursor + i + 2) (length decoded) (saturating_add chunks 1) n = Inr e"
    and "drop (i + 2) s = rest"
  shows "parse_chunks l eof s cursor decoded chunks =
    (if length rest < unat n + 2 then
       (if eof then Inl (TruncatedResponse ''chunk data ended before declared size or CRLF'') else Inr None)
     else if take 2 (drop (unat n) rest) \<noteq> crlf then Inl (InvalidResponse ''chunk data is not followed by CRLF'')
     else parse_chunks l eof (drop (unat n + 2) rest) (e + 2) (decoded @ take (unat n) rest) (saturating_add chunks 1))"
  using assms(1-4) unfolding assms(5) [symmetric] by (simp add: parse_chunks.simps [of _ _ s] Let_def)

lemma parse_chunk_data_error:
  assumes err: "parse_chunks l False s cursor decoded chunks = Inl err"
    and i: "find_crlf s = Some i" and n: "parse_chunk_size (take i s) = Inr n" "n \<noteq> 0"
    and step: "\<And>e. admit_chunk l (cursor + i + 2) (length decoded) (saturating_add chunks 1) n = Inr e \<Longrightarrow>
      \<not> length (drop (i + 2) s) < unat n + 2 \<Longrightarrow> \<not> take 2 (drop (unat n) (drop (i + 2) s)) \<noteq> crlf \<Longrightarrow>
      parse_chunks l False (drop (unat n + 2) (drop (i + 2) s)) (e + 2) (decoded @ take (unat n) (drop (i + 2) s))
        (saturating_add chunks 1) = Inl err \<Longrightarrow>
      \<exists>err'. parse_chunks l eof (drop (unat n + 2) (drop (i + 2) s) @ q) (e + 2) (decoded @ take (unat n) (drop (i + 2) s))
        (saturating_add chunks 1) = Inl err'"
  shows "\<exists>err'. parse_chunks l eof (s @ q) cursor decoded chunks = Inl err'"
proof -
  note fc = find_crlf_append [OF i, of q] and len = find_crlf_bound [OF i]
  define rest where "rest = drop (i + 2) s"
  have n': "parse_chunk_size (take i (s @ q)) = Inr n" using n len by simp
  have rest: "drop (i + 2) (s @ q) = rest @ q" using len by (simp add: rest_def)
  show ?thesis
  proof (cases "admit_chunk l (cursor + i + 2) (length decoded) (saturating_add chunks 1) n")
    case (Inl x)
    then show ?thesis using fc len n by (simp add: parse_chunks.simps [of _ _ "s @ q"] Let_def)
  next
    case (Inr e)
    note eq = parse_chunks_data [OF i n Inr rest_def [symmetric], of False]
      and eq' = parse_chunks_data [OF fc n' n(2) Inr rest, of eof]
    from err eq have ln: "\<not> length rest < unat n + 2" by (auto split: if_split_asm)
    then show ?thesis
      using err step [OF Inr, folded rest_def] unfolding eq eq' by (auto split: if_split_asm)
  qed
qed

lemma parse_chunks_error:
  "parse_chunks l False s cursor decoded chunks = Inl err \<Longrightarrow>
   \<exists>err'. parse_chunks l eof (s @ q) cursor decoded chunks = Inl err'"
proof (induction l False s cursor decoded chunks rule: parse_chunks.induct)
  case (1 l s cursor decoded chunks)
  show ?case
  proof (cases "find_crlf s")
    case None
    with 1(2) have "length s > 128" by (subst (asm) parse_chunks.simps) (auto split: if_split_asm)
    moreover have "\<exists>err'. parse_chunk_size (take i (s @ q)) = Inl err'" if "find_crlf (s @ q) = Some i" for i
      using find_crlf_extend [OF None that] find_crlf_bound [OF that] calculation by (auto simp: parse_chunk_size_def)
    ultimately show ?thesis
      by (subst parse_chunks.simps) (fastforce split: option.split)
  next
    case (Some i)
    note i = find_crlf_append [OF Some, of q] and len = find_crlf_bound [OF Some]
    show ?thesis
    proof (cases "parse_chunk_size (take i s)")
      case (Inl err)
      then show ?thesis using i len by (subst parse_chunks.simps) simp
    next
      case (Inr n)
      show ?thesis
      proof (cases "n = 0")
        case True
        with 1(2) Some Inr have "parse_chunk_end l False (drop (i + 2) s) (cursor + i + 2) decoded = Inl err"
          by (simp add: parse_chunks.simps [of _ _ s])
        from parse_chunk_end_error [OF this, of eof q] show ?thesis
          using i len Inr True by (simp add: parse_chunks.simps [of _ _ "s @ q"])
      next
        case False
        show ?thesis
          by (rule parse_chunk_data_error [OF 1(2) Some Inr False]) (rule 1(1) [OF Some Inr refl refl False]; simp add: Let_def)
      qed
    qed
  qed
qed

lemma parse_head_error: "parse_head l False s = Inl err \<Longrightarrow> parse_head l eof (s @ q) = Inl err"
  by (auto simp: parse_head_def Let_def find_double_crlf_append split: if_split_asm option.split_asm option.split
      dest: find_double_crlf_extend find_double_crlf_bound)

lemma parse_body_local:
  assumes "parse_body l False framing s = Inr (Some b)"
  shows "pb_consumed b \<le> length s \<and> (\<forall>q eof'. parse_body l eof' framing (take (pb_consumed b) s @ q) = Inr (Some b))"
proof (cases framing)
  case Chunked
  with assms parse_chunks_local [of l False s 0 "[]" 0 b] show ?thesis by (auto simp: parse_body_def parse_chunked_def)
qed (use assms in \<open>auto simp: parse_body_def min_def split: if_split_asm\<close>)

lemma parse_body_error: "parse_body l False framing s = Inl err \<Longrightarrow> \<exists>err'. parse_body l eof framing (s @ q) = Inl err'"
  by (cases framing) (auto simp: parse_body_def parse_chunked_def parse_chunks_error split: if_split_asm)

text \<open>One turn of the loop, on an interim and on a final response.\<close>

lemma parse_from_interim:
  assumes "parse_head l eof s = Inr (Some (i, (v, c, t), hs))" "100 \<le> c \<and> c < 200"
  shows "parse_from l eof m s offset n =
    (if c = 101 then Inl (InvalidResponse ''protocol upgrades are not supported'')
     else if saturating_add n 1 > hm_interim_responses l then
       Inl (InvalidResponse ''interim response count exceeds configured limit'')
     else if drop i s = [] then
       (if eof then Inl (TruncatedResponse ''stream ended after interim response'') else Inr Incomplete)
     else parse_from l eof m (drop i s) (offset + i) (saturating_add n 1))"
  using assms by (simp add: parse_from.simps [of _ _ _ s] Let_def)

lemma parse_from_final:
  assumes "parse_head l eof s = Inr (Some (i, (v, c, t), hs))" "\<not> (100 \<le> c \<and> c < 200)"
  shows "parse_from l eof m s offset n =
    bind_r (determine_framing m v c hs) (\<lambda>framing.
    bind_r (parse_body l eof framing (drop i s)) (\<lambda>body.
    case body of
      None \<Rightarrow> Inr Incomplete
    | Some b \<Rightarrow> Inr (Complete
        \<lparr>hr_version = v, hr_status_code = c, hr_reason = t, hr_headers = hs, hr_trailers = pb_trailers b,
         hr_body = pb_body b, hr_framing = framing, hr_interim_responses = n\<rparr> (offset + i + pb_consumed b))))"
proof -
  have f: "(100 \<le> c \<and> c < 200) = False" using assms(2) by simp
  show ?thesis by (subst parse_from.simps) (simp only: assms(1) f Let_def sum.case option.case prod.case if_False)
qed

lemma parse_from_local:
  "parse_from l False m s offset n = Inr (Complete r k) \<Longrightarrow>
   \<exists>j. k = offset + j \<and> 4 \<le> j \<and> j \<le> length s
     \<and> (\<forall>q eof'. parse_from l eof' m (take j s @ q) offset n = Inr (Complete r k))"
proof (induction l False m s offset n rule: parse_from.induct)
  case (1 l m s offset n)
  obtain i v c t hs where h: "parse_head l False s = Inr (Some (i, (v, c, t), hs))"
    using 1(2) by (subst (asm) parse_from.simps) (auto split: sum.split_asm option.split_asm)
  have h': "parse_head l eof' (take (i + j) s @ q) = Inr (Some (i, (v, c, t), hs))" for eof' j q
    using parse_head_local [OF h, of eof' "take j (drop i s) @ q"] by (simp add: take_add)
  note b = parse_head_bound [OF h]
  show ?case
  proof (cases "100 \<le> c \<and> c < 200")
    case True
    let ?n = "saturating_add n 1"
    have c: "c \<noteq> 101" "\<not> ?n > hm_interim_responses l" "drop i s \<noteq> []"
      and rec: "parse_from l False m (drop i s) (offset + i) ?n = Inr (Complete r k)"
      using 1(2) unfolding parse_from_interim [OF h True] by (simp_all split: if_split_asm)
    from 1(1) [OF h refl refl refl refl refl refl refl True c(1) refl c(2,3) rec] obtain j where
        j: "k = offset + i + j" "4 \<le> j" "j \<le> length (drop i s)"
        "\<And>q eof'. parse_from l eof' m (take j (drop i s) @ q) (offset + i) ?n = Inr (Complete r k)" by auto
    have "parse_from l eof' m (take (i + j) s @ q) offset n = Inr (Complete r k)" for q eof'
    proof -
      have "drop i (take (i + j) s @ q) = take j (drop i s) @ q" "take j (drop i s) @ q \<noteq> []"
        using b j(2,3) by (auto simp: drop_take)
      then show ?thesis using c(1,2) j(4) [of eof' q] by (subst parse_from_interim [OF h' True]) simp
    qed
    then show ?thesis using j(1-3) b by (intro exI [of _ "i + j"]) auto
  next
    case False
    note fin = 1(2) [unfolded parse_from_final [OF h False]]
    then obtain f x where f: "determine_framing m v c hs = Inr f" and x: "parse_body l False f (drop i s) = Inr (Some x)"
      and k: "k = offset + i + pb_consumed x"
      by (auto simp: bind_r_Inr split: option.split_asm)
    note loc = parse_body_local [OF x]
    have "parse_from l eof' m (take (i + pb_consumed x) s @ q) offset n = Inr (Complete r k)" for q eof'
    proof -
      have "drop i (take (i + pb_consumed x) s @ q) = take (pb_consumed x) (drop i s) @ q"
        using b loc by (auto simp: drop_take)
      then show ?thesis using fin f x loc by (subst parse_from_final [OF h' False]) simp
    qed
    then show ?thesis using k b loc by (intro exI [of _ "i + pb_consumed x"]) auto
  qed
qed

lemma parse_from_error:
  "parse_from l False m s offset n = Inl err \<Longrightarrow> \<exists>err'. parse_from l eof m (s @ q) offset n = Inl err'"
proof (induction l False m s offset n rule: parse_from.induct)
  case (1 l m s offset n)
  show ?case
  proof (cases "parse_head l False s")
    case (Inl x)
    then show ?thesis using parse_head_error by (subst parse_from.simps) simp
  next
    case (Inr y)
    with 1(2) obtain i v c t hs where h: "parse_head l False s = Inr (Some (i, (v, c, t), hs))"
      by (subst (asm) parse_from.simps) (auto split: option.split_asm)
    note b = parse_head_bound [OF h]
    have h': "parse_head l eof (s @ q) = Inr (Some (i, (v, c, t), hs))"
      using parse_head_local [OF h, of eof "drop i s @ q"] by (simp flip: append_assoc)
    show ?thesis
    proof (cases "100 \<le> c \<and> c < 200")
      case True
      note eq = parse_from_interim [OF h True] parse_from_interim [OF h' True]
      show ?thesis
      proof (cases "c \<noteq> 101 \<and> \<not> saturating_add n 1 > hm_interim_responses l")
        case ok: True
        with 1(2) have c: "drop i s \<noteq> []"
          and rec: "parse_from l False m (drop i s) (offset + i) (saturating_add n 1) = Inl err"
          unfolding eq by (simp_all split: if_split_asm)
        from 1(1) [OF h refl refl refl refl refl refl refl True _ refl _ c rec] ok
        have "\<exists>err'. parse_from l eof m (drop i s @ q) (offset + i) (saturating_add n 1) = Inl err'" by simp
        then show ?thesis using ok c b unfolding eq by simp
      qed (auto simp: eq)
    next
      case False
      note eq = parse_from_final [OF h False] parse_from_final [OF h' False]
      from 1(2) b show ?thesis
        unfolding eq by (auto simp: bind_r_Inl dest: parse_body_error [of _ _ _ _ eof q] split: option.split_asm)
    qed
  qed
qed

section \<open>Reading a response in pieces\<close>

text \<open>
  C8: the parser may be called on any prefixes of what the server sends. A response it returns is
  delimited by its own first bytes: it lies within the input, what follows it and whether the stream
  has ended do not change it, and on every shorter prefix the parser asks for more bytes, so the
  response does not depend on how the bytes were split into reads. And an error is final: with more
  input the parser still fails.
\<close>

theorem parsing_is_incremental:
  "(\<forall>r n. parse_response s False m l = Inr (Complete r n) \<longrightarrow>
      n \<le> length s
      \<and> (\<forall>q eof. parse_response (take n s @ q) eof m l = Inr (Complete r n))
      \<and> (\<forall>k < n. parse_response (take k s) False m l = Inr Incomplete))
   \<and> (\<forall>err. parse_response s False m l = Inl err \<longrightarrow>
      (\<forall>q eof. \<exists>err'. parse_response (s @ q) eof m l = Inl err'))"
proof (intro conjI allI impI)
  fix r n assume s: "parse_response s False m l = Inr (Complete r n)"
  then have loc: "n \<le> length s" "\<And>q eof. parse_response (take n s @ q) eof m l = Inr (Complete r n)"
    using parse_from_local [of l m s 0 0 r n] by (auto simp: parse_response_def)
  show "n \<le> length s" and "parse_response (take n s @ q) eof m l = Inr (Complete r n)" for q eof using loc by simp_all
  fix k assume k: "k < n"
  show "parse_response (take k s) False m l = Inr Incomplete"
  proof (cases "parse_response (take k s) False m l")
    case (Inl err)
    with parse_from_error [of l m "take k s" 0 0 err False "drop k s"] s show ?thesis by (simp add: parse_response_def)
  next
    case (Inr x)
    show ?thesis
    proof (cases x)
      case (Complete r' n')
      with Inr have n': "n' \<le> k" and q: "\<And>q. parse_response (take n' s @ q) False m l = Inr (Complete r' n')"
        using parse_from_local [of l m "take k s" 0 0 r' n'] k loc(1) by (auto simp: parse_response_def)
      from q [of "drop n' s"] n' s k show ?thesis by simp
    qed (use Inr in simp)
  qed
next
  fix err q eof assume "parse_response s False m l = Inl err"
  then show "\<exists>err'. parse_response (s @ q) eof m l = Inl err'"
    using parse_from_error [of l m s 0 0 err eof q] by (simp add: parse_response_def)
qed

definition sample_wire :: string where
  "sample_wire = ''HTTP/1.1 200 OK'' @ crlf @ ''Content-Length: 5'' @ crlf @ crlf @ ''hello''"

definition sample_response :: http1_response where
  "sample_response =
     \<lparr>hr_version = Http11, hr_status_code = 200, hr_reason = ''OK'',
      hr_headers = [\<lparr>hh_name = ''content-length'', hh_value = ''5''\<rparr>], hr_trailers = [], hr_body = ''hello'',
      hr_framing = ContentLength 5, hr_interim_responses = 0\<rparr>"

lemma sample_wire_parsed: "parse_response sample_wire False ''GET'' http1_conservative_default = Inr (Complete sample_response 43)"
  by code_simp

theorem parsing_is_incremental_witness:
  "parse_response (take 42 sample_wire) False ''GET'' http1_conservative_default = Inr Incomplete
   \<and> parse_response (take 43 sample_wire @ ''HTTP/1.1 500'') True ''GET'' http1_conservative_default
       = Inr (Complete sample_response 43)"
proof -
  note p = parsing_is_incremental [of sample_wire "''GET''" http1_conservative_default]
  show ?thesis using conjunct1 [OF p, rule_format, OF sample_wire_parsed] by simp
qed

end
