(* ===== verification/Http1_Response.thy ===== *)
theory Http1_Response
  imports Http1_Parser
begin

text \<open>
  What a response returned by the parser of \<open>nxb-http1\<close> is: its bounds, the bytes of its fields and
  the framing of its body; and that the parser reads back every response written within the limits.
\<close>

section \<open>Fields\<close>

definition field_ok :: "http1_limits \<Rightarrow> http1_header \<Rightarrow> bool" where
  "field_ok l h \<longleftrightarrow>
     hh_name h \<noteq> [] \<and> list_all is_token_byte (hh_name h) \<and> to_ascii_lowercase (hh_name h) = hh_name h
     \<and> length (hh_name h) \<le> unat (hm_header_name_bytes l)
     \<and> list_all is_field_byte (hh_value h) \<and> trim_ows (hh_value h) = hh_value h
     \<and> length (hh_value h) \<le> unat (hm_header_value_bytes l)"

lemma trim_ows_idem: "trim_ows (trim_ows s) = trim_ows s"
proof -
  define t where "t = dropWhile is_ows s"
  have t: "t = [] \<or> \<not> is_ows (hd t)" unfolding t_def using hd_dropWhile by blast
  define u where "u = rev (dropWhile is_ows (rev t))"
  have "u = [] \<or> \<not> is_ows (hd u)"
  proof (cases "u = []")
    case False
    obtain w where "t = u @ w"
      unfolding u_def by (metis rev_append rev_rev_ident takeWhile_dropWhile_id)
    with False t show ?thesis by auto
  qed simp
  then have "dropWhile is_ows u = u" by (cases u) auto
  moreover have "dropWhile is_ows (rev u) = rev u" by (simp add: u_def dropWhile_idem)
  ultimately show ?thesis unfolding trim_ows_def t_def [symmetric] u_def [symmetric] by simp
qed

lemma is_token_byte_lower: "is_token_byte c \<Longrightarrow> is_token_byte (char_lower c)"
  by (cases "is_ascii_uppercase c") (auto simp: is_token_byte_def char_lower_def byte_class_defs)

lemma parse_header_line_ok:
  assumes "parse_header_line l trailers line = Inr h"
  shows "field_ok l h \<and> (trailers \<longrightarrow> \<not> is_prohibited_trailer (hh_name h))"
proof -
  from assms obtain c where c: "position (CHR '':'') line = Some c" "c \<noteq> 0" "line \<noteq> []"
    and n: "\<not> length (take c line) > unat (hm_header_name_bytes l)" "list_all is_token_byte (take c line)"
    and v: "\<not> length (trim_ows (drop (c + 1) line)) > unat (hm_header_value_bytes l)"
      "list_all is_field_byte (trim_ows (drop (c + 1) line))"
    and h: "h = \<lparr>hh_name = to_ascii_lowercase (take c line), hh_value = trim_ows (drop (c + 1) line)\<rparr>"
    and t: "\<not> (trailers \<and> is_prohibited_trailer (to_ascii_lowercase (take c line)))"
    by (auto simp: parse_header_line_def Let_def bind_r_Inr validate_field_value_def split: if_split_asm option.split_asm)
  then show ?thesis
    by (auto simp: field_ok_def h trim_ows_idem to_ascii_lowercase_def list_all_iff is_token_byte_lower)
qed

lemma parse_header_lines_ok:
  assumes "parse_header_lines ls l trailers = Inr hs"
  shows "list_all (field_ok l) hs \<and> length hs \<le> unat (if trailers then hm_trailer_count l else hm_header_count l)
    \<and> (trailers \<longrightarrow> list_all (\<lambda>h. \<not> is_prohibited_trailer (hh_name h)) hs)"
proof -
  from assms have m: "map (parse_header_line l trailers) ls = map Inr hs"
    and n: "length ls \<le> unat (if trailers then hm_trailer_count l else hm_header_count l)"
    by (auto simp: parse_header_lines_def collect_r_Inr split: if_split_asm)
  have "length hs = length ls" using arg_cong [OF m, of length] by simp
  moreover have "field_ok l h \<and> (trailers \<longrightarrow> \<not> is_prohibited_trailer (hh_name h))" if "h \<in> set hs" for h
  proof -
    have "Inr h \<in> set (map (parse_header_line l trailers) ls)" unfolding m using that by simp
    then show ?thesis by (auto dest!: parse_header_line_ok [OF sym])
  qed
  ultimately show ?thesis using n by (auto simp: list_all_iff)
qed

section \<open>Framing\<close>

text \<open>
  The framing is unambiguous: a body of declared length has that one length in every Content-Length
  field and no Transfer-Encoding, a chunked one has no Content-Length, and one that ends with the
  connection has neither.
\<close>

definition framing_ok :: "string \<Rightarrow> bool \<Rightarrow> http1_response \<Rightarrow> bool" where
  "framing_ok m eof r \<longleftrightarrow>
     (let lengths = header_values ''content-length'' (hr_headers r);
          codings = header_values ''transfer-encoding'' (hr_headers r) in
      case hr_framing r of
        NoBody \<Rightarrow> bodyless m (hr_status_code r) \<and> hr_body r = [] \<and> hr_trailers r = []
      | ContentLength n \<Rightarrow> \<not> bodyless m (hr_status_code r) \<and> length (hr_body r) = unat n \<and> hr_trailers r = []
          \<and> codings = [] \<and> lengths \<noteq> []
          \<and> list_all (\<lambda>v. list_all (\<lambda>p. parse_u64 (trim_ows p) = Some n) (split_on (CHR '','') v)) lengths
      | Chunked \<Rightarrow> \<not> bodyless m (hr_status_code r) \<and> hr_version r = Http11 \<and> lengths = []
          \<and> map (\<lambda>v. to_ascii_lowercase (trim_ows v)) codings = [''chunked'']
      | ConnectionClose \<Rightarrow> \<not> bodyless m (hr_status_code r) \<and> eof \<and> hr_trailers r = [] \<and> lengths = [] \<and> codings = [])"

lemma collect_components:
  "collect_r (map (\<lambda>v. if P v then Inl e else collect_r (map f (split_on d v))) vs) = Inr xss \<Longrightarrow>
   map f (concat (map (split_on d) vs)) = map Inr (concat xss)"
proof (induction vs arbitrary: xss)
  case (Cons v vs)
  from Cons.prems obtain xs yss where "xss = xs # yss" "collect_r (map f (split_on d v)) = Inr xs"
      "collect_r (map (\<lambda>v. if P v then Inl e else collect_r (map f (split_on d v))) vs) = Inr yss"
    by (auto simp: bind_r_Inr split: if_split_asm)
  with Cons.IH show ?case by (simp add: collect_r_Inr)
qed simp

lemma components_Nil: "concat (map (split_on d) vs) = [] \<longleftrightarrow> vs = []"
  by (cases vs) auto

lemma split_on_single: "split_on d s = [p] \<Longrightarrow> p = s"
proof (induction s arbitrary: p)
  case (Cons c s)
  then show ?case by (auto split: if_split_asm list.split_asm)
qed simp

lemma components_single: "concat (map (split_on d) vs) = [p] \<Longrightarrow> vs = [p]"
proof (cases vs)
  case (Cons v ws)
  assume *: "concat (map (split_on d) vs) = [p]"
  obtain x xs where x: "split_on d v = x # xs" by (cases "split_on d v") auto
  with * Cons have "xs = []" "concat (map (split_on d) ws) = []" "x = p" by auto
  with x Cons split_on_single [of d v x] components_Nil [of d ws] show ?thesis by simp
qed simp

lemma map_Inr_all: "map f ps = map Inr xs \<Longrightarrow> p \<in> set ps \<Longrightarrow> \<exists>x \<in> set xs. f p = Inr x"
proof (induction ps arbitrary: xs)
  case (Cons q ps)
  then obtain y ys where "xs = y # ys" "f q = Inr y" "map f ps = map Inr ys" by (cases xs) auto
  with Cons show ?case by auto
qed simp

lemma parse_content_length_components:
  assumes "parse_content_length hs = Inr r"
  obtains xs where
    "map parse_length_component (concat (map (split_on (CHR '','')) (header_values ''content-length'' hs))) = map Inr xs"
    "r = (case xs of [] \<Rightarrow> None | x # _ \<Rightarrow> Some x)" "list_all (\<lambda>v. v = hd xs) xs"
proof -
  from assms obtain xss where
    c: "collect_r (map (\<lambda>value. if \<not> valid_utf8 value then Inl (InvalidResponse ''Content-Length must contain ASCII digits'')
         else collect_r (map parse_length_component (split_on (CHR '','') value))) (header_values ''content-length'' hs)) = Inr xss"
    and r: "(case concat xss of [] \<Rightarrow> Inr None
     | first # values \<Rightarrow> if list_ex (\<lambda>v. v \<noteq> first) (first # values) then Inl (InvalidResponse ''conflicting Content-Length values'')
         else Inr (Some first)) = (Inr r :: http1_error + u64 option)"
    unfolding parse_content_length_def bind_r_Inr by blast
  define xs where "xs = concat xss"
  have "r = (case xs of [] \<Rightarrow> None | x # _ \<Rightarrow> Some x)" "list_all (\<lambda>v. v = hd xs) xs"
    using r unfolding xs_def [symmetric] by (cases xs; auto simp: list_ex_iff list_all_iff split: if_split_asm)+
  with collect_components [OF c] show thesis unfolding xs_def by (rule that)
qed

lemma parse_content_length_None:
  assumes "parse_content_length hs = Inr None"
  shows "header_values ''content-length'' hs = []"
proof (rule parse_content_length_components [OF assms])
  fix xs assume xs: "map parse_length_component (concat (map (split_on (CHR '','')) (header_values ''content-length'' hs)))
    = map Inr xs" "None = (case xs of [] \<Rightarrow> None | x # _ \<Rightarrow> Some x)"
  then have "xs = []" by (cases xs) auto
  with xs(1) have "concat (map (split_on (CHR '','')) (header_values ''content-length'' hs)) = []" by simp
  then show ?thesis unfolding components_Nil .
qed

lemma parse_content_length_Some:
  assumes "parse_content_length hs = Inr (Some n)"
  shows "header_values ''content-length'' hs \<noteq> []
    \<and> list_all (\<lambda>v. list_all (\<lambda>p. parse_u64 (trim_ows p) = Some n) (split_on (CHR '','') v)) (header_values ''content-length'' hs)"
proof -
  let ?vs = "header_values ''content-length'' hs"
  from assms obtain xs where xs: "map parse_length_component (concat (map (split_on (CHR '','')) ?vs)) = map Inr xs"
    "xs \<noteq> []" "list_all (\<lambda>v. v = n) xs"
    by (elim parse_content_length_components) (auto split: list.split_asm)
  have "parse_u64 (trim_ows p) = Some n" if "v \<in> set ?vs" "p \<in> set (split_on (CHR '','') v)" for v p
  proof -
    have "p \<in> set (concat (map (split_on (CHR '','')) ?vs))" using that by auto
    then obtain x where "x \<in> set xs" "parse_length_component p = Inr x" using map_Inr_all [OF xs(1)] by blast
    with xs(3) show ?thesis by (auto simp: parse_length_component_def Let_def list_all_iff result_simps split: if_split_asm)
  qed
  with xs(1,2) show ?thesis by (auto simp: list_all_iff)
qed

lemma parse_transfer_encoding_ok:
  assumes "parse_transfer_encoding hs = Inr b"
  shows "map (\<lambda>v. to_ascii_lowercase (trim_ows v)) (header_values ''transfer-encoding'' hs) = (if b then [''chunked''] else [])"
proof -
  let ?vs = "header_values ''transfer-encoding'' hs"
  from assms obtain tss where
    c: "collect_r (map (\<lambda>value. if \<not> valid_utf8 value then Inl (InvalidResponse ''Transfer-Encoding must be ASCII'')
         else collect_r (map parse_coding_component (split_on (CHR '','') value))) ?vs) = Inr tss"
    and b: "(let tokens = concat tss in if tokens = [] then Inr False
     else if length tokens \<noteq> 1 \<or> hd tokens \<noteq> ''chunked'' then
       Inl (InvalidResponse ''only one final chunked transfer coding is supported'') else Inr True) = (Inr b :: http1_error + bool)"
    unfolding parse_transfer_encoding_def bind_r_Inr by blast
  define xs where "xs = concat tss"
  have xs: "map parse_coding_component (concat (map (split_on (CHR '','')) ?vs)) = map Inr xs"
    unfolding xs_def by (rule collect_components [OF c])
  have xs': "xs = (if b then [''chunked''] else [])"
    using b by (cases xs) (auto simp: xs_def [symmetric] split: if_split_asm)
  note xs = xs xs'
  show ?thesis
  proof (cases b)
    case True
    with xs obtain p where p: "concat (map (split_on (CHR '','')) ?vs) = [p]" "parse_coding_component p = Inr ''chunked''" by auto
    then show ?thesis using True components_single [OF p(1)]
      by (auto simp: parse_coding_component_def Let_def split: if_split_asm)
  qed (use xs components_Nil in \<open>auto split: if_split_asm\<close>)
qed

section \<open>Bodies\<close>

lemma parse_chunk_end_ok:
  assumes "parse_chunk_end l eof s cursor decoded = Inr (Some b)"
  shows "pb_body b = decoded \<and> list_all (field_ok l) (pb_trailers b) \<and> length (pb_trailers b) \<le> unat (hm_trailer_count l)
    \<and> list_all (\<lambda>h. \<not> is_prohibited_trailer (hh_name h)) (pb_trailers b)"
  using assms by (auto simp: parse_chunk_end_def Let_def bind_r_Inr split: if_split_asm option.split_asm dest: parse_header_lines_ok)

lemma admit_chunk_bound:
  assumes "admit_chunk l cursor d chunks n = Inr e" "d \<le> unat (hm_response_body_bytes l)" "d \<le> cursor"
  shows "d + unat n \<le> unat (hm_response_body_bytes l)"
proof -
  have d: "unat (of_nat d :: u64) = d" using assms(2) unat_bounds(4) [of "hm_response_body_bytes l"] by (simp add: unat_of_nat)
  have "\<not> saturating_add (of_nat d) n > hm_response_body_bytes l"
    using assms(1) by (auto simp: admit_chunk_def split: if_split_asm)
  then have "min (d + unat n) (2 ^ 64 - 1) \<le> unat (hm_response_body_bytes l)"
    by (simp add: not_less word_le_nat_alt unat_saturating_add d)
  moreover have "cursor + unat n < 2 ^ 64"
    using assms(1) by (auto simp: admit_chunk_def bind_r_Inr checked_add_usize_def split: if_split_asm)
  ultimately show ?thesis using assms(3) by simp
qed

lemma parse_chunks_ok:
  "parse_chunks l eof s cursor decoded chunks = Inr (Some b) \<Longrightarrow> length decoded \<le> unat (hm_response_body_bytes l) \<Longrightarrow>
   length decoded \<le> cursor \<Longrightarrow>
   length (pb_body b) \<le> unat (hm_response_body_bytes l)
   \<and> list_all (field_ok l) (pb_trailers b) \<and> length (pb_trailers b) \<le> unat (hm_trailer_count l)
   \<and> list_all (\<lambda>h. \<not> is_prohibited_trailer (hh_name h)) (pb_trailers b)"
proof (induction l eof s cursor decoded chunks rule: parse_chunks.induct)
  case (1 l eof s cursor decoded chunks)
  from 1(2) obtain i n where i: "find_crlf s = Some i" and n: "parse_chunk_size (take i s) = Inr n"
    by (subst (asm) parse_chunks.simps) (auto split: option.split_asm if_split_asm sum.split_asm)
  show ?case
  proof (cases "n = 0")
    case True
    with 1(2) i n have "parse_chunk_end l eof (drop (i + 2) s) (cursor + i + 2) decoded = Inr (Some b)"
      by (simp add: parse_chunks.simps [of _ _ s])
    from parse_chunk_end_ok [OF this] 1(3) show ?thesis by simp
  next
    case False
    from parse_chunks_stepE [OF 1(2) i n False] obtain e d r
      where e: "admit_chunk l (cursor + i + 2) (length decoded) (saturating_add chunks 1) n = Inr e"
        and r: "drop (i + 2) s = d @ crlf @ r" "length d = unat n" "e = cursor + i + 2 + unat n" by blast
    have "parse_chunks l eof r (e + 2) (decoded @ d) (saturating_add chunks 1) = Inr (Some b)"
      using parse_chunks_step [OF i n False e r(1,2), of eof] 1(2) by simp
    then show ?thesis using 1(1) [OF i n refl refl False e refl, unfolded r(1)] r(2,3) admit_chunk_bound [OF e 1(3)] 1(4)
      by (simp add: crlf_def)
  qed
qed

section \<open>Every response is sound\<close>

definition response_ok :: "http1_limits \<Rightarrow> string \<Rightarrow> bool \<Rightarrow> http1_response \<Rightarrow> bool" where
  "response_ok l m eof r \<longleftrightarrow>
     200 \<le> hr_status_code r \<and> hr_status_code r \<le> 999 \<and> list_all is_field_byte (hr_reason r)
     \<and> list_all (field_ok l) (hr_headers r) \<and> length (hr_headers r) \<le> unat (hm_header_count l)
     \<and> list_all (field_ok l) (hr_trailers r) \<and> length (hr_trailers r) \<le> unat (hm_trailer_count l)
     \<and> list_all (\<lambda>h. \<not> is_prohibited_trailer (hh_name h)) (hr_trailers r)
     \<and> length (hr_body r) \<le> unat (hm_response_body_bytes l)
     \<and> hr_interim_responses r \<le> hm_interim_responses l
     \<and> framing_ok m eof r"

lemma parse_status_line_ok:
  assumes "parse_status_line line = Inr (v, c, t)"
  shows "100 \<le> c \<and> c \<le> 999 \<and> list_all is_field_byte t"
  using assms
  by (auto simp: parse_status_line_def Let_def bind_r_Inr validate_reason_phrase_def split: if_split_asm option.split_asm
      simp flip: not_less)

lemma parse_head_ok:
  assumes "parse_head l eof s = Inr (Some (i, (v, c, t), hs))"
  shows "100 \<le> c \<and> c \<le> 999 \<and> list_all is_field_byte t \<and> list_all (field_ok l) hs \<and> length hs \<le> unat (hm_header_count l)"
  using assms
  by (auto simp: parse_head_def Let_def bind_r_Inr split: if_split_asm option.split_asm
      dest!: parse_status_line_ok parse_header_lines_ok)

lemma determine_framing_cases:
  assumes "determine_framing m v c hs = Inr f"
  obtains (no_body) "bodyless m c" "f = NoBody"
  | (chunked) "\<not> bodyless m c" "f = Chunked" "v = Http11" "parse_content_length hs = Inr None" "parse_transfer_encoding hs = Inr True"
  | (declared) n where "\<not> bodyless m c" "f = ContentLength n" "parse_content_length hs = Inr (Some n)" "parse_transfer_encoding hs = Inr False"
  | (close) "\<not> bodyless m c" "f = ConnectionClose" "parse_content_length hs = Inr None" "parse_transfer_encoding hs = Inr False"
  using assms by (auto simp: determine_framing_def bind_r_Inr split: if_split_asm option.split_asm)

lemma parse_body_ok:
  assumes f: "determine_framing m v c hs = Inr f" and b: "parse_body l eof f s = Inr (Some b)"
    and r: "hr_version r = v" "hr_status_code r = c" "hr_headers r = hs" "hr_framing r = f" "hr_body r = pb_body b"
      "hr_trailers r = pb_trailers b"
  shows "framing_ok m eof r \<and> length (pb_body b) \<le> unat (hm_response_body_bytes l)
    \<and> list_all (field_ok l) (pb_trailers b) \<and> length (pb_trailers b) \<le> unat (hm_trailer_count l)
    \<and> list_all (\<lambda>h. \<not> is_prohibited_trailer (hh_name h)) (pb_trailers b)"
  using f
proof (cases rule: determine_framing_cases)
  case no_body
  with b r show ?thesis by (auto simp: framing_ok_def parse_body_def)
next
  case chunked
  note te = parse_transfer_encoding_ok [OF chunked(5)] and cl = parse_content_length_None [OF chunked(4)]
  from b chunked(2) have "parse_chunks l eof s 0 [] 0 = Inr (Some b)" by (simp add: parse_body_def parse_chunked_def)
  from parse_chunks_ok [OF this] te cl chunked(1-3) r show ?thesis by (simp add: framing_ok_def Let_def)
next
  case (declared n)
  note te = parse_transfer_encoding_ok [OF declared(4)] and cl = parse_content_length_Some [OF declared(3)]
  from b declared(2) have "\<not> n > hm_response_body_bytes l" "b = \<lparr>pb_body = take (unat n) s, pb_trailers = [], pb_consumed = unat n\<rparr>"
    "\<not> length s < unat n" by (auto simp: parse_body_def split: if_split_asm)
  with te cl declared(1,2) r show ?thesis by (simp add: framing_ok_def Let_def not_less word_le_nat_alt)
next
  case close
  note te = parse_transfer_encoding_ok [OF close(4)] and cl = parse_content_length_None [OF close(3)]
  with b r close(1,2) show ?thesis by (auto simp: parse_body_def framing_ok_def Let_def split: if_split_asm)
qed

lemma parse_from_ok:
  "parse_from l eof m s offset n = Inr (Complete r k) \<Longrightarrow> n \<le> hm_interim_responses l \<Longrightarrow>
   response_ok l m eof r \<and> k \<le> offset + length s"
proof (induction l eof m s offset n rule: parse_from.induct)
  case (1 l eof m s offset n)
  obtain i v c t hs where h: "parse_head l eof s = Inr (Some (i, (v, c, t), hs))"
    using 1(2) by (subst (asm) parse_from.simps) (auto split: sum.split_asm option.split_asm)
  note b = parse_head_bound [OF h] and ok = parse_head_ok [OF h]
  show ?case
  proof (cases "100 \<le> c \<and> c < 200")
    case True
    let ?n = "saturating_add n 1"
    have c: "c \<noteq> 101" "\<not> ?n > hm_interim_responses l" "drop i s \<noteq> []"
      and rec: "parse_from l eof m (drop i s) (offset + i) ?n = Inr (Complete r k)"
      using 1(2) unfolding parse_from_interim [OF h True] by (simp_all split: if_split_asm)
    from 1(1) [OF h refl refl refl refl refl refl refl True c(1) refl c(2,3) rec] c(2) b show ?thesis by simp
  next
    case False
    note fin = 1(2) [unfolded parse_from_final [OF h False]]
    then obtain f x where f: "determine_framing m v c hs = Inr f" and x: "parse_body l eof f (drop i s) = Inr (Some x)"
      and k: "k = offset + i + pb_consumed x" and r: "r = \<lparr>hr_version = v, hr_status_code = c, hr_reason = t, hr_headers = hs,
         hr_trailers = pb_trailers x, hr_body = pb_body x, hr_framing = f, hr_interim_responses = n\<rparr>"
      by (auto simp: bind_r_Inr split: option.split_asm)
    have "200 \<le> c" using False ok by (simp add: not_less)
    moreover have "pb_consumed x \<le> length (drop i s)"
      using x by (cases f) (auto simp: parse_body_def parse_chunked_def split: if_split_asm dest: parse_chunks_local)
    moreover have "framing_ok m eof r \<and> length (pb_body x) \<le> unat (hm_response_body_bytes l)
      \<and> list_all (field_ok l) (pb_trailers x) \<and> length (pb_trailers x) \<le> unat (hm_trailer_count l)
      \<and> list_all (\<lambda>h. \<not> is_prohibited_trailer (hh_name h)) (pb_trailers x)"
      by (rule parse_body_ok [OF f x]) (simp_all add: r)
    ultimately show ?thesis using ok b 1(3) k by (auto simp: response_ok_def r)
  qed
qed

text \<open>
  C7: whatever bytes the server sends, a response the parser returns is within the configured limits
  (fields, trailers, body, interim responses), its field names are lower-case tokens and its values
  have no control bytes, it is a final response, and its framing is unambiguous: a body of declared
  length agrees with every Content-Length and has no Transfer-Encoding, a chunked one has no
  Content-Length, and only a response with neither ends with the connection.
\<close>

theorem parsed_response_sound:
  assumes "parse_response s eof m l = Inr (Complete r n)"
  shows "response_ok l m eof r \<and> n \<le> length s"
  using parse_from_ok [of l eof m s 0 0 r n] assms by (simp add: parse_response_def)

theorem parsed_response_sound_witness:
  "response_ok http1_conservative_default ''GET'' False sample_response \<and> (43::nat) \<le> length sample_wire"
  by (rule parsed_response_sound [OF sample_wire_parsed])

end
