(* ===== verification/Http1_Round_Trip.thy ===== *)
theory Http1_Round_Trip
  imports Http1_Response
begin

text \<open>
  The parser of \<open>nxb-http1\<close> reads back what a server writes: a response printed as a status line,
  field lines and a body in the framing its fields declare is returned as it was, with its length.
\<close>

section \<open>Lines\<close>

definition plain :: "string \<Rightarrow> bool" where
  "plain s \<longleftrightarrow> CHR 0x0D \<notin> set s \<and> CHR 0x0A \<notin> set s"

text \<open>A block of lines, closed by an empty one.\<close>

definition block :: "string list \<Rightarrow> string" where
  "block ls = concat (map (\<lambda>x. x @ crlf) ls) @ crlf"

lemma block_simps [simp]: "block [] = crlf" "block (x # ls) = x @ crlf @ block ls"
  by (simp_all add: block_def)

lemma length_crlf [simp]: "length crlf = 2"
  by (simp add: crlf_def)

lemma length_block: "2 \<le> length (block ls)"
  by (simp add: block_def)

lemma plain_simps [simp]: "plain []" "plain (c # s) \<longleftrightarrow> c \<noteq> CHR 0x0D \<and> c \<noteq> CHR 0x0A \<and> plain s" "plain (s @ t) \<longleftrightarrow> plain s \<and> plain t"
  by (auto simp: plain_def)

lemma find_four_Cons: "c \<noteq> CHR 0x0D \<Longrightarrow> find_four (c # s) = map_option Suc (find_four s)"
  by (cases s rule: find_four.cases) (auto simp: crlf_def)

lemma find_four_plain: "plain x \<Longrightarrow> find_four (x @ s) = map_option ((+) (length x)) (find_four s)"
  by (induction x) (cases "find_four s"; auto simp: find_four_Cons)+

lemma find_four_crlf: "s \<noteq> [] \<Longrightarrow> hd s \<noteq> CHR 0x0D \<Longrightarrow> find_four (crlf @ s) = map_option ((+) 2) (find_four s)"
  by (cases s rule: find_four.cases) (auto simp: crlf_def find_four_Cons option.map_comp comp_def)

lemma find_four_block:
  "ls \<noteq> [] \<Longrightarrow> list_all (\<lambda>x. x \<noteq> [] \<and> plain x) ls \<Longrightarrow> find_four (block ls @ q) = Some (length (block ls) - 4)"
proof (induction ls)
  case (Cons x ls)
  show ?case
  proof (cases ls)
    case Nil
    with Cons.prems show ?thesis by (simp add: find_four_plain) (simp add: crlf_def)
  next
    case (Cons y ys)
    have "hd (block ls @ q) \<noteq> CHR 0x0D" "block ls @ q \<noteq> []"
      using Cons \<open>list_all _ (x # ls)\<close> by (cases y; simp)+
    then have "find_four (crlf @ block ls @ q) = map_option ((+) 2) (find_four (block ls @ q))" by (rule find_four_crlf [rotated])
    moreover have "4 \<le> length (block ls)" using length_block [of ys] by (simp add: Cons)
    moreover have "find_four (block ls @ q) = Some (length (block ls) - 4)" using Cons.IH Cons.prems Cons by simp
    ultimately show ?thesis using Cons.prems by (simp add: find_four_plain)
  qed
qed simp

lemma find_double_crlf_block:
  assumes "ls \<noteq> []" "list_all (\<lambda>x. x \<noteq> [] \<and> plain x) ls"
  shows "find_double_crlf (block ls @ q) = Some (length (block ls))"
proof -
  have "4 \<le> length (block ls)" using assms length_block [of "tl ls"] by (cases ls) auto
  then show ?thesis using find_four_block [OF assms] by (simp add: find_double_crlf_def)
qed

lemma check_crlf_plain: "plain x \<Longrightarrow> \<exists>p. check_crlf previous (x @ s) = check_crlf p s"
  by (induction x arbitrary: previous) auto

lemma check_crlf_crlf: "check_crlf previous (crlf @ s) = check_crlf (Some (CHR 0x0A)) s"
  by (simp add: crlf_def)

lemma check_crlf_block: "list_all plain ls \<Longrightarrow> check_crlf previous (block ls) = Inr ()"
proof (induction ls arbitrary: previous)
  case Nil
  show ?case using check_crlf_crlf [of previous "[]"] by simp
next
  case (Cons x ls)
  then obtain p where "check_crlf previous (x @ crlf @ block ls) = check_crlf p (crlf @ block ls)"
    using check_crlf_plain by fastforce
  with Cons show ?case by (simp add: check_crlf_crlf)
qed

lemma find_crlf_plain: "plain x \<Longrightarrow> find_crlf x = None"
  by (induction x rule: find_crlf.induct) (auto simp: crlf_def)

lemma find_crlf_Cons: "c \<noteq> CHR 0x0D \<Longrightarrow> find_crlf (c # s) = map_option Suc (find_crlf s)"
  by (cases s) (auto simp: crlf_def)

lemma find_crlf_line: "plain x \<Longrightarrow> find_crlf (x @ crlf @ s) = Some (length x)"
  by (induction x) (auto simp: find_crlf_Cons crlf_def)

lemma split_crlf_plain: "plain x \<Longrightarrow> split_crlf x = [x]"
  by (simp add: split_crlf.simps [of x] find_crlf_plain)

lemma split_crlf_line: "plain x \<Longrightarrow> split_crlf (x @ crlf @ s) = x # split_crlf s"
  by (subst split_crlf.simps) (simp add: find_crlf_line)

lemma split_crlf_block:
  "ls \<noteq> [] \<Longrightarrow> list_all plain ls \<Longrightarrow> split_crlf (take (length (block ls) - 4) (block ls)) = ls"
proof (induction ls)
  case (Cons x ls)
  show ?case
  proof (cases ls)
    case Nil
    with Cons.prems show ?thesis by (simp add: split_crlf_plain)
  next
    case (Cons y ys)
    have "length (block (x # ls)) - 4 = length x + (2 + (length (block ls) - 4))"
      using length_block [of ys] by (simp add: Cons)
    then have "take (length (block (x # ls)) - 4) (block (x # ls)) = x @ crlf @ take (length (block ls) - 4) (block ls)"
      by (simp add: Cons)
    with Cons.IH Cons.prems Cons show ?thesis by (simp add: split_crlf_line)
  qed
qed simp

lemma position_append: "d \<notin> set x \<Longrightarrow> position d (x @ d # s) = Some (length x)"
  by (induction x) auto

section \<open>The head\<close>

definition version_text :: "http1_version \<Rightarrow> string" where
  "version_text v = (case v of Http10 \<Rightarrow> ''HTTP/1.0'' | Http11 \<Rightarrow> ''HTTP/1.1'')"

definition status_digits :: "u16 \<Rightarrow> string" where
  "status_digits c = (let n = unat c in [digit (n div 100), digit (n div 10 mod 10), digit (n mod 10)])"

definition status_line :: "http1_response \<Rightarrow> string" where
  "status_line r = version_text (hr_version r) @ '' '' @ status_digits (hr_status_code r) @ '' '' @ hr_reason r"

definition field_line :: "http1_header \<Rightarrow> string" where
  "field_line h = hh_name h @ '': '' @ hh_value h"

lemma field_byte_plain: "list_all is_field_byte s \<Longrightarrow> plain s"
  by (induction s) (auto simp: is_field_byte_def byte_def)

lemma token_byte_field: "is_token_byte c \<Longrightarrow> is_field_byte c \<and> \<not> is_ows c \<and> c \<noteq> CHR '':''"
  by (auto simp: is_token_byte_def is_field_byte_def is_ows_def byte_class_defs byte_def)

lemma field_line_plain: "field_ok l h \<Longrightarrow> field_line h \<noteq> [] \<and> plain (field_line h)"
proof -
  assume h: "field_ok l h"
  have "list_all is_field_byte (hh_name h)" using h token_byte_field by (auto simp: field_ok_def list_all_iff)
  then have "plain (hh_name h)" by (rule field_byte_plain)
  moreover have "plain (hh_value h)" using h by (auto simp: field_ok_def intro: field_byte_plain)
  ultimately show ?thesis by (simp add: field_line_def)
qed

lemma parse_field_line:
  assumes "field_ok l h" "trailers \<longrightarrow> \<not> is_prohibited_trailer (hh_name h)"
  shows "parse_header_line l trailers (field_line h) = Inr h"
proof -
  have n: "hh_name h \<noteq> []" "list_all is_token_byte (hh_name h)" using assms(1) by (simp_all add: field_ok_def)
  have c: "CHR '':'' \<notin> set (hh_name h)" using n(2) token_byte_field by (auto simp: list_all_iff)
  have o: "\<not> is_ows (hd (hh_name h))" using n token_byte_field by (cases "hh_name h") auto
  have p: "position (CHR '':'') (field_line h) = Some (length (hh_name h))"
    using position_append [OF c, of "'' '' @ hh_value h"] by (simp add: field_line_def)
  have t: "trim_ows (CHR '' '' # hh_value h) = hh_value h"
    using assms(1) by (simp add: field_ok_def trim_ows_def is_ows_def)
  show ?thesis
    using assms n o p t by (auto simp: parse_header_line_def field_line_def Let_def field_ok_def validate_field_value_def)
qed

lemma parse_field_lines:
  assumes "list_all (field_ok l) hs" "length hs \<le> unat (if trailers then hm_trailer_count l else hm_header_count l)"
    "trailers \<longrightarrow> list_all (\<lambda>h. \<not> is_prohibited_trailer (hh_name h)) hs"
  shows "parse_header_lines (map field_line hs) l trailers = Inr hs"
proof -
  have "collect_r (map (parse_header_line l trailers) (map field_line hs)) = Inr hs"
    using assms(1,3) by (induction hs) (auto simp: parse_field_line)
  with assms(2) show ?thesis by (simp add: parse_header_lines_def)
qed

definition status_ok :: "http1_response \<Rightarrow> bool" where
  "status_ok r \<longleftrightarrow> 200 \<le> hr_status_code r \<and> hr_status_code r \<le> 999 \<and> list_all is_field_byte (hr_reason r)
     \<and> CHR 0x09 \<notin> set (hr_reason r)"

lemma status_digits_read:
  assumes "c \<le> 999"
  shows "of_nat (digit_value (status_digits c ! 0)) * 100 + of_nat (digit_value (status_digits c ! 1)) * 10
    + of_nat (digit_value (status_digits c ! 2)) = c"
    and "list_all is_ascii_digit (status_digits c)" and "length (status_digits c) = 3"
proof -
  have n: "unat c \<le> 999" using assms by (simp add: word_le_nat_alt)
  then have d: "unat c div 100 < 10" by simp
  have "k = k div 100 * 100 + k div 10 mod 10 * 10 + k mod 10" for k :: nat
  proof -
    have "k div 100 = k div 10 div 10" by (simp add: div_mult2_eq [symmetric])
    moreover have "k div 10 = k div 10 div 10 * 10 + k div 10 mod 10" "k = k div 10 * 10 + k mod 10" by simp_all
    ultimately show ?thesis by linarith
  qed
  from arg_cong [OF this, of "of_nat :: nat \<Rightarrow> u16" "unat c"]
  have "c = of_nat (unat c div 100 * 100 + unat c div 10 mod 10 * 10 + unat c mod 10)" by simp
  then show "of_nat (digit_value (status_digits c ! 0)) * 100 + of_nat (digit_value (status_digits c ! 1)) * 10
    + of_nat (digit_value (status_digits c ! 2)) = c"
    using d by (simp add: status_digits_def Let_def)
  show "list_all is_ascii_digit (status_digits c)" "length (status_digits c) = 3"
    using d by (simp_all add: status_digits_def Let_def digit_is_digit)
qed

lemma status_line_plain:
  assumes "status_ok r"
  shows "status_line r \<noteq> []" "plain (status_line r)" "CHR 0x09 \<notin> set (status_line r)"
proof -
  have "list_all is_ascii_digit (status_digits (hr_status_code r))" using status_digits_read(2) assms by (simp add: status_ok_def)
  then have d: "list_all is_field_byte (status_digits (hr_status_code r))" "CHR 0x09 \<notin> set (status_digits (hr_status_code r))"
    by (auto simp: list_all_iff is_field_byte_def is_ascii_digit_def byte_def)
  show "status_line r \<noteq> []" by (simp add: status_line_def)
  show "plain (status_line r)"
    using field_byte_plain [OF d(1)] assms field_byte_plain [of "hr_reason r"]
    by (simp add: status_line_def status_ok_def version_text_def split: http1_version.split)
  show "CHR 0x09 \<notin> set (status_line r)"
    using d(2) assms by (simp add: status_line_def status_ok_def version_text_def split: http1_version.split)
qed

lemma parse_status_line_text:
  assumes "status_ok r"
  shows "parse_status_line (status_line r) = Inr (hr_version r, hr_status_code r, hr_reason r)"
proof -
  let ?d = "status_digits (hr_status_code r)" and ?v = "version_text (hr_version r)"
  have c: "hr_status_code r \<le> 999" "200 \<le> hr_status_code r" using assms by (simp_all add: status_ok_def)
  obtain a b e where d: "?d = [a, b, e]" using status_digits_read(3) [OF c(1)] by (auto simp: length_Suc_conv numeral_eq_Suc)
  have "CHR '' '' \<notin> set ?v" by (simp add: version_text_def split: http1_version.split)
  from position_append [OF this] have p: "position (CHR '' '') (status_line r) = Some (length ?v)" by (simp add: status_line_def)
  have "\<not> (hr_status_code r < 100 \<or> hr_status_code r > 999)" using c by (auto simp: not_less word_le_nat_alt)
  then show ?thesis
    using status_line_plain(3) [OF assms] p status_digits_read [OF c(1)] assms
    by (cases "hr_version r")
      (simp_all add: parse_status_line_def status_line_def d Let_def version_text_def status_ok_def validate_reason_phrase_def)
qed

section \<open>Chunks\<close>

fun hex_size :: "nat \<Rightarrow> string" where
  "hex_size n = (if n < 16 then [hex_digit n] else hex_size (n div 16) @ [hex_digit (n mod 16)])"

declare hex_size.simps [simp del]

definition render_chunk :: "string \<Rightarrow> string" where
  "render_chunk d = hex_size (length d) @ crlf @ d @ crlf"

lemma hex_digit_ok: "n < 16 \<Longrightarrow> is_ascii_hexdigit (hex_digit n) \<and> hex_value (hex_digit n) = n"
  by (auto simp: hex_digit_def hex_value_def is_ascii_hexdigit_def is_ascii_digit_def byte_class_defs)

lemma hexdigit_plain: "is_ascii_hexdigit c \<Longrightarrow> byte c < 128 \<and> c \<noteq> CHR '';'' \<and> c \<noteq> CHR 0x0D \<and> c \<noteq> CHR 0x0A"
  by (auto simp: is_ascii_hexdigit_def is_ascii_digit_def byte_class_defs byte_def)

lemma hex_size_read: "read_hex (hex_size n) = n \<and> list_all is_ascii_hexdigit (hex_size n) \<and> hex_size n \<noteq> []"
proof (induction n rule: hex_size.induct)
  case (1 n)
  then show ?case
    by (cases "n < 16") (simp_all add: hex_size.simps [of n] read_hex_def hex_digit_ok)
qed

lemma hex_size_length: "n < 16 ^ Suc k \<Longrightarrow> length (hex_size n) \<le> Suc k"
proof (induction k arbitrary: n)
  case (Suc k)
  then have "n div 16 < 16 ^ Suc k" by (simp add: less_mult_imp_div_less mult.commute)
  from Suc.IH [OF this] show ?case by (subst hex_size.simps) simp
qed (simp add: hex_size.simps)

lemma valid_utf8_ascii: "(\<And>c. c \<in> set s \<Longrightarrow> byte c < 128) \<Longrightarrow> valid_utf8 s"
  by (induction s) auto

lemma hex_size_plain: "plain (hex_size n)" "valid_utf8 (hex_size n)" "CHR '';'' \<notin> set (hex_size n)"
proof -
  have h: "\<And>c. c \<in> set (hex_size n) \<Longrightarrow> is_ascii_hexdigit c" using hex_size_read [of n] by (auto simp: list_all_iff)
  show "plain (hex_size n)" unfolding plain_def using h hexdigit_plain by blast
  show "valid_utf8 (hex_size n)" using h hexdigit_plain by (intro valid_utf8_ascii) blast
  show "CHR '';'' \<notin> set (hex_size n)" using h hexdigit_plain by blast
qed

lemma parse_hex_size:
  assumes "n < 2 ^ 64"
  shows "parse_chunk_size (hex_size n) = Inr (of_nat n)"
proof -
  have "length (hex_size n) \<le> 16" using hex_size_length [of n 15] assms by simp
  then show ?thesis
    using hex_size_read [of n] hex_size_plain [of n] assms by (simp add: parse_chunk_size_def parse_hex_u64_def)
qed

definition chunk_ok :: "http1_limits \<Rightarrow> string \<Rightarrow> bool" where
  "chunk_ok l d \<longleftrightarrow> d \<noteq> [] \<and> length d \<le> unat (hm_chunk_bytes l)"

lemma admit_chunk_ok:
  assumes "chunk_ok l d" "n + length d \<le> unat (hm_response_body_bytes l)" "chunks \<le> hm_chunk_count l"
    "cursor + length d + 2 < 2 ^ 64"
  shows "admit_chunk l cursor n chunks (of_nat (length d)) = Inr (cursor + length d)"
proof -
  have u: "unat (of_nat (length d) :: u64) = length d" "unat (of_nat n :: u64) = n"
    using assms(2) unat_bounds(4) [of "hm_response_body_bytes l"] by (simp_all add: unat_of_nat)
  have "\<not> chunks > hm_chunk_count l" using assms(3) by simp
  moreover have "\<not> (of_nat (length d) :: u64) > hm_chunk_bytes l"
    using assms(1) by (simp add: chunk_ok_def word_less_nat_alt u)
  moreover have "\<not> saturating_add (of_nat n) (of_nat (length d)) > hm_response_body_bytes l"
    using assms(2) by (simp add: word_less_nat_alt unat_saturating_add u)
  ultimately show ?thesis using assms(4) by (simp add: admit_chunk_def checked_add_usize_def u)
qed

lemma parse_rendered_chunks:
  "list_all (chunk_ok l) cs \<Longrightarrow> length decoded + length (concat cs) \<le> unat (hm_response_body_bytes l) \<Longrightarrow>
   unat chunks + length cs \<le> unat (hm_chunk_count l) \<Longrightarrow> cursor + length (concat (map render_chunk cs)) < 2 ^ 64 \<Longrightarrow>
   \<exists>chunks'. parse_chunks l eof (concat (map render_chunk cs) @ t) cursor decoded chunks =
     parse_chunks l eof t (cursor + length (concat (map render_chunk cs))) (decoded @ concat cs) chunks'"
proof (induction cs arbitrary: cursor decoded chunks)
  case (Cons d cs)
  let ?x = "hex_size (length d)" and ?n = "of_nat (length d) :: u64"
  let ?s = "?x @ crlf @ d @ crlf @ concat (map render_chunk cs) @ t"
  have d: "chunk_ok l d" "length d < 2 ^ 64" using Cons.prems by (simp_all add: render_chunk_def [of d])
  then have n: "?n \<noteq> 0" "unat ?n = length d" by (auto simp: chunk_ok_def unat_of_nat word_unat_eq_iff)
  have u: "unat (saturating_add chunks 1) = Suc (unat chunks)"
    using Cons.prems(3) unat_bounds(4) [of "hm_chunk_count l"] by (simp add: unat_saturating_add)
  then have c: "saturating_add chunks 1 \<le> hm_chunk_count l" using Cons.prems(3) by (simp add: word_le_nat_alt)
  have a: "admit_chunk l (cursor + length ?x + 2) (length decoded) (saturating_add chunks 1) ?n
      = Inr (cursor + length ?x + 2 + length d)"
    using Cons.prems by (intro admit_chunk_ok d(1) c) (simp_all add: render_chunk_def [of d])
  have f: "find_crlf ?s = Some (length ?x)" by (rule find_crlf_line) (rule hex_size_plain)
  have "parse_chunks l eof ?s cursor decoded chunks =
      parse_chunks l eof (concat (map render_chunk cs) @ t) (cursor + length ?x + 2 + length d + 2) (decoded @ d) (saturating_add chunks 1)"
    by (rule parse_chunks_step [OF f _ n(1) a]) (simp_all add: parse_hex_size [OF d(2)] n)
  moreover have "\<exists>chunks'. parse_chunks l eof (concat (map render_chunk cs) @ t) (cursor + length ?x + 2 + length d + 2) (decoded @ d)
      (saturating_add chunks 1) = parse_chunks l eof t
        (cursor + length ?x + 2 + length d + 2 + length (concat (map render_chunk cs))) ((decoded @ d) @ concat cs) chunks'"
    using Cons.prems u by (intro Cons.IH) (simp_all add: render_chunk_def [of d])
  ultimately show ?case by (simp add: render_chunk_def [of d] add.commute add.left_commute)
qed auto

lemma parse_rendered_end:
  assumes "list_all (field_ok l) ts" "length ts \<le> unat (hm_trailer_count l)" "list_all (\<lambda>h. \<not> is_prohibited_trailer (hh_name h)) ts"
    "length (block (map field_line ts)) \<le> unat (hm_trailer_bytes l)"
  shows "parse_chunks l eof (''0'' @ crlf @ block (map field_line ts) @ q) cursor decoded chunks =
    Inr (Some \<lparr>pb_body = decoded, pb_trailers = ts, pb_consumed = cursor + 3 + length (block (map field_line ts))\<rparr>)"
proof -
  let ?b = "block (map field_line ts)"
  have "find_crlf (''0'' @ crlf @ ?b @ q) = Some 1" using find_crlf_line [of "''0''" "?b @ q"] by simp
  moreover have "parse_chunk_size ''0'' = Inr 0" by code_simp
  ultimately have e: "parse_chunks l eof (''0'' @ crlf @ ?b @ q) cursor decoded chunks = parse_chunk_end l eof (?b @ q) (cursor + 3) decoded"
    by (subst parse_chunks.simps) (simp add: crlf_def numeral_eq_Suc)
  show ?thesis
  proof (cases ts)
    case Nil
    then show ?thesis unfolding e by (simp add: parse_chunk_end_def)
  next
    case (Cons t ts')
    have p: "map field_line ts \<noteq> []" "list_all (\<lambda>x. x \<noteq> [] \<and> plain x) (map field_line ts)"
      using assms(1) field_line_plain by (auto simp: Cons list_all_iff)
    then have p': "list_all plain (map field_line ts)" by (auto simp: list_all_iff)
    have "hd ?b \<noteq> CHR 0x0D" using p by (cases "field_line t") (auto simp: Cons)
    then have "take 2 (?b @ q) \<noteq> crlf" using p length_block [of "map field_line ts"] by (cases ?b) (auto simp: crlf_def numeral_eq_Suc)
    moreover have "parse_header_lines (map field_line ts) l True = Inr ts"
      using assms by (intro parse_field_lines) auto
    moreover have "\<not> length ?b + length q < 2" using length_block [of "map field_line ts"] by simp
    ultimately show ?thesis unfolding e
      using find_double_crlf_block [OF p, of q] check_crlf_block [OF p', of None] split_crlf_block [OF p(1) p'] assms(4)
      by (simp add: parse_chunk_end_def validate_crlf_block_def del: block_simps)
  qed
qed

section \<open>Responses\<close>

text \<open>A response as a server writes it, its body in the given chunks where the framing is chunked.\<close>

definition head_block :: "http1_response \<Rightarrow> string" where
  "head_block r = block (status_line r # map field_line (hr_headers r))"

definition body_wire :: "http1_response \<Rightarrow> string list \<Rightarrow> string" where
  "body_wire r chunks =
     (case hr_framing r of
        NoBody \<Rightarrow> [] | ContentLength _ \<Rightarrow> hr_body r | ConnectionClose \<Rightarrow> hr_body r
      | Chunked \<Rightarrow> concat (map render_chunk chunks) @ ''0'' @ crlf @ block (map field_line (hr_trailers r)))"

definition render_response :: "http1_response \<Rightarrow> string list \<Rightarrow> string" where
  "render_response r chunks = head_block r @ body_wire r chunks"

text \<open>Within the limits, with a body that fits the framing its fields declare.\<close>

definition body_writable :: "http1_limits \<Rightarrow> http1_response \<Rightarrow> string list \<Rightarrow> bool" where
  "body_writable l r chunks \<longleftrightarrow>
     length (hr_body r) \<le> unat (hm_response_body_bytes l)
     \<and> (case hr_framing r of
          NoBody \<Rightarrow> hr_body r = [] \<and> hr_trailers r = []
        | ContentLength n \<Rightarrow> length (hr_body r) = unat n \<and> hr_trailers r = []
        | ConnectionClose \<Rightarrow> hr_trailers r = []
        | Chunked \<Rightarrow> concat chunks = hr_body r \<and> list_all (chunk_ok l) chunks \<and> length chunks \<le> unat (hm_chunk_count l)
            \<and> list_all (field_ok l) (hr_trailers r) \<and> length (hr_trailers r) \<le> unat (hm_trailer_count l)
            \<and> list_all (\<lambda>h. \<not> is_prohibited_trailer (hh_name h)) (hr_trailers r)
            \<and> length (block (map field_line (hr_trailers r))) \<le> unat (hm_trailer_bytes l)
            \<and> length (body_wire r chunks) < 2 ^ 64)"

definition writable :: "http1_limits \<Rightarrow> string \<Rightarrow> http1_response \<Rightarrow> string list \<Rightarrow> bool" where
  "writable l m r chunks \<longleftrightarrow>
     status_ok r \<and> list_all (field_ok l) (hr_headers r) \<and> length (hr_headers r) \<le> unat (hm_header_count l)
     \<and> length (head_block r) \<le> unat (hm_response_header_bytes l)
     \<and> hr_interim_responses r = 0
     \<and> determine_framing m (hr_version r) (hr_status_code r) (hr_headers r) = Inr (hr_framing r)
     \<and> body_writable l r chunks"

lemma parse_rendered_head:
  assumes "writable l m r chunks"
  shows "parse_head l eof (head_block r @ q) =
    Inr (Some (length (head_block r), (hr_version r, hr_status_code r, hr_reason r), hr_headers r))"
proof -
  let ?ls = "status_line r # map field_line (hr_headers r)"
  have s: "status_ok r" using assms by (simp add: writable_def)
  have p: "?ls \<noteq> []" "list_all (\<lambda>x. x \<noteq> [] \<and> plain x) ?ls"
    using assms field_line_plain status_line_plain [OF s] by (auto simp: writable_def list_all_iff)
  then have p': "list_all plain ?ls" by (auto simp: list_all_iff)
  have "parse_header_lines (map field_line (hr_headers r)) l False = Inr (hr_headers r)"
    using assms by (intro parse_field_lines) (auto simp: writable_def)
  then show ?thesis
    using find_double_crlf_block [OF p, of q] check_crlf_block [OF p', of None] split_crlf_block [OF p(1) p']
      assms parse_status_line_text [OF s]
    by (simp add: parse_head_def head_block_def validate_crlf_block_def writable_def del: block_simps)
qed

lemma parse_rendered_body:
  assumes "body_writable l r chunks" "hr_framing r = ConnectionClose \<longrightarrow> eof \<and> q = []"
  shows "parse_body l eof (hr_framing r) (body_wire r chunks @ q) =
    Inr (Some \<lparr>pb_body = hr_body r, pb_trailers = hr_trailers r, pb_consumed = length (body_wire r chunks)\<rparr>)"
proof (cases "hr_framing r")
  case Chunked
  let ?cs = "concat (map render_chunk chunks)" and ?t = "''0'' @ crlf @ block (map field_line (hr_trailers r))"
  have w: "body_wire r chunks = ?cs @ ?t" by (simp add: body_wire_def Chunked)
  obtain n where "parse_chunks l eof (?cs @ ?t @ q) 0 [] 0 = parse_chunks l eof (?t @ q) (length ?cs) (hr_body r) n"
    using parse_rendered_chunks [of l chunks "[]" 0 0 eof "?t @ q"] assms(1) by (auto simp: body_writable_def Chunked w)
  moreover have "parse_chunks l eof (?t @ q) (length ?cs) (hr_body r) n = Inr (Some \<lparr>pb_body = hr_body r,
      pb_trailers = hr_trailers r, pb_consumed = length ?cs + 3 + length (block (map field_line (hr_trailers r)))\<rparr>)"
    using parse_rendered_end [of l "hr_trailers r" eof q] assms(1) by (simp add: body_writable_def Chunked)
  ultimately show ?thesis by (simp add: parse_body_def Chunked parse_chunked_def w)
qed (use assms in \<open>auto simp: parse_body_def body_wire_def body_writable_def word_less_nat_alt\<close>)

lemma rendered_response_parsed:
  assumes "writable l m r chunks" "hr_framing r = ConnectionClose \<longrightarrow> eof \<and> q = []"
  shows "parse_response (render_response r chunks @ q) eof m l = Inr (Complete r (length (render_response r chunks)))"
proof -
  note h = parse_rendered_head [OF assms(1), of eof "body_wire r chunks @ q"]
  have c: "\<not> (100 \<le> hr_status_code r \<and> hr_status_code r < 200)"
    using assms(1) by (auto simp: writable_def status_ok_def word_le_nat_alt word_less_nat_alt)
  have f: "determine_framing m (hr_version r) (hr_status_code r) (hr_headers r) = Inr (hr_framing r)"
    "body_writable l r chunks" "hr_interim_responses r = 0" using assms(1) by (simp_all add: writable_def)
  show ?thesis
    using parse_from_final [OF h c, of m 0 0] f parse_rendered_body [OF f(2) assms(2)]
    by (simp add: parse_response_def render_response_def)
qed

text \<open>
  C20: the parser reads back every response a server writes within the limits: a final response whose
  fields declare its framing, with a body of that framing (in any chunks, with any allowed trailers),
  is returned as it was written together with its length on the wire, whatever bytes follow it; a body
  that ends with the connection is returned when the connection has ended.
\<close>

theorem response_round_trip:
  assumes "writable l m r chunks" "hr_framing r = ConnectionClose \<longrightarrow> eof \<and> q = []"
  shows "parse_response (render_response r chunks @ q) eof m l = Inr (Complete r (length (render_response r chunks)))"
  using assms by (rule rendered_response_parsed)

definition chunked_response :: http1_response where
  "chunked_response =
     \<lparr>hr_version = Http11, hr_status_code = 200, hr_reason = ''OK'',
      hr_headers = [\<lparr>hh_name = ''transfer-encoding'', hh_value = ''chunked''\<rparr>],
      hr_trailers = [\<lparr>hh_name = ''x-sum'', hh_value = ''9''\<rparr>], hr_body = ''hello world'',
      hr_framing = Chunked, hr_interim_responses = 0\<rparr>"

lemma chunked_response_writable: "writable http1_conservative_default ''GET'' chunked_response [''hello'', '' world'']"
  by code_simp

theorem response_round_trip_witness:
  "parse_response (render_response chunked_response [''hello'', '' world''] @ ''next'') False ''GET'' http1_conservative_default
     = Inr (Complete chunked_response (length (render_response chunked_response [''hello'', '' world''])))"
  by (rule response_round_trip [OF chunked_response_writable]) (simp add: chunked_response_def)

end
