(* ===== verification/Http1_Request.thy ===== *)
theory Http1_Request
  imports Http1_Round_Trip
begin

text \<open>
  The requests of \<open>nxb-http1\<close> (\<open>codec.rs\<close>): validation and serialization. A request is written twice,
  as it goes to the wire and as it is hashed for the audit, where a secret header shows its length only.
\<close>

section \<open>Validation\<close>

definition validate_method :: "string \<Rightarrow> http1_error + unit" where
  "validate_method m =
     (if m = [] \<or> length m > 32 \<or> \<not> list_all is_token_byte m \<or> \<not> list_all (\<lambda>c. \<not> is_ascii_lowercase c) m
         \<or> m = ''CONNECT'' then
        Inl (InvalidRequest ''method must be an uppercase token and CONNECT is unsupported'')
      else Inr ())"

definition validate_target :: "string \<Rightarrow> string \<Rightarrow> http1_error + unit" where
  "validate_target m target =
     (if target = [] \<or> length target > 8 * 1024 \<or> list_ex (\<lambda>c. is_ascii_control c \<or> c = CHR '' '') target
         \<or> CHR ''#'' \<in> set target \<or> prefix ''http://'' target \<or> prefix ''https://'' target \<or> prefix ''//'' target then
        Inl (InvalidRequest ''request target must be bounded origin-form without fragment'')
      else if target = ''*'' then
        (if m \<noteq> ''OPTIONS'' then Inl (InvalidRequest ''asterisk-form is allowed only for OPTIONS'') else Inr ())
      else if \<not> prefix ''/'' target then Inl (InvalidRequest ''request target must use origin-form'')
      else Inr ())"

definition validate_request_header :: "http1_header \<Rightarrow> http1_limits \<Rightarrow> http1_error + string" where
  "validate_request_header h l =
     (if hh_name h = [] \<or> length (hh_name h) > unat (hm_header_name_bytes l) \<or> \<not> list_all is_token_byte (hh_name h) then
        Inl (InvalidRequest ''request header name is invalid'')
      else if length (hh_value h) > unat (hm_header_value_bytes l) \<or> \<not> list_all is_field_byte (hh_value h) then
        Inl (InvalidRequest ''request header value is invalid'')
      else Inr (to_ascii_lowercase (hh_name h)))"

definition is_managed_request_header :: "string \<Rightarrow> bool" where
  "is_managed_request_header name \<longleftrightarrow>
     name \<in> set [''host'', ''content-length'', ''transfer-encoding'', ''connection'', ''proxy-connection'', ''expect'',
       ''upgrade'', ''trailer'', ''te'']"

definition is_sensitive_request_header :: "string \<Rightarrow> bool" where
  "is_sensitive_request_header name \<longleftrightarrow>
     name \<in> set [''authorization'', ''proxy-authorization'', ''cookie'', ''x-api-key'', ''x-csrf-token'']"

definition authority_malformed :: "string \<Rightarrow> bool" where
  "authority_malformed a \<longleftrightarrow>
     a = [] \<or> list_ex (\<lambda>c. is_ascii_control c \<or> c = CHR '' '' \<or> c \<in> set ''/@'' \<or> byte c = 92) a"

section \<open>Serialization\<close>

record serialized_request =
  zr_wire :: string
  zr_redacted_audit_wire :: string
  zr_header_count :: u64
  zr_secret_header_count :: u64
  zr_secret_lease_fingerprint :: "string option"

definition request_prefix :: "http1_request \<Rightarrow> string \<Rightarrow> string" where
  "request_prefix q authority =
     hq_method q @ '' '' @ hq_target q @ '' HTTP/1.1'' @ crlf @ ''Host: '' @ authority @ crlf"

definition header_line :: "string \<Rightarrow> string \<Rightarrow> string" where
  "header_line name value = name @ '': '' @ value @ crlf"

text \<open>One turn of the loop over the caller's headers: the name and value to append.\<close>

definition public_header :: "http1_limits \<Rightarrow> http1_header \<Rightarrow> http1_error + string \<times> string" where
  "public_header l h =
     bind_r (validate_request_header h l) (\<lambda>name.
     if is_managed_request_header name then
       Inl (InvalidRequest (''caller cannot supply managed header: '' @ name))
     else if is_sensitive_request_header name then
       Inl (InvalidRequest (''caller cannot supply vault-managed header: '' @ name))
     else Inr (name, hh_value h))"

definition check_header_count :: "http1_limits \<Rightarrow> nat \<Rightarrow> http1_error + unit" where
  "check_header_count l n =
     (if n > unat (hm_header_count l) then Inl (InvalidRequest ''request header count exceeds configured limit'')
      else Inr ())"

text \<open>
  The secret headers of a lease: the lease, which the attempt uses up, and the two wires extended, the
  number of headers and the fingerprint. The names of the public headers are visited in their order.
\<close>

definition secret_headers ::
  "http1_limits \<Rightarrow> string \<Rightarrow> string \<Rightarrow> (string \<times> string) list \<Rightarrow> secret_header_lease \<Rightarrow> i64 \<Rightarrow> string \<Rightarrow> string
     \<Rightarrow> secret_header_lease \<times> (http1_error + string \<times> string \<times> nat \<times> string)" where
  "secret_headers l authority scheme public lease now wire redacted =
     (case take_for lease authority scheme now of
        (lease, Inl err) \<Rightarrow> (lease, Inl (SecretHeaders err))
      | (lease, Inr batch) \<Rightarrow>
          (lease,
           case find (batch_contains_name batch) (sorted_list_of_fset (fset_of_list (map fst public))) of
             Some name \<Rightarrow> Inl (InvalidRequest (''public and secret headers collide: '' @ name))
           | None \<Rightarrow>
               bind_r (check_header_count l (length public + length (hb_headers batch) + 3)) (\<lambda>_.
               case append_http1 batch wire redacted of
                 (_, _, _, Inl err) \<Rightarrow> Inl (SecretHeaders err)
               | (_, wire, redacted, Inr _) \<Rightarrow>
                   Inr (wire, redacted, length (hb_headers batch), hb_lease_fingerprint batch))))"

text \<open>The managed headers at the end of both wires.\<close>

definition closing_headers :: "http1_request \<Rightarrow> string" where
  "closing_headers q =
     header_line ''Content-Length'' (decimal (length (hq_body q))) @ header_line ''Connection'' ''close'' @ crlf"

definition finish_request ::
  "http1_limits \<Rightarrow> http1_request \<Rightarrow> string \<Rightarrow> string \<Rightarrow> nat \<Rightarrow> string option \<Rightarrow> http1_error + serialized_request" where
  "finish_request l q wire redacted secrets fingerprint =
     (let wire = wire @ closing_headers q; redacted = redacted @ closing_headers q in
      if length wire > unat (hm_request_header_bytes l) then
        Inl (InvalidRequest ''request header block exceeds configured limit'')
      else Inr
        \<lparr>zr_wire = wire @ hq_body q, zr_redacted_audit_wire = redacted @ hq_body q,
         zr_header_count = of_nat (length (hq_headers q) + secrets + 3), zr_secret_header_count = of_nat secrets,
         zr_secret_lease_fingerprint = fingerprint\<rparr>)"

text \<open>The checks before any output, and the public part of both wires.\<close>

definition public_wire ::
  "http1_limits \<Rightarrow> http1_request \<Rightarrow> string \<Rightarrow> http1_error + string \<times> (string \<times> string) list" where
  "public_wire l q authority =
     bind_r (validate_method (hq_method q)) (\<lambda>_.
     bind_r (validate_target (hq_method q) (hq_target q)) (\<lambda>_.
     if authority_malformed authority then Inl (InvalidRequest ''stream authority is malformed'')
     else if length (hq_body q) > unat (hm_request_body_bytes l) then
       Inl (InvalidRequest ''request body exceeds configured limit'')
     else
       bind_r (collect_r (map (public_header l) (hq_headers q))) (\<lambda>public.
       Inr (request_prefix q authority @ concat (map (\<lambda>(name, value). header_line name value) public), public))))"

definition serialize_request ::
  "http1_request \<Rightarrow> string \<Rightarrow> string \<Rightarrow> http1_limits \<Rightarrow> (secret_header_lease \<times> i64) option
     \<Rightarrow> secret_header_lease option \<times> (http1_error + serialized_request)" where
  "serialize_request q authority scheme l secrets =
     (case public_wire l q authority of
        Inl err \<Rightarrow> (map_option fst secrets, Inl err)
      | Inr (wire, public) \<Rightarrow>
          (case secrets of
             None \<Rightarrow>
               (None, bind_r (check_header_count l (length (hq_headers q) + 3)) (\<lambda>_. finish_request l q wire wire 0 None))
           | Some (lease, now) \<Rightarrow>
               (case secret_headers l authority scheme public lease now wire wire of
                  (lease, r) \<Rightarrow>
                    (Some lease, bind_r r (\<lambda>(wire, redacted, n, fingerprint).
                       finish_request l q wire redacted n (Some fingerprint))))))"

section \<open>What goes to the wire\<close>

text \<open>The header fields of a request in their order, with the secret ones given.\<close>

definition request_line :: "http1_request \<Rightarrow> string" where
  "request_line q = hq_method q @ '' '' @ hq_target q @ '' HTTP/1.1''"

definition request_fields :: "http1_request \<Rightarrow> string \<Rightarrow> (string \<times> string) list \<Rightarrow> (string \<times> string) list \<Rightarrow> (string \<times> string) list" where
  "request_fields q authority public secrets =
     (''Host'', authority) # public @ secrets @ [(''Content-Length'', decimal (length (hq_body q))), (''Connection'', ''close'')]"

definition field_text :: "string \<times> string \<Rightarrow> string" where
  "field_text f = fst f @ '': '' @ snd f"

definition field_values :: "string \<Rightarrow> (string \<times> string) list \<Rightarrow> string list" where
  "field_values name fs = map snd (filter (\<lambda>f. to_ascii_lowercase (fst f) = name) fs)"

definition secret_pair :: "materialized_header \<Rightarrow> string \<times> string" where
  "secret_pair h = (mh_wire_name h, mh_value h)"

text \<open>In the audited form a secret value is replaced by its length.\<close>

definition redacted_pair :: "materialized_header \<Rightarrow> string \<times> string" where
  "redacted_pair h = (mh_wire_name h, ''<redacted:'' @ decimal (length (mh_value h)) @ ''>'')"

definition unmanaged_lease :: "secret_header_lease \<Rightarrow> bool" where
  "unmanaged_lease hl \<longleftrightarrow> list_all (\<lambda>h. \<not> is_managed_request_header (to_ascii_lowercase (mh_wire_name h))) (hl_headers hl)"

lemma block_append: "block (ls @ ms) = concat (map (\<lambda>x. x @ crlf) ls) @ block ms"
  by (simp add: block_def)

lemma header_lines_text: "concat (map (\<lambda>(name, value). header_line name value) fs) = concat (map (\<lambda>x. x @ crlf) (map field_text fs))"
  by (induction fs) (auto simp: header_line_def field_text_def)

lemma append_headers_wire:
  "append_headers hs wire redacted = (wire', redacted', Inr u) \<Longrightarrow>
   wire' = wire @ concat (map (\<lambda>x. x @ crlf) (map (field_text \<circ> secret_pair) hs))
   \<and> redacted' = redacted @ concat (map (\<lambda>x. x @ crlf) (map (field_text \<circ> redacted_pair) hs))
   \<and> list_all (\<lambda>h. mh_wire_name h \<noteq> [] \<and> list_all is_token_byte (mh_wire_name h) \<and> list_all is_field_byte (mh_value h)) hs"
proof (induction hs arbitrary: wire redacted)
  case (Cons h hs)
  from Cons.prems have v: "validate_header_name (mh_wire_name h) = Inr ()" "validate_header_value (mh_value h) = Inr ()"
    and "append_headers hs (wire @ secret_line h) (redacted @ redacted_line h) = (wire', redacted', Inr u)"
    by (auto split: sum.split_asm simp: bind_r_Inr bind_r_def)
  from Cons.IH [OF this(3)] v show ?case
    by (auto simp: secret_line_def redacted_line_def field_text_def secret_pair_def redacted_pair_def
        validate_header_name_def validate_header_value_def split: if_split_asm)
qed simp

text \<open>A serialized request is its line and its fields, closed by an empty line, and the body.\<close>

lemma public_wire_Inr:
  assumes "public_wire l q authority = Inr (w, public)"
  shows "w = request_prefix q authority @ concat (map (\<lambda>x. x @ crlf) (map field_text public))"
    "length public = length (hq_headers q)" "map (public_header l) (hq_headers q) = map Inr public"
    "validate_method (hq_method q) = Inr ()" "validate_target (hq_method q) (hq_target q) = Inr ()" "\<not> authority_malformed authority"
    "length (hq_body q) \<le> unat (hm_request_body_bytes l)"
  using assms
  by (auto simp: public_wire_def bind_r_Inr collect_r_Inr header_lines_text split: if_split_asm dest: map_eq_imp_length_eq)

lemma finish_request_Inr:
  assumes "finish_request l q wire redacted n fp = Inr z"
  shows "zr_wire z = wire @ closing_headers q @ hq_body q" "zr_redacted_audit_wire z = redacted @ closing_headers q @ hq_body q"
    "zr_header_count z = of_nat (length (hq_headers q) + n + 3)" "length (wire @ closing_headers q) \<le> unat (hm_request_header_bytes l)"
    "zr_secret_header_count z = of_nat n" "zr_secret_lease_fingerprint z = fp"
  using assms by (auto simp: finish_request_def Let_def split: if_split_asm)

lemma take_for_Inr:
  "take_for hl authority scheme now = (hl', Inr batch) \<Longrightarrow>
   batch = \<lparr>hb_lease_fingerprint = hl_fingerprint hl, hb_headers = hl_headers hl, hb_emitted = False\<rparr>
   \<and> \<not> hl_consumed hl \<and> hl_consumed hl' \<and> now < hl_expires_at hl"
  by (auto simp: take_for_def Let_def split: if_split_asm sum.split_asm bool.split_asm)

lemma secret_headers_Inr:
  assumes "secret_headers l authority scheme public hl now w r = (hl', Inr (wire, redacted, n, fp))"
  shows "n = length (hl_headers hl)" "check_header_count l (length public + length (hl_headers hl) + 3) = Inr ()"
    "append_headers (hl_headers hl) w r = (wire, redacted, Inr ())"
  using assms
  by (auto simp: secret_headers_def append_http1_def bind_r_Inr dest!: take_for_Inr
      split: prod.split_asm sum.split_asm option.split_asm)

lemma block_request:
  "block (request_line q # map field_text (request_fields q authority public secrets)) =
   request_prefix q authority @ concat (map (\<lambda>x. x @ crlf) (map field_text public))
     @ concat (map (\<lambda>x. x @ crlf) (map field_text secrets)) @ closing_headers q"
  by (simp add: request_fields_def block_append request_line_def request_prefix_def closing_headers_def header_line_def field_text_def)

lemma serialize_request_form:
  assumes "serialize_request q authority scheme l secrets = (lease', Inr z)"
  obtains public hs where
    "public_wire l q authority = Inr (request_prefix q authority @ concat (map (\<lambda>x. x @ crlf) (map field_text public)), public)"
    "zr_wire z = block (request_line q # map field_text (request_fields q authority public (map secret_pair hs))) @ hq_body q"
    "zr_redacted_audit_wire z = block (request_line q # map field_text (request_fields q authority public (map redacted_pair hs))) @ hq_body q"
    "length (block (request_line q # map field_text (request_fields q authority public (map secret_pair hs)))) \<le> unat (hm_request_header_bytes l)"
    "zr_header_count z = of_nat (length (request_fields q authority public (map secret_pair hs)))"
    "length (request_fields q authority public (map secret_pair hs)) \<le> unat (hm_header_count l)"
    "list_all (\<lambda>h. mh_wire_name h \<noteq> [] \<and> list_all is_token_byte (mh_wire_name h) \<and> list_all is_field_byte (mh_value h)) hs"
    "case secrets of None \<Rightarrow> hs = [] | Some (hl, _) \<Rightarrow> hs = hl_headers hl"
proof -
  obtain w public where pw: "public_wire l q authority = Inr (w, public)"
    using assms by (cases "public_wire l q authority") (auto simp: serialize_request_def)
  note w = public_wire_Inr [OF pw]
  define hs where "hs = (case secrets of None \<Rightarrow> [] | Some (hl, _) \<Rightarrow> hl_headers hl)"
  obtain wire redacted fingerprint where
    f: "finish_request l q wire redacted (length hs) fingerprint = Inr z"
    and c: "check_header_count l (length public + length hs + 3) = Inr ()"
    and wire: "wire = w @ concat (map (\<lambda>x. x @ crlf) (map (field_text \<circ> secret_pair) hs))"
      "redacted = w @ concat (map (\<lambda>x. x @ crlf) (map (field_text \<circ> redacted_pair) hs))"
    and ok: "list_all (\<lambda>h. mh_wire_name h \<noteq> [] \<and> list_all is_token_byte (mh_wire_name h) \<and> list_all is_field_byte (mh_value h)) hs"
  proof (cases secrets)
    case None
    then show thesis using assms pw w that [of w w None]
      by (auto simp: serialize_request_def bind_r_Inr hs_def)
  next
    case (Some sn)
    obtain hl now where sn: "secrets = Some (hl, now)" using Some by (cases sn) simp
    then obtain wire redacted n fp where
      s: "secret_headers l authority scheme public hl now w w = (the lease', Inr (wire, redacted, n, fp))"
      "finish_request l q wire redacted n (Some fp) = Inr z"
      using assms pw by (auto simp: serialize_request_def bind_r_Inr split: prod.split_asm)
    from secret_headers_Inr [OF s(1)] have "n = length (hl_headers hl)" and *: "check_header_count l (length public + length (hl_headers hl) + 3) = Inr ()"
      "append_headers (hl_headers hl) w w = (wire, redacted, Inr ())" by auto
    then show thesis using append_headers_wire [OF *(2)] s(2) that [of wire redacted "Some fp"] by (simp add: hs_def sn)
  qed
  have len: "length (request_fields q authority public (map f hs)) = length public + length hs + 3" for f :: "materialized_header \<Rightarrow> _"
    by (simp add: request_fields_def)
  have blk: "block (request_line q # map field_text (request_fields q authority public (map f hs)))
      = w @ concat (map (\<lambda>x. x @ crlf) (map (field_text \<circ> f) hs)) @ closing_headers q" for f
    unfolding block_request w(1) by (simp add: comp_assoc)
  show thesis
  proof (rule that [of public hs])
    show "public_wire l q authority = Inr (request_prefix q authority @ concat (map (\<lambda>x. x @ crlf) (map field_text public)), public)"
      using pw w(1) by simp
    show "case secrets of None \<Rightarrow> hs = [] | Some (hl, _) \<Rightarrow> hs = hl_headers hl" by (simp add: hs_def split: option.split)
    show "length (request_fields q authority public (map secret_pair hs)) \<le> unat (hm_header_count l)"
      using c by (simp add: len check_header_count_def split: if_split_asm)
  qed (use finish_request_Inr [OF f] w(2) ok in \<open>simp_all add: blk wire len del: block_simps\<close>)
qed

lemma control_plain: "\<not> list_ex (\<lambda>c. is_ascii_control c \<or> P c) s \<Longrightarrow> plain s"
  by (auto simp: list_ex_iff plain_def is_ascii_control_def byte_def)

lemma token_plain: "list_all is_token_byte s \<Longrightarrow> plain s"
  using token_byte_field by (intro field_byte_plain) (auto simp: list_all_iff)

lemma decimal_plain: "plain (decimal n)"
proof (induction n rule: decimal.induct)
  case (1 n)
  have "plain [digit k]" if "k < 10" for k using digit_is_digit [OF that] by (auto simp: is_ascii_digit_def byte_def)
  with 1 show ?case by (subst decimal.simps) auto
qed

lemma field_text_plain: "field_text f \<noteq> []" "plain (field_text f) \<longleftrightarrow> plain (fst f) \<and> plain (snd f)"
  by (auto simp: field_text_def)

lemma request_line_plain:
  assumes "validate_method (hq_method q) = Inr ()" "validate_target (hq_method q) (hq_target q) = Inr ()"
  shows "request_line q \<noteq> []" "plain (request_line q)"
proof -
  have "plain (hq_method q)" using assms(1) by (auto simp: validate_method_def split: if_split_asm intro: token_plain)
  moreover have "plain (hq_target q)" using assms(2) by (auto simp: validate_target_def split: if_split_asm intro: control_plain)
  ultimately show "request_line q \<noteq> []" "plain (request_line q)" by (simp_all add: request_line_def)
qed

lemma public_header_Inr:
  assumes "public_header l h = Inr (name, value)"
  shows "list_all is_token_byte name" "list_all is_field_byte value" "to_ascii_lowercase name = name"
    "\<not> is_managed_request_header name" "\<not> is_sensitive_request_header name"
  using assms
  by (auto simp: public_header_def validate_request_header_def bind_r_Inr to_ascii_lowercase_def list_all_iff is_token_byte_lower
      split: if_split_asm)

lemma public_fields_ok:
  assumes "public_wire l q authority = Inr (w, public)" "f \<in> set public"
  shows "list_all is_token_byte (fst f) \<and> list_all is_field_byte (snd f) \<and> \<not> is_managed_request_header (to_ascii_lowercase (fst f))
    \<and> \<not> is_sensitive_request_header (fst f)"
proof -
  have "Inr f \<in> set (map (public_header l) (hq_headers q))" unfolding public_wire_Inr(3) [OF assms(1)] using assms(2) by simp
  then obtain h where "public_header l h = Inr (fst f, snd f)" by auto
  from public_header_Inr [OF this] show ?thesis by simp
qed

lemma field_values_unmanaged:
  "is_managed_request_header name \<Longrightarrow> (\<And>f. f \<in> set fs \<Longrightarrow> \<not> is_managed_request_header (to_ascii_lowercase (fst f))) \<Longrightarrow>
   field_values name fs = []"
  by (auto simp: field_values_def filter_empty_conv)

lemma field_values_append: "field_values name (fs @ gs) = field_values name fs @ field_values name gs"
  by (simp add: field_values_def)

lemma lower_managed:
  "to_ascii_lowercase ''Host'' = ''host''" "to_ascii_lowercase ''Content-Length'' = ''content-length''"
  "to_ascii_lowercase ''Connection'' = ''connection''"
  by code_simp+

text \<open>
  C10: a serialized request cannot be read as anything else. A reader that cuts the wire at the first
  empty line and the lines at CRLF finds exactly the request line and the fields the codec meant, and
  after them exactly the body: nothing in the method, the target, the headers or the secrets adds a line.
  The one Host is the authority of the stream, the one Content-Length is the length of the body, there
  is no Transfer-Encoding, and the head is within its limits. (The headers of a secret lease are not
  managed ones; the vault does not accept such.)
\<close>

theorem request_framing_unambiguous:
  assumes "serialize_request q authority scheme l secrets = (lease', Inr z)"
    and "case secrets of None \<Rightarrow> True | Some (hl, _) \<Rightarrow> unmanaged_lease hl"
  shows "\<exists>n fields. find_double_crlf (zr_wire z) = Some n \<and> n \<le> unat (hm_request_header_bytes l) \<and> drop n (zr_wire z) = hq_body q
    \<and> split_crlf (take (n - 4) (zr_wire z)) = request_line q # map field_text fields
    \<and> length fields = unat (zr_header_count z) \<and> length fields \<le> unat (hm_header_count l)
    \<and> field_values ''host'' fields = [authority]
    \<and> field_values ''content-length'' fields = [decimal (length (hq_body q))]
    \<and> field_values ''connection'' fields = [''close''] \<and> field_values ''transfer-encoding'' fields = []"
proof -
  obtain public hs where pw: "public_wire l q authority = Inr (request_prefix q authority @ concat (map (\<lambda>x. x @ crlf) (map field_text public)), public)"
    and wire: "zr_wire z = block (request_line q # map field_text (request_fields q authority public (map secret_pair hs))) @ hq_body q"
    and bound: "length (block (request_line q # map field_text (request_fields q authority public (map secret_pair hs)))) \<le> unat (hm_request_header_bytes l)"
    and count: "zr_header_count z = of_nat (length (request_fields q authority public (map secret_pair hs)))"
      "length (request_fields q authority public (map secret_pair hs)) \<le> unat (hm_header_count l)"
    and ok: "list_all (\<lambda>h. mh_wire_name h \<noteq> [] \<and> list_all is_token_byte (mh_wire_name h) \<and> list_all is_field_byte (mh_value h)) hs"
    and hs: "case secrets of None \<Rightarrow> hs = [] | Some (hl, _) \<Rightarrow> hs = hl_headers hl"
    by (rule serialize_request_form [OF assms(1)])
  let ?fs = "request_fields q authority public (map secret_pair hs)" and ?ls = "request_line q # map field_text (request_fields q authority public (map secret_pair hs))"
  note v = public_wire_Inr(4-6) [OF pw]
  have a: "plain authority" using v(3) by (auto simp: authority_malformed_def intro: control_plain)
  have "plain (fst f) \<and> plain (snd f)" if "f \<in> set public" for f
    using public_fields_ok [OF pw that] token_plain field_byte_plain by blast
  moreover have "plain (mh_wire_name h) \<and> plain (mh_value h)" if "h \<in> set hs" for h
    using ok that token_plain field_byte_plain by (auto simp: list_all_iff [of _ hs])
  ultimately have p: "?ls \<noteq> []" "list_all (\<lambda>x. x \<noteq> [] \<and> plain x) ?ls"
    using request_line_plain [OF v(1,2)] a decimal_plain
    by (auto simp: request_fields_def field_text_plain secret_pair_def list_all_iff)
  then have p': "list_all plain ?ls" by (auto simp: list_all_iff)
  have u: "\<not> is_managed_request_header (to_ascii_lowercase (fst f))" if "f \<in> set (public @ map secret_pair hs)" for f
    using that public_fields_ok [OF pw, of f] assms(2) hs
    by (auto simp: unmanaged_lease_def list_all_iff secret_pair_def split: option.split_asm)
  have vals: "field_values name (public @ map secret_pair hs) = []" if "is_managed_request_header name" for name
    using field_values_unmanaged [OF that u] by blast
  have "field_values name ?fs = field_values name [(''Host'', authority)]
      @ field_values name [(''Content-Length'', decimal (length (hq_body q))), (''Connection'', ''close'')]"
    if "is_managed_request_header name" for name
    using vals [OF that] unfolding request_fields_def by (simp add: field_values_def)
  note e = this
  have fv: "field_values ''host'' ?fs = [authority]" "field_values ''content-length'' ?fs = [decimal (length (hq_body q))]"
    "field_values ''connection'' ?fs = [''close'']" "field_values ''transfer-encoding'' ?fs = []"
    by (subst e; simp add: is_managed_request_header_def field_values_def lower_managed del: to_ascii_lowercase_simps)+
  have n: "length ?fs = unat (zr_header_count z)"
    using count unat_bounds(4) [of "hm_header_count l"] by (simp add: unat_of_nat)
  show ?thesis
  proof (intro exI conjI)
    show "find_double_crlf (zr_wire z) = Some (length (block ?ls))" unfolding wire by (rule find_double_crlf_block [OF p])
    show "split_crlf (take (length (block ?ls) - 4) (zr_wire z)) = request_line q # map field_text ?fs"
      unfolding wire using split_crlf_block [OF p(1) p'] by (simp del: block_simps)
    show "drop (length (block ?ls)) (zr_wire z) = hq_body q" unfolding wire by (simp del: block_simps)
  qed (use bound n count(2) fv in simp_all)
qed

definition sample_header_lease :: secret_header_lease where
  "sample_header_lease =
     \<lparr>hl_lease_id = ''l'', hl_session_id = ''s'', hl_authority = ''example.com'', hl_scheme = ''https'', hl_expires_at = 100,
      hl_fingerprint = ''f'', hl_headers = [\<lparr>mh_normalized_name = ''authorization'', mh_wire_name = ''Authorization'',
        mh_value = ''Bearer t''\<rparr>], hl_consumed = False\<rparr>"

definition http_sample_request :: http1_request where
  "http_sample_request = \<lparr>hq_method = ''POST'', hq_target = ''/a'', hq_headers = [\<lparr>hh_name = ''Accept'', hh_value = ''*''\<rparr>], hq_body = ''hi''\<rparr>"

abbreviation sample_serialize :: "secret_header_lease option \<times> (http1_error + serialized_request)" where
  "sample_serialize \<equiv> serialize_request http_sample_request ''example.com'' ''https'' http1_conservative_default (Some (sample_header_lease, 7))"

lemma sample_serialize_eval: "\<not> isl (snd sample_serialize) \<and> unmanaged_lease sample_header_lease"
  by code_simp

lemma sample_serialized:
  obtains lease' z where "sample_serialize = (lease', Inr z)"
proof (cases "snd sample_serialize")
  case (Inr z)
  then show thesis using that [of "fst sample_serialize" z] by (metis prod.collapse)
qed (use sample_serialize_eval in simp)

theorem request_framing_unambiguous_witness:
  "\<exists>lease' z fields. sample_serialize = (lease', Inr z) \<and> field_values ''host'' fields = [''example.com'']
     \<and> field_values ''content-length'' fields = [''2'']"
proof -
  obtain lease' z where z: "sample_serialize = (lease', Inr z)" by (rule sample_serialized)
  from request_framing_unambiguous [OF z] sample_serialize_eval obtain fields where
    "field_values ''host'' fields = [''example.com'']" "field_values ''content-length'' fields = [decimal (length (hq_body http_sample_request))]"
    by auto
  moreover have "decimal (length (hq_body http_sample_request)) = ''2''" by code_simp
  ultimately show ?thesis using z by auto
qed

section \<open>What the audit sees of a request\<close>

text \<open>Everything of a serialized request but the bytes of its wire.\<close>

definition hide_wire :: "http1_error + serialized_request \<Rightarrow> http1_error + serialized_request" where
  "hide_wire r = (case r of Inl err \<Rightarrow> Inl err | Inr z \<Rightarrow> Inr (z\<lparr>zr_wire := replicate (length (zr_wire z)) (CHR ''x'')\<rparr>))"

lemma append_headers_erased:
  "map erase_header hs = map erase_header gs \<Longrightarrow> length wire = length wire' \<Longrightarrow>
   append_headers hs wire redacted = (w, d, r) \<Longrightarrow> append_headers gs wire' redacted = (w', d', r') \<Longrightarrow>
   d' = d \<and> r' = r \<and> length w' = length w"
proof (induction hs arbitrary: gs wire wire' redacted)
  case (Cons h hs)
  then obtain g gs' where g: "gs = g # gs'" "erase_header h = erase_header g" "map erase_header hs = map erase_header gs'"
    by (cases gs) auto
  note n = erase_header_name [OF g(2)] erase_header_length [OF g(2)]
  have v: "validate_header_value (mh_value h) = validate_header_value (mh_value g)"
    using arg_cong [OF g(2), of "\<lambda>h. list_all is_field_byte (mh_value h)"]
    by (simp add: validate_header_value_def erase_header_def)
  have l: "length (secret_line h) = length (secret_line g)" "redacted_line h = redacted_line g"
    using n by (simp_all add: secret_line_def redacted_line_def)
  show ?case
  proof (cases "bind_r (validate_header_name (mh_wire_name h)) (\<lambda>_. validate_header_value (mh_value h))")
    case (Inl err)
    then have e: "bind_r (validate_header_name (mh_wire_name g)) (\<lambda>_. validate_header_value (mh_value g)) = Inl err" using n v by simp
    from Cons.prems(3) have "w = wire" "d = redacted" "r = Inl err" by (simp_all add: Inl)
    moreover from Cons.prems(4) have "w' = wire'" "d' = redacted" "r' = Inl err" by (simp_all add: g(1) e)
    ultimately show ?thesis using Cons.prems(2) by simp
  next
    case (Inr u)
    then show ?thesis using Cons.IH [OF g(3), of "wire @ secret_line h" "wire' @ secret_line g" "redacted @ redacted_line h"] Cons.prems n v l
      by (auto simp: g(1))
  qed
qed auto

lemma names_erased: "map erase_header hs = map erase_header gs \<Longrightarrow> map mh_normalized_name hs = map mh_normalized_name gs"
proof (induction hs arbitrary: gs)
  case (Cons h hs)
  then obtain g gs' where "gs = g # gs'" "erase_header h = erase_header g" "map erase_header hs = map erase_header gs'"
    by (cases gs) auto
  with Cons.IH [of gs'] erase_header_name [of h g] show ?case by simp
qed simp

lemma batch_contains_erased:
  "map erase_header (hb_headers b) = map erase_header (hb_headers c) \<Longrightarrow> batch_contains_name b = batch_contains_name c"
  using names_erased [of "hb_headers b" "hb_headers c"]
  by (intro ext) (simp add: batch_contains_name_def list_ex_iff, metis (mono_tags, lifting) imageE image_eqI set_map)

lemma take_for_headers:
  "take_for (hl\<lparr>hl_headers := gs\<rparr>) authority scheme now =
     (case take_for hl authority scheme now of
        (l, Inl err) \<Rightarrow> (l\<lparr>hl_headers := gs\<rparr>, Inl err)
      | (l, Inr b) \<Rightarrow> (l, Inr (b\<lparr>hb_headers := gs\<rparr>)))"
proof -
  define r where "r = bind_r (vault_normalize_host authority) (\<lambda>host. if host \<noteq> hl_authority hl then Inr False
      else bind_r (vault_normalize_scheme scheme) (\<lambda>s. Inr (s = hl_scheme hl)))"
  have r: "bind_r (vault_normalize_host authority) (\<lambda>host. if host \<noteq> hl_authority hl then Inr False
      else bind_r (vault_normalize_scheme scheme) (\<lambda>s. Inr (s = hl_scheme hl))) = r" by (simp add: r_def)
  show ?thesis
    unfolding take_for_def Let_def secret_header_lease.select_convs secret_header_lease.update_convs
    by (cases hl; cases r) (use r in \<open>auto cong: if_cong split: bool.split\<close>)
qed

lemma secret_headers_erased:
  assumes e: "map erase_header (hl_headers hl) = map erase_header gs"
    and "secret_headers l authority scheme public hl now wire wire = (hl', r)"
    "secret_headers l authority scheme public (hl\<lparr>hl_headers := gs\<rparr>) now wire wire = (hl'', r')"
  shows "(\<exists>err. r = Inl err \<and> r' = Inl err)
    \<or> (\<exists>w w' d n fp. r = Inr (w, d, n, fp) \<and> r' = Inr (w', d, n, fp) \<and> length w' = length w)"
proof (cases "snd (take_for hl authority scheme now)")
  case (Inl err)
  then have "snd (take_for (hl\<lparr>hl_headers := gs\<rparr>) authority scheme now) = Inl err"
    by (cases "take_for hl authority scheme now") (simp add: take_for_headers)
  with Inl assms(2,3) show ?thesis by (auto simp: secret_headers_def split: prod.split_asm)
next
  case (Inr b)
  let ?b = "\<lparr>hb_lease_fingerprint = hl_fingerprint hl, hb_headers = gs, hb_emitted = False\<rparr>"
  obtain hl1 where t: "take_for hl authority scheme now = (hl1, Inr b)" using Inr by (cases "take_for hl authority scheme now") simp
  note b = take_for_Inr [OF t, THEN conjunct1]
  obtain hl2 where t': "take_for (hl\<lparr>hl_headers := gs\<rparr>) authority scheme now = (hl2, Inr ?b)"
    using t by (simp add: take_for_headers b)
  have c: "batch_contains_name ?b = batch_contains_name b" "length gs = length (hb_headers b)"
    using batch_contains_erased [of b ?b] e map_eq_imp_length_eq [OF e] by (simp_all add: b)
  obtain w d z where a: "append_headers (hl_headers hl) wire wire = (w, d, z)" by (cases "append_headers (hl_headers hl) wire wire") auto
  obtain w' d' z' where a': "append_headers gs wire wire = (w', d', z')" by (cases "append_headers gs wire wire") auto
  note eq = append_headers_erased [OF e refl a a']
  show ?thesis
    using assms(2,3) c eq a a'
    by (cases "check_header_count l (length public + length gs + 3)"; cases z)
      (auto simp: secret_headers_def t t' append_http1_def b split: option.split_asm)
qed

text \<open>
  C38: what is hashed for the audit shows of a secret header only its name and length. For two leases that
  differ only in the bytes of their secrets, the serialization fails with the same error or gives the
  same audited form, the same counts and fingerprint and a wire of the same length.
\<close>

theorem audited_request_hides_secrets:
  assumes "map erase_header (hl_headers hl) = map erase_header gs"
  shows "hide_wire (snd (serialize_request q authority scheme l (Some (hl, now)))) =
    hide_wire (snd (serialize_request q authority scheme l (Some (hl\<lparr>hl_headers := gs\<rparr>, now))))"
proof (cases "public_wire l q authority")
  case (Inr wp)
  obtain w public where wp: "wp = (w, public)" by (cases wp)
  obtain hl1 r where s: "secret_headers l authority scheme public hl now w w = (hl1, r)" by fastforce
  obtain hl2 r' where s': "secret_headers l authority scheme public (hl\<lparr>hl_headers := gs\<rparr>) now w w = (hl2, r')" by fastforce
  from secret_headers_erased [OF assms s s'] show ?thesis
    by (auto simp: serialize_request_def Inr wp s s' hide_wire_def finish_request_def Let_def)
qed (simp add: serialize_request_def)

theorem audited_request_hides_secrets_witness:
  "hide_wire (snd sample_serialize) = hide_wire (snd (serialize_request http_sample_request ''example.com'' ''https''
     http1_conservative_default (Some (sample_header_lease\<lparr>hl_headers := [\<lparr>mh_normalized_name = ''authorization'',
       mh_wire_name = ''Authorization'', mh_value = ''Bearer u''\<rparr>]\<rparr>, 7))))"
  by (rule audited_request_hides_secrets) (simp add: sample_header_lease_def erase_header_def erase_value_def erase_byte_def is_field_byte_def byte_def)

section \<open>Leases of the vault\<close>

text \<open>Every lease a vault materialises has unmanaged headers only: it refuses managed names on insertion.\<close>

lemma materialized_unmanaged:
  assumes inv: "vault_inv x v" and "materialize_http_headers x v lease sid target now = Ret (v', lease', Inr hl)"
  shows "unmanaged_lease hl"
  using assms(2)
proof (rule materialize_Inr)
  fix s hs cs fp
  assume c: "collect_secrets v (ls_context s) target now (ls_handles s) [] [] = Inr (hs, cs)"
    and hl: "hl = \<lparr>hl_lease_id = sle_lease_id lease, hl_session_id = sid, hl_authority = vc_authority (ls_context s),
      hl_scheme = vc_scheme (ls_context s), hl_expires_at = ls_expires_at s, hl_fingerprint = fp,
      hl_headers = with_cookies hs cs, hl_consumed = False\<rparr>"
  have "\<not> is_managed_request_header (to_ascii_lowercase (mh_wire_name h))" if "h \<in> set hs" for h
  proof -
    from collect_secrets_Inr [OF c] that obtain e where e: "releasable v (ls_handles s) (ls_context s) now e" "header_of e h" by auto
    then have "entry_ok e" using inv by (auto simp: releasable_def vault_inv_def ran_def)
    with e(2) show ?thesis
      by (auto simp: entry_ok_def header_of_def is_protocol_managed_header_def is_managed_request_header_def
          split: secret_delivery.split_asm)
  qed
  moreover have "\<not> is_managed_request_header (to_ascii_lowercase ''Cookie'')" by code_simp
  ultimately show ?thesis
    by (auto simp: unmanaged_lease_def hl with_cookies_def list_all_iff simp del: to_ascii_lowercase_simps)
qed

end
