(* ===== verification/Stream_Fixture.thy ===== *)
theory Stream_Fixture
  imports Stream
begin

text \<open>
  The crate \<open>nxb-stream-fixture\<close>: \<open>InMemoryDuplex\<close>, a scripted backend for byte streams. The locale
  \<open>faithful_backend\<close> is what a client of a stream may rely on when the backend neither invents nor
  loses bytes; the duplex is shown to keep it, and the stream then transports exactly the bytes of
  the script, however they are cut into fragments.
\<close>

section \<open>The duplex\<close>

datatype fixture_read_event =
  FrBytes string u64
| FrEof u64
| FrBackpressure u64
| FrTimeout u64
| FrReset u64
| FrTruncated string u64
| FrFailure string u64

datatype fixture_write_event =
  FwAccept u64 u64
| FwBackpressure u64
| FwTimeout u64
| FwReset u64
| FwClosed u64
| FwFailure string u64

record read_observation =
  ro_maximum_bytes :: u64
  ro_deadline :: u64

record write_observation =
  wo_supplied_bytes :: u64
  wo_deadline :: u64

record in_memory_duplex =
  dx_read_events :: "fixture_read_event list"
  dx_write_events :: "fixture_write_event list"
  dx_read_fragment_limit :: "u64 option"
  dx_write_fragment_limit :: "u64 option"
  dx_captured_writes :: "string list"
  dx_read_observations :: "read_observation list"
  dx_write_observations :: "write_observation list"
  dx_closed :: bool

definition duplex_new :: "fixture_read_event list \<Rightarrow> fixture_write_event list \<Rightarrow> in_memory_duplex" where
  "duplex_new read_events write_events =
     \<lparr>dx_read_events = read_events, dx_write_events = write_events, dx_read_fragment_limit = None,
      dx_write_fragment_limit = None, dx_captured_writes = [], dx_read_observations = [],
      dx_write_observations = [], dx_closed = False\<rparr>"

definition with_read_fragment_limit :: "in_memory_duplex \<Rightarrow> u64 \<Rightarrow> in_memory_duplex" where
  "with_read_fragment_limit d maximum_bytes =
     d\<lparr>dx_read_fragment_limit := (if maximum_bytes > 0 then Some maximum_bytes else None)\<rparr>"

definition with_write_fragment_limit :: "in_memory_duplex \<Rightarrow> u64 \<Rightarrow> in_memory_duplex" where
  "with_write_fragment_limit d maximum_bytes =
     d\<lparr>dx_write_fragment_limit := (if maximum_bytes > 0 then Some maximum_bytes else None)\<rparr>"

text \<open>\<open>u64::MAX\<close> and \<open>usize::MAX\<close> are the greatest word.\<close>

definition unwrap_or_max :: "u64 option \<Rightarrow> u64" where
  "unwrap_or_max configured = (case configured of None \<Rightarrow> - 1 | Some c \<Rightarrow> c)"

definition fragment_limit :: "u64 \<Rightarrow> u64 option \<Rightarrow> nat" where
  "fragment_limit requested configured = unat (min (min requested (unwrap_or_max configured)) (- 1))"

definition split_read_bytes ::
  "in_memory_duplex \<Rightarrow> string \<Rightarrow> u64 \<Rightarrow> u64 \<Rightarrow> bool \<Rightarrow> in_memory_duplex \<times> backend_read_report" where
  "split_read_bytes d bytes elapsed requested truncated =
     (let maximum = fragment_limit requested (dx_read_fragment_limit d);
          transferred = min (length bytes) maximum;
          remainder = drop transferred bytes;
          output = take transferred bytes;
          d = (if remainder \<noteq> [] \<and> \<not> truncated then d\<lparr>dx_read_events := FrBytes remainder 0 # dx_read_events d\<rparr> else d) in
      (d, \<lparr>br_elapsed = elapsed, br_status = (if truncated then BrTruncated output else BrData output)\<rparr>))"

definition duplex_read :: "in_memory_duplex \<Rightarrow> u64 \<Rightarrow> u64 \<Rightarrow> in_memory_duplex \<times> backend_read_report" where
  "duplex_read d maximum_bytes deadline =
     (let d = d\<lparr>dx_read_observations := dx_read_observations d
                  @ [\<lparr>ro_maximum_bytes = maximum_bytes, ro_deadline = deadline\<rparr>]\<rparr> in
      if dx_closed d then (d, \<lparr>br_elapsed = 0, br_status = BrEof\<rparr>)
      else case dx_read_events d of
        [] \<Rightarrow> (d, \<lparr>br_elapsed = 0, br_status = BrEof\<rparr>)
      | event # events \<Rightarrow>
          let d = d\<lparr>dx_read_events := events\<rparr> in
          (case event of
             FrBytes bytes elapsed \<Rightarrow> split_read_bytes d bytes elapsed maximum_bytes False
           | FrEof elapsed \<Rightarrow> (d, \<lparr>br_elapsed = elapsed, br_status = BrEof\<rparr>)
           | FrBackpressure elapsed \<Rightarrow> (d, \<lparr>br_elapsed = elapsed, br_status = BrBackpressure\<rparr>)
           | FrTimeout elapsed \<Rightarrow> (d, \<lparr>br_elapsed = elapsed, br_status = BrTimeout\<rparr>)
           | FrReset elapsed \<Rightarrow> (d, \<lparr>br_elapsed = elapsed, br_status = BrReset\<rparr>)
           | FrTruncated bytes elapsed \<Rightarrow> split_read_bytes d bytes elapsed maximum_bytes True
           | FrFailure code elapsed \<Rightarrow> (d, \<lparr>br_elapsed = elapsed, br_status = BrFailure code\<rparr>)))"

text \<open>The two places of \<open>write\<close> that capture what they accept.\<close>

definition duplex_capture :: "in_memory_duplex \<Rightarrow> string \<Rightarrow> u64 \<Rightarrow> u64 \<Rightarrow> in_memory_duplex \<times> backend_write_report" where
  "duplex_capture d bytes accepted elapsed =
     (d\<lparr>dx_captured_writes := dx_captured_writes d @ [take (unat accepted) bytes]\<rparr>,
      \<lparr>bw_elapsed = elapsed, bw_status = BwWritten accepted\<rparr>)"

definition duplex_write :: "in_memory_duplex \<Rightarrow> string \<Rightarrow> u64 \<Rightarrow> in_memory_duplex \<times> backend_write_report" where
  "duplex_write d bytes deadline =
     (let d = d\<lparr>dx_write_observations := dx_write_observations d
                  @ [\<lparr>wo_supplied_bytes = of_nat (length bytes), wo_deadline = deadline\<rparr>]\<rparr>;
          configured = unwrap_or_max (dx_write_fragment_limit d) in
      if dx_closed d then (d, \<lparr>bw_elapsed = 0, bw_status = BwClosed\<rparr>)
      else case dx_write_events d of
        [] \<Rightarrow> duplex_capture d bytes (min (of_nat (length bytes)) configured) 0
      | event # events \<Rightarrow>
          let d = d\<lparr>dx_write_events := events\<rparr> in
          (case event of
             FwAccept maximum_bytes elapsed \<Rightarrow>
               duplex_capture d bytes (min (min (of_nat (length bytes)) maximum_bytes) configured) elapsed
           | FwBackpressure elapsed \<Rightarrow> (d, \<lparr>bw_elapsed = elapsed, bw_status = BwBackpressure\<rparr>)
           | FwTimeout elapsed \<Rightarrow> (d, \<lparr>bw_elapsed = elapsed, bw_status = BwTimeout\<rparr>)
           | FwReset elapsed \<Rightarrow> (d, \<lparr>bw_elapsed = elapsed, bw_status = BwReset\<rparr>)
           | FwClosed elapsed \<Rightarrow> (d, \<lparr>bw_elapsed = elapsed, bw_status = BwClosed\<rparr>)
           | FwFailure code elapsed \<Rightarrow> (d, \<lparr>bw_elapsed = elapsed, bw_status = BwFailure code\<rparr>)))"

definition duplex_close :: "in_memory_duplex \<Rightarrow> in_memory_duplex" where
  "duplex_close d = d\<lparr>dx_closed := True\<rparr>"

definition duplex_backend :: "in_memory_duplex stream_backend" where
  "duplex_backend = \<lparr>be_read = duplex_read, be_write = duplex_write, be_close = duplex_close\<rparr>"

section \<open>The contract of a faithful backend\<close>

text \<open>
  \<open>incoming\<close> are the bytes the backend has still to serve, \<open>outgoing\<close> those it has accepted. A read
  hands out a prefix of the first, of at most the requested length; a write adds the prefix it
  reports to the second; nothing else changes either.
\<close>

fun written_prefix :: "backend_write_status \<Rightarrow> string \<Rightarrow> string" where
  "written_prefix (BwWritten k) bytes = take (unat k) bytes"
| "written_prefix _ bytes = []"

fun read_data :: "backend_read_status \<Rightarrow> string" where
  "read_data (BrData bytes) = bytes"
| "read_data _ = []"

text \<open>What a client knows to have been accepted: the prefix its receipt counts.\<close>

fun sent :: "'b stream_call \<Rightarrow> stream_reply \<Rightarrow> string" where
  "sent (CallWrite bytes ctl) (ReplyOperation (Inr rc)) = take (unat (op_transferred_bytes rc)) bytes"
| "sent _ _ = []"

locale faithful_backend =
  fixes be :: "'b stream_backend" and incoming :: "'b \<Rightarrow> string" and outgoing :: "'b \<Rightarrow> string"
  assumes read_step: "be_read be b n d = (b', r) \<Longrightarrow>
      incoming b = read_data (br_status r) @ incoming b' \<and> outgoing b' = outgoing b
      \<and> length (read_data (br_status r)) \<le> unat n"
    and write_step: "be_write be b bytes d = (b', w) \<Longrightarrow>
      incoming b' = incoming b \<and> outgoing b' = outgoing b @ written_prefix (bw_status w) bytes
      \<and> (\<forall>k. bw_status w = BwWritten k \<longrightarrow> k \<le> of_nat (length bytes))"
    and close_step: "incoming (be_close be b) = incoming b \<and> outgoing (be_close be b) = outgoing b"
begin

lemma read_transports:
  assumes "stream_read x be s n ctl = (s', r)" "bs_state s' \<notin> {STimedOut, STruncated}" "\<not> audit_failed (ReplyRead r)"
  shows "incoming (bs_backend s) = delivered (ReplyRead r) @ incoming (bs_backend s')
    \<and> outgoing (bs_backend s') = outgoing (bs_backend s)"
  using assms(1)
proof (cases rule: stream_read_cases)
  case refused
  then show ?thesis by (cases r) auto
next
  case (stopped u q)
  then show ?thesis using stream_record_fields(2) [OF stopped(4)] by (cases q) auto
next
  case (late b report u q)
  then show ?thesis using assms(2) stream_record_fields(1) [OF late(7)] by simp
next
  case (settled b report bytes u st m q)
  note f = stream_record_fields(1,2) [OF settled(12)]
  have "delivered (ReplyRead r) = bytes"
    using assms(3) settled(13) stream_record_effect(6) [OF settled(12)] by (cases q) auto
  moreover have "bytes = read_data (br_status report)"
    using settled(7) assms(2) f(1) read_step [OF settled(4)]
    by (cases "br_status report") (auto simp: backend_read_overflow_def split: if_split_asm)
  ultimately show ?thesis using read_step [OF settled(4)] f(2) by simp
qed

lemma write_transports:
  assumes "stream_write x be s bytes ctl = (s', r)" "bs_state s' \<noteq> STimedOut" "\<not> audit_failed (ReplyOperation r)"
  shows "incoming (bs_backend s') = incoming (bs_backend s)
    \<and> outgoing (bs_backend s') = outgoing (bs_backend s) @ sent (CallWrite bytes ctl :: 'b stream_call) (ReplyOperation r)"
  using assms(1)
proof (cases rule: stream_write_cases)
  case refused
  then show ?thesis by (cases r) auto
next
  case (stopped u)
  then show ?thesis using stream_record_fields(2,9) [OF stopped(3)] by (cases r) auto
next
  case (late b report u)
  then show ?thesis using assms(2) stream_record_fields(1) [OF late(7)] by simp
next
  case (settled b report k u st m)
  note f = stream_record_fields(2,9) [OF settled(12)]
  have "sent (CallWrite bytes ctl :: 'b stream_call) (ReplyOperation r) = take (unat k) bytes"
    using assms(3) f(2) settled(10) stream_record_effect(6) [OF settled(12)] by (cases r) auto
  moreover have "take (unat k) bytes = written_prefix (bw_status report) bytes"
    using settled(7) write_step [OF settled(4)] by (cases "bw_status report") (auto split: if_split_asm)
  ultimately show ?thesis using write_step [OF settled(4)] f(1) by simp
qed

lemma close_transports:
  assumes "stream_close x be s = (s', r)"
  shows "incoming (bs_backend s') = incoming (bs_backend s) \<and> outgoing (bs_backend s') = outgoing (bs_backend s)"
proof -
  have "bs_backend s' = bs_backend s \<or> bs_backend s' = be_close be (bs_backend s)"
    using assms stream_record_fields(2) by (fastforce simp: stream_close_def Let_def split: if_split_asm)
  then show ?thesis
    using close_step by auto
qed

lemma do_transports:
  assumes "stream_do x be c s = (s', r)" "bs_state s' \<notin> {STimedOut, STruncated}" "\<not> audit_failed r"
    "\<And>f. c \<noteq> CallBackend f"
  shows "incoming (bs_backend s) = delivered r @ incoming (bs_backend s')
    \<and> outgoing (bs_backend s') = outgoing (bs_backend s) @ sent c r"
proof (cases c)
  case (CallRead n ctl)
  then obtain q where "stream_read x be s n ctl = (s', q)" "r = ReplyRead q"
    using assms(1) by (auto simp: map_prod_def split: prod.split_asm)
  then show ?thesis using read_transports assms(2,3) CallRead by fastforce
next
  case (CallWrite bytes ctl)
  then obtain q where q: "stream_write x be s bytes ctl = (s', q)" "r = ReplyOperation q"
    using assms(1) by (auto simp: map_prod_def split: prod.split_asm)
  then show ?thesis using write_transports [OF q(1)] assms(2,3) CallWrite by (cases q) auto
next
  case CallClose
  then obtain q where "stream_close x be s = (s', q)" "r = ReplyOperation q"
    using assms(1) by (auto simp: map_prod_def split: prod.split_asm)
  then show ?thesis using close_transports CallClose by (cases q) auto
qed (use assms(4) in blast)

lemma run_transports:
  assumes "stream_run x be cs s = (s', rs)" "bs_state s' \<notin> {STimedOut, STruncated}"
    "list_all (\<lambda>r. \<not> audit_failed r) rs" "\<forall>c \<in> set cs. \<forall>f. c \<noteq> CallBackend f"
  shows "incoming (bs_backend s) = concat (map delivered rs) @ incoming (bs_backend s')
    \<and> outgoing (bs_backend s') = outgoing (bs_backend s) @ concat (map2 sent cs rs)"
  using assms
proof (induction cs arbitrary: s rs)
  case (Cons c cs)
  obtain s1 r rs1 where s1: "stream_do x be c s = (s1, r)" "stream_run x be cs s1 = (s', rs1)" "rs = r # rs1"
    using Cons.prems(1) by (auto split: prod.split_asm)
  have "bs_state s1 \<notin> {STimedOut, STruncated}"
  proof
    assume bad: "bs_state s1 \<in> {STimedOut, STruncated}"
    then have "s' = s1" using terminal_run [OF _ s1(2)] Cons.prems(4) by auto
    then show False using bad Cons.prems(2) by simp
  qed
  then have "incoming (bs_backend s) = delivered r @ incoming (bs_backend s1)
      \<and> outgoing (bs_backend s1) = outgoing (bs_backend s) @ sent c r"
    using do_transports [OF s1(1)] Cons.prems(3,4) s1(3) by simp
  then show ?case using Cons.IH [OF s1(2)] Cons.prems(2-4) s1(3) by simp
qed simp

end

section \<open>The duplex keeps the contract\<close>

fun event_bytes :: "fixture_read_event \<Rightarrow> string" where
  "event_bytes (FrBytes bytes elapsed) = bytes"
| "event_bytes _ = []"

definition pending_bytes :: "in_memory_duplex \<Rightarrow> string" where
  "pending_bytes d = concat (map event_bytes (dx_read_events d))"

definition captured_bytes :: "in_memory_duplex \<Rightarrow> string" where
  "captured_bytes d = concat (dx_captured_writes d)"

lemma fragment_limit_le: "fragment_limit n c \<le> unat n"
  by (simp add: fragment_limit_def min_def word_le_nat_alt)

interpretation duplex: faithful_backend duplex_backend pending_bytes captured_bytes
proof (unfold_locales, goal_cases)
  case (1 b n d b' r)
  then show ?case using fragment_limit_le [of n "dx_read_fragment_limit b"]
    by (auto simp: duplex_backend_def duplex_read_def split_read_bytes_def pending_bytes_def captured_bytes_def Let_def
        split: if_split_asm list.split_asm fixture_read_event.split_asm)
next
  case (2 b bytes d b' w)
  then show ?case
    by (auto simp: duplex_backend_def duplex_write_def duplex_capture_def pending_bytes_def captured_bytes_def Let_def
        min.coboundedI1 split: if_split_asm list.split_asm fixture_write_event.split_asm)
next
  case (3 b)
  then show ?case by (simp add: duplex_backend_def duplex_close_def pending_bytes_def captured_bytes_def)
qed

section \<open>Properties\<close>

text \<open>
  A stream over the duplex transports bytes unchanged. In any history of client operations that does
  not end in a timeout or a truncation and loses no audit record, whatever the fragment limits and
  the request sizes: the bytes read, followed by those still in the script, are the bytes of the
  script; and the bytes the duplex captured are those the write receipts count, in order.
\<close>

theorem duplex_round_trip:
  assumes "stream_run x duplex_backend cs s = (s', rs)" "bs_state s' \<notin> {STimedOut, STruncated}" "list_all (\<lambda>r. \<not> audit_failed r) rs"
    "\<forall>c \<in> set cs. \<forall>f. c \<noteq> CallBackend f"
  shows "concat (map delivered rs) @ pending_bytes (bs_backend s') = pending_bytes (bs_backend s)
    \<and> captured_bytes (bs_backend s') = captured_bytes (bs_backend s) @ concat (map2 sent cs rs)"
  using duplex.run_transports [OF assms] by simp

section \<open>Witnesses\<close>

definition sample_duplex :: in_memory_duplex where
  "sample_duplex = with_read_fragment_limit (duplex_new [FrBytes ''abc'' 0] []) 3"

definition sample_calls :: "in_memory_duplex stream_call list" where
  "sample_calls = [CallRead 5 (sample_stream_control False)]"

definition sample_stream :: "in_memory_duplex byte_stream" where
  "sample_stream =
     \<lparr>bs_grant =
        \<lparr>sg_stream_id = ''s'', sg_execution_id = [], sg_executor_id = [], sg_ticket_id = [], sg_decision_id = [],
         sg_dns_context_id = [], sg_binding_hash = [], sg_endpoint_fingerprint = [], sg_executor_audit_anchor = [],
         sg_remote_ip = [], sg_port = 80, sg_scheme = ''http'', sg_sni = None, sg_http_host = ''a'', sg_redirect_depth = 0\<rparr>,
      bs_limits = stream_conservative_default, bs_backend = sample_duplex, bs_state = SOpen, bs_read_bytes = 0,
      bs_written_bytes = 0, bs_elapsed = 0, bs_operation_count = 1,
      bs_audit = \<lparr>chain_records = [], tail_hash = [], genesis_anchor = []\<rparr>\<rparr>"

definition light_stream_ext :: stream_ext where
  "light_stream_ext = \<lparr>sx_executor = sample_executor_ext, ser_stream = \<lambda>_. Inr [], ser_grant = \<lambda>_. Inr []\<rparr>"

lemma sample_duplex_eval:
  "(case stream_run light_stream_ext duplex_backend sample_calls sample_stream of (s', rs) \<Rightarrow>
      bs_state s' = SOpen \<and> list_all (\<lambda>r. \<not> audit_failed r) rs \<and> pending_bytes (bs_backend s') = [])"
  by code_simp

theorem duplex_round_trip_witness:
  "\<exists>s' rs. stream_run light_stream_ext duplex_backend sample_calls sample_stream = (s', rs)
     \<and> concat (map delivered rs) = ''abc''"
proof -
  obtain s' rs where r: "stream_run light_stream_ext duplex_backend sample_calls sample_stream = (s', rs)"
    by (rule prod.exhaust)
  have e: "bs_state s' = SOpen" "list_all (\<lambda>r. \<not> audit_failed r) rs" "pending_bytes (bs_backend s') = []"
    using sample_duplex_eval by (simp_all add: r)
  have "pending_bytes (bs_backend sample_stream) = ''abc''" "\<forall>c \<in> set sample_calls. \<forall>f. c \<noteq> CallBackend f"
    by (simp_all add: sample_stream_def sample_duplex_def with_read_fragment_limit_def duplex_new_def pending_bytes_def sample_calls_def)
  then show ?thesis using duplex_round_trip [OF r _ e(2)] e r by auto
qed

end
