(* ===== verification/Http1_Fixture.thy ===== *)
theory Http1_Fixture
  imports Stream_Fixture
begin

text \<open>
  The HTTP/1 conversation fixtures of the crate nxb-http1-fixture: in-memory duplex streams that deliver
  a given response and accept any request, in fragments whose sizes the configuration bounds.
\<close>

record http1_fixture_config =
  fc_read_fragment_bytes :: u64
  fc_write_fragment_bytes :: u64
  fc_read_elapsed :: u64
  fc_write_elapsed :: u64

definition fixture_conservative_default :: http1_fixture_config where
  "fixture_conservative_default =
     \<lparr>fc_read_fragment_bytes = 7, fc_write_fragment_bytes = 11, fc_read_elapsed = 1, fc_write_elapsed = 1\<rparr>"

definition conversation_fixture :: "string \<Rightarrow> http1_fixture_config \<Rightarrow> in_memory_duplex" where
  "conversation_fixture response_wire config =
     with_write_fragment_limit
       (with_read_fragment_limit
          (duplex_new [FrBytes response_wire (fc_read_elapsed config), FrEof 0]
             [FwAccept (- 1) (fc_write_elapsed config)])
          (fc_read_fragment_bytes config))
       (fc_write_fragment_bytes config)"

definition scripted_fixture :: "fixture_read_event list \<Rightarrow> fixture_write_event list \<Rightarrow> in_memory_duplex" where
  "scripted_fixture reads writes = duplex_new reads writes"

end
