(* ===== verification/Http1_Codec.thy ===== *)
theory Http1_Codec
  imports Http1_Request Http1_Fixture
begin

text \<open>
  The codec of \<open>nxb-http1\<close> (\<open>codec.rs\<close>, \<open>audit.rs\<close>): one exchange of a request and its response over a
  bounded byte stream, and its audit chain, which starts at the tail of the stream's chain. The loops
  that write the request and read the response end because every turn takes one operation of the
  stream's budget.
\<close>

section \<open>Data\<close>

record http1_exchange_receipt =
  hx_exchange_id :: string
  hx_stream_id :: string
  hx_execution_id :: string
  hx_request_method :: string
  hx_request_target_sha256 :: string
  hx_request_wire_sha256 :: string
  hx_request_body_sha256 :: string
  hx_request_header_count :: u64
  hx_request_body_bytes :: u64
  hx_response_wire_sha256 :: string
  hx_response_body_sha256 :: string
  hx_response_status :: u16
  hx_response_version :: string
  hx_response_framing :: string
  hx_response_header_count :: u64
  hx_response_trailer_count :: u64
  hx_response_body_bytes :: u64
  hx_interim_responses :: u64
  hx_stream_audit_before :: string
  hx_stream_audit_after :: string
  hx_http_audit_tail :: string

record http1_exchange =
  xg_response :: http1_response
  xg_receipt :: http1_exchange_receipt

record http1_audit_event =
  he_exchange_id :: string
  he_stream_id :: string
  he_execution_id :: string
  he_request_method :: string
  he_request_target_sha256 :: string
  he_request_wire_sha256 :: string
  he_request_body_sha256 :: string
  he_request_header_count :: u64
  he_request_body_bytes :: u64
  he_response_wire_sha256 :: string
  he_response_body_sha256 :: string
  he_response_status :: u16
  he_response_version :: string
  he_response_framing :: string
  he_response_header_count :: u64
  he_response_trailer_count :: u64
  he_response_body_bytes :: u64
  he_interim_responses :: u64
  he_stream_audit_before :: string
  he_stream_audit_after :: string
  he_metadata :: "(string \<times> string) list"

type_synonym http1_audit_chain = "http1_audit_event anchored_chain"

text \<open>The parameters: those of the stream, and the serializer of the codec's own events.\<close>

record http1_ext =
  hp_stream :: stream_ext
  ser_http :: "u64 \<times> string \<times> http1_audit_event \<Rightarrow> string + string"

abbreviation hp_sha256 :: "http1_ext \<Rightarrow> string \<Rightarrow> string" where
  "hp_sha256 x \<equiv> sx_sha256 (hp_stream x)"

record 'b http1_codec =
  hc_stream :: "'b byte_stream"
  hc_limits :: http1_limits
  hc_audit :: http1_audit_chain
  hc_next_exchange_id :: u64
  hc_completed :: bool

section \<open>The audit chain\<close>

definition http1_audit_new :: "string \<Rightarrow> http1_audit_error + http1_audit_chain" where
  "http1_audit_new genesis_hash =
     (if \<not> is_lower_hex_sha256 genesis_hash then Inl InvalidGenesisHash
      else Inr \<lparr>chain_records = [], tail_hash = genesis_hash, genesis_anchor = genesis_hash\<rparr>)"

definition http1_record_hash :: "http1_ext \<Rightarrow> http1_audit_event record_hash" where
  "http1_record_hash x = chain_hash (ser_http x) (hp_sha256 x)"

definition http1_append ::
  "http1_ext \<Rightarrow> http1_audit_chain \<Rightarrow> http1_audit_event
     \<Rightarrow> http1_audit_chain \<times> (chain_error + http1_audit_event chain_record)" where
  "http1_append x = chain_append (http1_record_hash x)"

definition http1_verify :: "http1_ext \<Rightarrow> http1_audit_chain \<Rightarrow> chain_error + unit" where
  "http1_verify x c = chain_verify (http1_record_hash x) (genesis_anchor c) c"

lemma http1_append_genesis [simp]:
  "http1_append x c e = (c', r) \<Longrightarrow> genesis_anchor c' = genesis_anchor c"
  using chain_append_genesis [of "http1_record_hash x" c e] by (simp add: http1_append_def)

interpretation http1_log: audit_log "http1_append x" "http1_verify x" chain_events
  for x
proof (unfold_locales, goal_cases)
  case (1 c e c' r)
  then show ?case using http1_append_genesis [OF 1(1)] chain_append_verify
    by (simp add: http1_verify_def http1_append_def)
qed (auto simp: http1_append_def chain_append_Inr dest: chain_append_Inl)

section \<open>Operations of the stream\<close>

text \<open>
  The outcomes on which a loop goes on. Each took one operation of the budget, so what is left of the
  budget bounds the loops.
\<close>

definition operations_left :: "'b byte_stream \<Rightarrow> nat" where
  "operations_left s = unat (sl_maximum_operations (bs_limits s)) - unat (bs_operation_count s)"

lemma count_step:
  assumes "bs_operation_count s < sl_maximum_operations (bs_limits s)"
    "bs_operation_count s' = saturating_add (bs_operation_count s) 1" "bs_limits s' = bs_limits s"
  shows "operations_left s' < operations_left s" "unat (bs_operation_count s') = Suc (unat (bs_operation_count s))"
proof -
  have "unat (bs_operation_count s) < unat (sl_maximum_operations (bs_limits s))" using assms(1) by (simp add: word_less_nat_alt)
  moreover have "unat (sl_maximum_operations (bs_limits s)) < 2 ^ 64" using unat_bounds(4) [of "sl_maximum_operations (bs_limits s)"] by simp
  ultimately show "operations_left s' < operations_left s" "unat (bs_operation_count s') = Suc (unat (bs_operation_count s))"
    by (simp_all add: operations_left_def assms(2,3) unat_saturating_add)
qed

lemma control_outcome_code: "control_outcome ctl = Some u \<Longrightarrow> u \<in> {SoCancelled, SoEmergencyStopped}"
  by (auto simp: control_outcome_def split: if_split_asm)

lemma stream_write_continues:
  assumes "stream_write x be s bytes ctl = (s', Inr rc)" "op_outcome rc \<in> {SoWritten, SoPartialWrite, SoBackpressure}"
  shows "operations_left s' < operations_left s"
  using assms(1)
proof (cases rule: stream_write_cases)
  case (settled b report k u st m)
  note f = stream_record_fields [OF settled(12)]
  show ?thesis by (rule count_step(1) [OF settled(3)]) (use f in simp_all)
next
  case (stopped u)
  with stream_record_fields(9) [OF stopped(3) refl] control_outcome_code [of ctl u] assms(2) show ?thesis by auto
next
  case (late b report u)
  with stream_record_fields(9) [OF late(7) refl] assms(2) show ?thesis by auto
qed simp

lemma stream_read_continues:
  assumes "stream_read x be s n ctl = (s', Inr rr)" "op_outcome (rr_receipt rr) \<in> {SoData, SoBackpressure, SoEof}"
  shows "operations_left s' < operations_left s"
  using assms(1)
proof (cases rule: stream_read_cases)
  case (settled b report bytes u st m q)
  note f = stream_record_fields [OF settled(12)]
  show ?thesis by (rule count_step(1) [OF conjunct1 [OF settled(3)]]) (use f in simp_all)
next
  case (stopped u q)
  then obtain rc where "q = Inr rc" "rr_receipt rr = rc" by (cases q) auto
  with stream_record_fields(9) [OF stopped(4), of rc] control_outcome_code [of ctl u] stopped(2) assms(2) show ?thesis by auto
next
  case (late b report u q)
  then obtain rc where "q = Inr rc" "rr_receipt rr = rc" by (cases q) auto
  with stream_record_fields(9) [OF late(7), of rc] late(6) assms(2) show ?thesis by auto
qed simp

section \<open>Writing the request\<close>

text \<open>
  One turn of \<open>write_all\<close> after the write: how far to advance and the backpressure events so far.
\<close>

definition write_step :: "http1_limits \<Rightarrow> nat \<Rightarrow> u64 \<Rightarrow> stream_operation_receipt \<Rightarrow> http1_error + nat \<times> u64" where
  "write_step l chunk_len events rc =
     (if op_outcome rc \<in> {SoWritten, SoPartialWrite} then
        let transferred = unat (op_transferred_bytes rc) in
        if transferred = 0 \<or> transferred > chunk_len then
          Inl (InvalidRequest ''stream reported an invalid write length'')
        else Inr (transferred, 0)
      else if op_outcome rc = SoBackpressure then
        let events = saturating_add events 1 in
        if events > hm_backpressure_events l then Inl BackpressureBudgetExceeded else Inr (0, events)
      else Inl (HttpStreamOutcome (op_outcome rc)))"

lemma write_step_Inr: "write_step l k n rc = Inr (j, n') \<Longrightarrow> op_outcome rc \<in> {SoWritten, SoPartialWrite, SoBackpressure} \<and> j \<le> k"
  by (auto simp: write_step_def Let_def split: if_split_asm)

function write_all ::
  "stream_ext \<Rightarrow> 'b stream_backend \<Rightarrow> http1_limits \<Rightarrow> stream_control \<Rightarrow> 'b byte_stream \<Rightarrow> string \<Rightarrow> u64
     \<Rightarrow> 'b byte_stream \<times> (http1_error + unit)" where
  "write_all x be l ctl s bytes events =
     (if bytes = [] then (s, Inr ())
      else
        let chunk = take (unat (hm_io_operation_bytes l)) bytes in
        (case stream_write x be s chunk ctl of
           (s', Inl err) \<Rightarrow> (s', Inl (HttpStream err))
         | (s', Inr rc) \<Rightarrow>
             (case write_step l (length chunk) events rc of
                Inl err \<Rightarrow> (s', Inl err)
              | Inr (transferred, events) \<Rightarrow> write_all x be l ctl s' (drop transferred bytes) events)))"
  by pat_completeness auto
termination
  by (relation "measure (\<lambda>(x, be, l, ctl, s, bytes, events). operations_left s)")
    (auto dest: write_step_Inr intro: stream_write_continues [OF sym])

declare write_all.simps [simp del]

section \<open>Reading the response\<close>

text \<open>One turn of \<open>read_response\<close> after the read: the wire, whether it has ended, and the events so far.\<close>

definition read_step ::
  "http1_limits \<Rightarrow> string \<Rightarrow> bool \<Rightarrow> u64 \<Rightarrow> stream_read_result \<Rightarrow> http1_error + string \<times> bool \<times> u64" where
  "read_step l wire eof events rr =
     bind_r
       (case op_outcome (rr_receipt rr) of
          SoData \<Rightarrow>
            if rr_bytes rr = [] then Inl (InvalidResponse ''stream reported data without bytes'')
            else Inr (wire @ rr_bytes rr, eof, 0)
        | SoBackpressure \<Rightarrow>
            let events = saturating_add events 1 in
            if events > hm_backpressure_events l then Inl BackpressureBudgetExceeded else Inr (wire, eof, events)
        | SoEof \<Rightarrow> Inr (wire, True, events)
        | SoTruncated \<Rightarrow> Inl (TruncatedResponse ''underlying stream reported truncation'')
        | outcome \<Rightarrow> Inl (HttpStreamOutcome outcome)) (\<lambda>(wire, eof, events).
     if length wire > unat (hm_response_wire_bytes l) then
       Inl (InvalidResponse ''response wire bytes exceed configured limit'')
     else Inr (wire, eof, events))"

lemma read_step_Inr:
  "read_step l wire eof n rr = Inr (wire', eof', n') \<Longrightarrow>
   op_outcome (rr_receipt rr) \<in> {SoData, SoBackpressure, SoEof}
   \<and> wire' = wire @ (if op_outcome (rr_receipt rr) = SoData then rr_bytes rr else [])
   \<and> length wire' \<le> unat (hm_response_wire_bytes l)"
  by (auto simp: read_step_def bind_r_Inr Let_def split: stream_outcome.split_asm if_split_asm)

function read_response ::
  "stream_ext \<Rightarrow> 'b stream_backend \<Rightarrow> http1_limits \<Rightarrow> stream_control \<Rightarrow> string \<Rightarrow> 'b byte_stream \<Rightarrow> string \<Rightarrow> bool \<Rightarrow> u64
     \<Rightarrow> 'b byte_stream \<times> (http1_error + http1_response \<times> string)" where
  "read_response x be l ctl request_method s wire eof events =
     (case parse_response wire eof request_method l of
        Inl err \<Rightarrow> (s, Inl err)
      | Inr (Complete response consumed) \<Rightarrow>
          (s, if consumed \<noteq> length wire then Inl (InvalidResponse ''bytes remained after the framed response'')
              else Inr (response, wire))
      | Inr Incomplete \<Rightarrow>
          if eof then (s, Inl (TruncatedResponse ''stream reached EOF before response framing completed''))
          else
            (case stream_read x be s (hm_io_operation_bytes l) ctl of
               (s', Inl err) \<Rightarrow> (s', Inl (HttpStream err))
             | (s', Inr rr) \<Rightarrow>
                 (case read_step l wire eof events rr of
                    Inl err \<Rightarrow> (s', Inl err)
                  | Inr (wire, eof, events) \<Rightarrow> read_response x be l ctl request_method s' wire eof events)))"
  by pat_completeness auto
termination
  by (relation "measure (\<lambda>(x, be, l, ctl, m, s, wire, eof, events). operations_left s)")
    (auto dest: read_step_Inr intro: stream_read_continues [OF sym])

declare read_response.simps [simp del]

section \<open>The exchange\<close>

definition codec_new :: "http1_ext \<Rightarrow> 'b byte_stream \<Rightarrow> http1_limits \<Rightarrow> http1_error + 'b http1_codec" where
  "codec_new x stream l =
     bind_r (validate_http1_limits l) (\<lambda>l.
     bind_r (map_err HttpStreamAudit (stream_verify (hp_stream x) (bs_audit stream))) (\<lambda>_.
     bind_r (map_err HttpAudit (http1_audit_new (tail_hash (bs_audit stream)))) (\<lambda>audit.
     Inr \<lparr>hc_stream = stream, hc_limits = l, hc_audit = audit, hc_next_exchange_id = 1, hc_completed = False\<rparr>)))"

definition exchange_metadata :: "serialized_request \<Rightarrow> (string \<times> string) list" where
  "exchange_metadata z =
     (let base = [(''authority_source'', ''stream_grant''), (''connection_policy'', ''close_after_exchange''),
            (''secret_header_count'', decimal (unat (zr_secret_header_count z))),
            (''secret_wire_audit_policy'', ''length_only_redaction'')] in
      case zr_secret_lease_fingerprint z of
        None \<Rightarrow> base | Some fingerprint \<Rightarrow> AList.update ''secret_lease_fingerprint'' fingerprint base)"

definition http1_payload_hash :: "http1_ext \<Rightarrow> string \<Rightarrow> string" where
  "http1_payload_hash x bytes = to_lower_hex (hp_sha256 x bytes)"

definition exchange_event ::
  "http1_ext \<Rightarrow> stream_grant \<Rightarrow> string \<Rightarrow> http1_request \<Rightarrow> serialized_request \<Rightarrow> http1_response \<Rightarrow> string \<Rightarrow> string \<Rightarrow> string
     \<Rightarrow> http1_audit_event" where
  "exchange_event x g exchange_id q z r response_wire before after =
     \<lparr>he_exchange_id = exchange_id, he_stream_id = sg_stream_id g, he_execution_id = sg_execution_id g,
      he_request_method = hq_method q, he_request_target_sha256 = http1_payload_hash x (hq_target q),
      he_request_wire_sha256 = http1_payload_hash x (zr_redacted_audit_wire z),
      he_request_body_sha256 = http1_payload_hash x (hq_body q), he_request_header_count = zr_header_count z,
      he_request_body_bytes = of_nat (length (hq_body q)),
      he_response_wire_sha256 = http1_payload_hash x response_wire,
      he_response_body_sha256 = http1_payload_hash x (hr_body r), he_response_status = hr_status_code r,
      he_response_version = http1_version_code (hr_version r), he_response_framing = http1_framing_code (hr_framing r),
      he_response_header_count = of_nat (length (hr_headers r)), he_response_trailer_count = of_nat (length (hr_trailers r)),
      he_response_body_bytes = of_nat (length (hr_body r)), he_interim_responses = hr_interim_responses r,
      he_stream_audit_before = before, he_stream_audit_after = after, he_metadata = exchange_metadata z\<rparr>"

definition exchange_receipt :: "http1_audit_event \<Rightarrow> string \<Rightarrow> http1_exchange_receipt" where
  "exchange_receipt e tail =
     \<lparr>hx_exchange_id = he_exchange_id e, hx_stream_id = he_stream_id e, hx_execution_id = he_execution_id e,
      hx_request_method = he_request_method e, hx_request_target_sha256 = he_request_target_sha256 e,
      hx_request_wire_sha256 = he_request_wire_sha256 e, hx_request_body_sha256 = he_request_body_sha256 e,
      hx_request_header_count = he_request_header_count e, hx_request_body_bytes = he_request_body_bytes e,
      hx_response_wire_sha256 = he_response_wire_sha256 e, hx_response_body_sha256 = he_response_body_sha256 e,
      hx_response_status = he_response_status e, hx_response_version = he_response_version e,
      hx_response_framing = he_response_framing e, hx_response_header_count = he_response_header_count e,
      hx_response_trailer_count = he_response_trailer_count e, hx_response_body_bytes = he_response_body_bytes e,
      hx_interim_responses = he_interim_responses e, hx_stream_audit_before = he_stream_audit_before e,
      hx_stream_audit_after = he_stream_audit_after e, hx_http_audit_tail = tail\<rparr>"

text \<open>What follows the response: the stream is closed and its chain checked, then the exchange is recorded.\<close>

definition settle_stream :: "http1_ext \<Rightarrow> 'b stream_backend \<Rightarrow> 'b byte_stream \<Rightarrow> 'b byte_stream \<times> (http1_error + unit)" where
  "settle_stream x be s =
     (let (s, closed) =
        (if \<not> stream_is_terminal (bs_state s) then
           (case stream_close (hp_stream x) be s of
              (s, Inl err) \<Rightarrow> (s, Inl (HttpStream err)) | (s, Inr _) \<Rightarrow> (s, Inr ()))
         else (s, Inr ())) in
      (s, bind_r closed (\<lambda>_. map_err HttpStreamAudit (stream_verify (hp_stream x) (bs_audit s)))))"

definition record_exchange ::
  "http1_ext \<Rightarrow> 'b http1_codec \<Rightarrow> http1_request \<Rightarrow> serialized_request \<Rightarrow> string \<Rightarrow> http1_response \<Rightarrow> string
     \<Rightarrow> 'b http1_codec \<times> (http1_error + http1_exchange)" where
  "record_exchange x c q z before r response_wire =
     (let after = tail_hash (bs_audit (hc_stream c));
          exchange_id = ''http1-exchange-'' @ decimal_pad 20 (unat (hc_next_exchange_id c));
          c = c\<lparr>hc_completed := True, hc_next_exchange_id := saturating_add (hc_next_exchange_id c) 1\<rparr>;
          event = exchange_event x (bs_grant (hc_stream c)) exchange_id q z r response_wire before after in
      case http1_append x (hc_audit c) event of
        (a, Inl err) \<Rightarrow> (c\<lparr>hc_audit := a\<rparr>, Inl (HttpAudit (Http1Chain err)))
      | (a, Inr rec) \<Rightarrow>
          (c\<lparr>hc_audit := a\<rparr>, Inr \<lparr>xg_response = r, xg_receipt = exchange_receipt event (rec_hash rec)\<rparr>))"

definition exchange_internal ::
  "http1_ext \<Rightarrow> 'b stream_backend \<Rightarrow> 'b http1_codec \<Rightarrow> http1_request \<Rightarrow> (secret_header_lease \<times> i64) option \<Rightarrow> stream_control
     \<Rightarrow> 'b http1_codec \<times> secret_header_lease option \<times> (http1_error + http1_exchange)" where
  "exchange_internal x be c q secrets ctl =
     (if hc_completed c then (c, map_option fst secrets, Inl ExchangeAlreadyCompleted)
      else if stream_is_terminal (bs_state (hc_stream c)) then
        (c, map_option fst secrets, Inl (HttpStreamState (bs_state (hc_stream c))))
      else
        let s = hc_stream c; l = hc_limits c in
        (case serialize_request q (sg_http_host (bs_grant s)) (sg_scheme (bs_grant s)) l secrets of
           (lease, Inl err) \<Rightarrow> (c, lease, Inl err)
         | (lease, Inr z) \<Rightarrow>
             (case write_all (hp_stream x) be l ctl s (zr_wire z) 0 of
                (s1, Inl err) \<Rightarrow> (c\<lparr>hc_stream := s1\<rparr>, lease, Inl err)
              | (s1, Inr _) \<Rightarrow>
                  (case read_response (hp_stream x) be l ctl (hq_method q) s1 [] False 0 of
                     (s2, Inl err) \<Rightarrow> (c\<lparr>hc_stream := s2\<rparr>, lease, Inl err)
                   | (s2, Inr (r, response_wire)) \<Rightarrow>
                       (case settle_stream x be s2 of
                          (s3, Inl err) \<Rightarrow> (c\<lparr>hc_stream := s3\<rparr>, lease, Inl err)
                        | (s3, Inr _) \<Rightarrow>
                            (case record_exchange x (c\<lparr>hc_stream := s3\<rparr>) q z (tail_hash (bs_audit s)) r response_wire of
                               (c, result) \<Rightarrow> (c, lease, result)))))))"

definition codec_exchange ::
  "http1_ext \<Rightarrow> 'b stream_backend \<Rightarrow> 'b http1_codec \<Rightarrow> http1_request \<Rightarrow> stream_control
     \<Rightarrow> 'b http1_codec \<times> (http1_error + http1_exchange)" where
  "codec_exchange x be c q ctl =
     (case exchange_internal x be c q None ctl of (c, _, result) \<Rightarrow> (c, result))"

definition exchange_with_secret_headers ::
  "http1_ext \<Rightarrow> 'b stream_backend \<Rightarrow> 'b http1_codec \<Rightarrow> http1_request \<Rightarrow> secret_header_lease \<Rightarrow> i64 \<Rightarrow> stream_control
     \<Rightarrow> 'b http1_codec \<times> secret_header_lease \<times> (http1_error + http1_exchange)" where
  "exchange_with_secret_headers x be c q lease now ctl =
     (case exchange_internal x be c q (Some (lease, now)) ctl of
        (c, lease', result) \<Rightarrow> (c, (case lease' of Some l \<Rightarrow> l | None \<Rightarrow> lease), result))"

section \<open>The loops as histories of the stream\<close>

lemma stream_run_length: "stream_run x be cs s = (s', rs) \<Longrightarrow> length rs = length cs"
  by (induction cs arbitrary: s rs) (auto split: prod.split_asm)

lemma stream_run_append:
  "stream_run x be cs s = (s1, rs) \<Longrightarrow> stream_run x be ds s1 = (s2, qs) \<Longrightarrow> stream_run x be (cs @ ds) s = (s2, rs @ qs)"
  by (induction cs arbitrary: s rs) (auto split: prod.split_asm)

text \<open>A history without audit failures that sends and delivers the given bytes.\<close>

definition transfers ::
  "stream_ext \<Rightarrow> 'b stream_backend \<Rightarrow> 'b stream_call list \<Rightarrow> 'b byte_stream \<Rightarrow> string \<Rightarrow> string \<Rightarrow> 'b byte_stream \<Rightarrow> bool" where
  "transfers x be cs s out inc s' \<longleftrightarrow>
     (\<exists>rs. stream_run x be cs s = (s', rs) \<and> list_all (\<lambda>r. \<not> audit_failed r) rs
        \<and> concat (map2 sent cs rs) = out \<and> concat (map delivered rs) = inc)
     \<and> (\<forall>c \<in> set cs. \<forall>f. c \<noteq> CallBackend f)"

lemma transfers_Nil [simp]: "transfers x be [] s out inc s' \<longleftrightarrow> s' = s \<and> out = [] \<and> inc = []"
  by (auto simp: transfers_def)

lemma transfers_Cons:
  assumes "stream_do x be c s = (s1, r)" "\<not> audit_failed r" "\<And>f. c \<noteq> CallBackend f" "transfers x be cs s1 out inc s'"
  shows "transfers x be (c # cs) s (sent c r @ out) (delivered r @ inc) s'"
  using assms by (auto simp: transfers_def)

lemma transfers_append:
  assumes "transfers x be cs s out inc s1" "transfers x be ds s1 out' inc' s2"
  shows "transfers x be (cs @ ds) s (out @ out') (inc @ inc') s2"
proof -
  from assms obtain rs qs where "stream_run x be cs s = (s1, rs)" "stream_run x be ds s1 = (s2, qs)"
    "list_all (\<lambda>r. \<not> audit_failed r) (rs @ qs)" "concat (map2 sent cs rs) = out" "concat (map2 sent ds qs) = out'"
    "concat (map delivered rs) = inc" "concat (map delivered qs) = inc'"
    by (auto simp: transfers_def)
  with stream_run_append stream_run_length assms show ?thesis unfolding transfers_def
    by (intro conjI exI [of _ "rs @ qs"]) (fastforce simp: zip_append)+
qed

lemma transfers_facts:
  assumes "transfers x be cs s out inc s'" "stream_wf x s"
  shows "stream_wf x s'" "bs_grant s' = bs_grant s" "bs_limits s' = bs_limits s"
    "genesis_anchor (bs_audit s') = genesis_anchor (bs_audit s)"
  using assms stream_run_facts [OF assms(2)] by (auto simp: transfers_def run_facts_def)

lemma write_settled:
  assumes "stream_write x be s bytes ctl = (s', Inr rc)" "op_outcome rc \<in> {SoWritten, SoPartialWrite, SoBackpressure}"
  shows "bs_state s' = bs_state s" "op_outcome rc = SoBackpressure \<Longrightarrow> op_transferred_bytes rc = 0"
proof -
  have "bs_state s' = bs_state s \<and> (op_outcome rc = SoBackpressure \<longrightarrow> op_transferred_bytes rc = 0)"
    using assms(1)
  proof (cases rule: stream_write_cases)
    case (settled b report k u st m)
    note f = stream_record_fields [OF settled(12)]
    show ?thesis using settled(7,10) f(1) f(9) [OF refl] assms(2)
      by (cases "bw_status report") (auto split: if_split_asm)
  next
    case (stopped u)
    with stream_record_fields(9) [OF stopped(3) refl] control_outcome_code [of ctl u] assms(2) show ?thesis by auto
  next
    case (late b report u)
    with stream_record_fields(9) [OF late(7) refl] assms(2) show ?thesis by auto
  qed simp
  then show "bs_state s' = bs_state s" "op_outcome rc = SoBackpressure \<Longrightarrow> op_transferred_bytes rc = 0" by simp_all
qed

lemma write_all_transfers:
  "write_all x be l ctl s bytes events = (s', Inr u) \<Longrightarrow>
   (\<exists>cs. transfers x be cs s bytes [] s') \<and> bs_state s' = bs_state s"
proof (induction x be l ctl s bytes events rule: write_all.induct)
  case (1 x be l ctl s bytes events)
  show ?case
  proof (cases "bytes = []")
    case True
    then show ?thesis using 1(2) by (subst (asm) write_all.simps) (auto intro!: exI [of _ "[]"])
  next
    case False
    let ?chunk = "take (unat (hm_io_operation_bytes l)) bytes"
    obtain s1 rc n events' where w: "stream_write x be s ?chunk ctl = (s1, Inr rc)"
      and st: "write_step l (length ?chunk) events rc = Inr (n, events')"
      and rec: "write_all x be l ctl s1 (drop n bytes) events' = (s', Inr u)"
      using 1(2) False by (subst (asm) write_all.simps) (auto simp: Let_def split: prod.split_asm sum.split_asm)
    from 1(1) [OF False refl w [symmetric] refl st refl rec] obtain cs where
      cs: "transfers x be cs s1 (drop n bytes) [] s'" and s': "bs_state s' = bs_state s1" by blast
    note ok = write_step_Inr [OF st] and fields = write_settled [OF w]
    have n: "n = unat (op_transferred_bytes rc)"
      using st ok fields(2) by (auto simp: write_step_def Let_def split: if_split_asm)
    have "transfers x be (CallWrite ?chunk ctl # cs) s (take n ?chunk @ drop n bytes) [] s'"
      using transfers_Cons [of x be "CallWrite ?chunk ctl" s s1 "ReplyOperation (Inr rc)" cs "drop n bytes" "[]" s'] w cs n by simp
    moreover have "n \<le> unat (hm_io_operation_bytes l)" using ok by simp
    then have "take n ?chunk @ drop n bytes = bytes" by (simp add: min_def)
    ultimately show ?thesis using s' fields(1) ok by auto
  qed
qed

lemma read_settled:
  assumes "stream_read x be s n ctl = (s', Inr rr)" "op_outcome (rr_receipt rr) \<in> {SoData, SoBackpressure, SoEof}"
  shows "op_outcome (rr_receipt rr) \<noteq> SoData \<Longrightarrow> rr_bytes rr = []"
    and "bs_state s' = (if op_outcome (rr_receipt rr) = SoEof then close_read_side (bs_state s) else bs_state s)"
    and "bs_state s \<in> {SOpen, SWriteClosed}"
proof -
  have "(op_outcome (rr_receipt rr) \<noteq> SoData \<longrightarrow> rr_bytes rr = [])
    \<and> bs_state s' = (if op_outcome (rr_receipt rr) = SoEof then close_read_side (bs_state s) else bs_state s)
    \<and> bs_state s \<in> {SOpen, SWriteClosed}"
    using assms(1)
  proof (cases rule: stream_read_cases)
    case (settled b report bytes u st m q)
    then obtain rc where q: "q = Inr rc" "rr = \<lparr>rr_bytes = bytes, rr_receipt = rc\<rparr>" by (cases q) auto
    note f = stream_record_fields [OF settled(12)]
    show ?thesis using settled(1,7) f(1) f(9) [OF q(1)] assms(2) q(2)
      by (cases "br_status report") (auto simp: backend_read_overflow_def can_read_def split: if_split_asm)
  next
    case (stopped u q)
    then obtain rc where "q = Inr rc" "rr_receipt rr = rc" by (cases q) auto
    with stream_record_fields(9) [OF stopped(4), of rc] control_outcome_code [of ctl u] stopped(2) assms(2) show ?thesis by auto
  next
    case (late b report u q)
    then obtain rc where "q = Inr rc" "rr_receipt rr = rc" by (cases q) auto
    with stream_record_fields(9) [OF late(7), of rc] late(6) assms(2) show ?thesis by auto
  qed simp
  then show "op_outcome (rr_receipt rr) \<noteq> SoData \<Longrightarrow> rr_bytes rr = []"
    "bs_state s' = (if op_outcome (rr_receipt rr) = SoEof then close_read_side (bs_state s) else bs_state s)"
    "bs_state s \<in> {SOpen, SWriteClosed}" by blast+
qed

lemma read_response_transfers:
  "read_response x be l ctl m s wire eof events = (s', Inr (r, w)) \<Longrightarrow> length wire \<le> unat (hm_response_wire_bytes l) \<Longrightarrow>
   bs_state s \<in> {SOpen, SReadClosed, SWriteClosed, SClosed} \<Longrightarrow>
   (\<exists>cs inc. transfers x be cs s [] inc s' \<and> w = wire @ inc) \<and> length w \<le> unat (hm_response_wire_bytes l)
   \<and> (\<exists>eof. parse_response w eof m l = Inr (Complete r (length w))) \<and> bs_state s' \<in> {SOpen, SReadClosed, SWriteClosed, SClosed}"
proof (induction x be l ctl m s wire eof events rule: read_response.induct)
  case (1 x be l ctl m s wire eof events)
  show ?case
  proof (cases "parse_response wire eof m l")
    case (Inl err)
    then show ?thesis using 1(2) by (subst (asm) read_response.simps) simp
  next
    case (Inr p)
    show ?thesis
    proof (cases p)
      case (Complete r' k)
      then show ?thesis using 1(2-4) Inr
        by (subst (asm) read_response.simps) (auto intro!: exI [of _ "[]"] split: if_split_asm)
    next
      case Incomplete
      obtain s1 rr wire' eof' events' where e: "\<not> eof" and rd: "stream_read x be s (hm_io_operation_bytes l) ctl = (s1, Inr rr)"
        and st: "read_step l wire eof events rr = Inr (wire', eof', events')"
        and rec: "read_response x be l ctl m s1 wire' eof' events' = (s', Inr (r, w))"
        using 1(2) Inr Incomplete
        by (subst (asm) read_response.simps) (auto split: prod.split_asm sum.split_asm if_split_asm)
      note ok = read_step_Inr [OF st]
      then have o: "op_outcome (rr_receipt rr) \<in> {SoData, SoBackpressure, SoEof}" by blast
      note f = read_settled [OF rd o]
      have "bs_state s1 \<in> {SOpen, SReadClosed, SWriteClosed, SClosed}" using f(2,3) by (auto split: if_split_asm)
      from 1(1) [OF Inr Incomplete e rd [symmetric] refl st refl refl rec _ this] ok obtain cs inc where
        cs: "transfers x be cs s1 [] inc s'" "w = wire' @ inc" and rest: "length w \<le> unat (hm_response_wire_bytes l)"
        "\<exists>eof. parse_response w eof m l = Inr (Complete r (length w))" "bs_state s' \<in> {SOpen, SReadClosed, SWriteClosed, SClosed}"
        by blast
      have "transfers x be (CallRead (hm_io_operation_bytes l) ctl # cs) s [] (rr_bytes rr @ inc) s'"
        using transfers_Cons [of x be "CallRead (hm_io_operation_bytes l) ctl" s s1 "ReplyRead (Inr rr)" cs "[]" inc s'] rd cs(1) by simp
      moreover have "w = wire @ rr_bytes rr @ inc" using cs(2) ok f(1) by (auto split: if_split_asm)
      ultimately show ?thesis using rest by blast
    qed
  qed
qed

lemma settle_stream_transfers:
  assumes "settle_stream x be s = (s', Inr u)"
  shows "(\<exists>cs. transfers (hp_stream x) be cs s [] [] s') \<and> stream_is_terminal (bs_state s')
    \<and> stream_verify (hp_stream x) (bs_audit s') = Inr ()"
proof (cases "stream_is_terminal (bs_state s)")
  case True
  with assms show ?thesis by (auto simp: settle_stream_def result_simps intro!: exI [of _ "[]"])
next
  case False
  from assms False obtain rc where c: "stream_close (hp_stream x) be s = (s', Inr rc)"
    and v: "stream_verify (hp_stream x) (bs_audit s') = Inr ()"
    by (auto simp: settle_stream_def result_simps split: prod.split_asm sum.split_asm)
  have r: "stream_record (hp_stream x) (s\<lparr>bs_backend := be_close be (bs_backend s), bs_state := SClosed\<rparr>) None SoClosed
      metrics_default (bs_state s) SClosed = (s', Inr rc)" using c False by (simp add: stream_close_def Let_def)
  have "transfers (hp_stream x) be [CallClose] s [] [] s'"
    using transfers_Cons [of "hp_stream x" be CallClose s s' "ReplyOperation (Inr rc)" "[]" "[]" "[]" s'] c by simp
  then show ?thesis using v stream_record_fields(1) [OF r] by auto
qed

section \<open>What an exchange does\<close>

lemma exchange_Inr:
  assumes "exchange_internal x be c q secrets ctl = (c', lease', Inr g)"
  obtains z s1 s2 r wire s3 where "\<not> hc_completed c" "\<not> stream_is_terminal (bs_state (hc_stream c))"
    "serialize_request q (sg_http_host (bs_grant (hc_stream c))) (sg_scheme (bs_grant (hc_stream c))) (hc_limits c) secrets = (lease', Inr z)"
    "write_all (hp_stream x) be (hc_limits c) ctl (hc_stream c) (zr_wire z) 0 = (s1, Inr ())"
    "read_response (hp_stream x) be (hc_limits c) ctl (hq_method q) s1 [] False 0 = (s2, Inr (r, wire))"
    "settle_stream x be s2 = (s3, Inr ())"
    "record_exchange x (c\<lparr>hc_stream := s3\<rparr>) q z (tail_hash (bs_audit (hc_stream c))) r wire = (c', Inr g)"
  using assms
  by (auto simp: exchange_internal_def Let_def split: if_split_asm prod.split_asm sum.split_asm)

lemma record_exchange_Inr:
  assumes "record_exchange x c q z before r wire = (c', Inr g)"
  shows "hc_stream c' = hc_stream c" "hc_limits c' = hc_limits c" "hc_completed c'" "xg_response g = r"
    "\<exists>id event. chain_events (hc_audit c') = chain_events (hc_audit c) @ [event]
       \<and> event = exchange_event x (bs_grant (hc_stream c)) id q z r wire before (tail_hash (bs_audit (hc_stream c)))
       \<and> xg_receipt g = exchange_receipt event (tail_hash (hc_audit c'))"
    "http1_verify x (hc_audit c) = Inr () \<Longrightarrow> http1_verify x (hc_audit c') = Inr ()"
    "genesis_anchor (hc_audit c') = genesis_anchor (hc_audit c)"
proof -
  let ?c = "c\<lparr>hc_completed := True, hc_next_exchange_id := saturating_add (hc_next_exchange_id c) 1\<rparr>"
  obtain id a rec where app: "http1_append x (hc_audit c) (exchange_event x (bs_grant (hc_stream c)) id q z r wire before (tail_hash (bs_audit (hc_stream c)))) = (a, Inr rec)"
    and c': "c' = ?c\<lparr>hc_audit := a\<rparr>" and g: "g = \<lparr>xg_response = r, xg_receipt = exchange_receipt
      (exchange_event x (bs_grant (hc_stream c)) id q z r wire before (tail_hash (bs_audit (hc_stream c)))) (rec_hash rec)\<rparr>"
    using assms by (auto simp: record_exchange_def Let_def split: prod.split_asm sum.split_asm)
  have t: "tail_hash a = rec_hash rec" using chain_append_Inr(2) [OF app [unfolded http1_append_def]] .
  show "hc_stream c' = hc_stream c" "hc_limits c' = hc_limits c" "hc_completed c'" "xg_response g = r" by (simp_all add: c' g)
  show "\<exists>id event. chain_events (hc_audit c') = chain_events (hc_audit c) @ [event]
       \<and> event = exchange_event x (bs_grant (hc_stream c)) id q z r wire before (tail_hash (bs_audit (hc_stream c)))
       \<and> xg_receipt g = exchange_receipt event (tail_hash (hc_audit c'))"
    using http1_log.append_adds [OF app] t by (auto simp: c' g)
  show "http1_verify x (hc_audit c) = Inr () \<Longrightarrow> http1_verify x (hc_audit c') = Inr ()"
    using http1_log.append_keeps_valid [OF app] by (simp add: c')
  show "genesis_anchor (hc_audit c') = genesis_anchor (hc_audit c)" using http1_append_genesis [OF app] by (simp add: c')
qed

section \<open>Histories of a codec\<close>

text \<open>What every operation keeps of the stream, also when it fails.\<close>

definition keeps :: "stream_ext \<Rightarrow> 'b byte_stream \<Rightarrow> 'b byte_stream \<Rightarrow> bool" where
  "keeps x s s' \<longleftrightarrow> (stream_wf x s \<longrightarrow>
     stream_wf x s' \<and> bs_grant s' = bs_grant s \<and> bs_limits s' = bs_limits s
     \<and> genesis_anchor (bs_audit s') = genesis_anchor (bs_audit s))"

lemma keeps_refl [simp]: "keeps x s s"
  by (simp add: keeps_def)

lemma keeps_trans: "keeps x s s1 \<Longrightarrow> keeps x s1 s2 \<Longrightarrow> keeps x s s2"
  by (auto simp: keeps_def)

lemma keeps_write: "stream_write x be s bytes ctl = (s', r) \<Longrightarrow> keeps x s s'"
  using stream_write_evolves [of x s be bytes ctl s' r] by (auto simp: keeps_def evolves_def)

lemma keeps_read: "stream_read x be s n ctl = (s', r) \<Longrightarrow> keeps x s s'"
  using stream_read_evolves [of x s be n ctl s' r] by (auto simp: keeps_def evolves_def)

lemma keeps_close: "stream_close x be s = (s', r) \<Longrightarrow> keeps x s s'"
  using stream_close_evolves [of x s be s' r] by (auto simp: keeps_def evolves_def)

lemma keeps_write_all: "write_all x be l ctl s bytes events = (s', r) \<Longrightarrow> keeps x s s'"
proof (induction x be l ctl s bytes events rule: write_all.induct)
  case (1 x be l ctl s bytes events)
  show ?case
  proof (cases "bytes = []")
    case True
    then show ?thesis using 1(2) by (subst (asm) write_all.simps) simp
  next
    case False
    let ?chunk = "take (unat (hm_io_operation_bytes l)) bytes"
    obtain s1 q where w: "stream_write x be s ?chunk ctl = (s1, q)" by fastforce
    show ?thesis
    proof (cases "\<exists>rc p. q = Inr rc \<and> write_step l (length ?chunk) events rc = Inr p")
      case True
      then obtain rc n e where q: "q = Inr rc" "write_step l (length ?chunk) events rc = Inr (n, e)" by auto
      have "write_all x be l ctl s1 (drop n bytes) e = (s', r)"
        using 1(2) False w q by (subst (asm) write_all.simps) (simp add: Let_def)
      from 1(1) [OF False refl w [unfolded q(1), symmetric] refl q(2) refl this] keeps_write [OF w] show ?thesis by (rule keeps_trans [rotated])
    next
      case no: False
      then have "s' = s1" using 1(2) False w
        by (subst (asm) write_all.simps) (auto simp: Let_def split: sum.split_asm)
      then show ?thesis using keeps_write [OF w] by simp
    qed
  qed
qed

lemma keeps_read_response: "read_response x be l ctl m s wire eof events = (s', r) \<Longrightarrow> keeps x s s'"
proof (induction x be l ctl m s wire eof events rule: read_response.induct)
  case (1 x be l ctl m s wire eof events)
  show ?case
  proof (cases "parse_response wire eof m l = Inr Incomplete \<and> \<not> eof")
    case False
    then have "s' = s" using 1(2)
      by (subst (asm) read_response.simps) (auto split: sum.split_asm parse_progress.split_asm if_split_asm)
    then show ?thesis by simp
  next
    case True
    then have p: "parse_response wire eof m l = Inr Incomplete" "\<not> eof" by blast+
    obtain s1 q where w: "stream_read x be s (hm_io_operation_bytes l) ctl = (s1, q)" by fastforce
    show ?thesis
    proof (cases "\<exists>rr y. q = Inr rr \<and> read_step l wire eof events rr = Inr y")
      case True
      then obtain rr wire' eof' e where q: "q = Inr rr" "read_step l wire eof events rr = Inr (wire', eof', e)" by auto
      have "read_response x be l ctl m s1 wire' eof' e = (s', r)"
        using 1(2) p w q by (subst (asm) read_response.simps) simp
      from 1(1) [OF p(1) refl p(2) w [unfolded q(1), symmetric] refl q(2) refl refl this] keeps_read [OF w] show ?thesis by (rule keeps_trans [rotated])
    next
      case no: False
      then have "s' = s1" using 1(2) p w
        by (subst (asm) read_response.simps) (auto split: sum.split_asm)
      then show ?thesis using keeps_read [OF w] by simp
    qed
  qed
qed

lemma keeps_settle: "settle_stream x be s = (s', r) \<Longrightarrow> keeps (hp_stream x) s s'"
  by (auto simp: settle_stream_def split: if_split_asm prod.split_asm sum.split_asm dest: keeps_close)

fun codec_run ::
  "http1_ext \<Rightarrow> 'b stream_backend \<Rightarrow> (http1_request \<times> (secret_header_lease \<times> i64) option \<times> stream_control) list \<Rightarrow> 'b http1_codec
     \<Rightarrow> 'b http1_codec \<times> (http1_error + http1_exchange) list" where
  "codec_run x be [] c = (c, [])"
| "codec_run x be ((q, secrets, ctl) # calls) c =
     (let (c1, _, r) = exchange_internal x be c q secrets ctl; (c2, rs) = codec_run x be calls c1 in (c2, r # rs))"

definition successes :: "('e + 'a) list \<Rightarrow> 'a list" where
  "successes rs = concat (map (\<lambda>r. case r of Inl _ \<Rightarrow> [] | Inr a \<Rightarrow> [a]) rs)"

lemma successes_simps [simp]: "successes [] = []" "successes (Inl e # rs) = successes rs" "successes (Inr a # rs) = a # successes rs"
  by (simp_all add: successes_def)

definition codec_inv :: "http1_ext \<Rightarrow> 'b http1_codec \<Rightarrow> bool" where
  "codec_inv x c \<longleftrightarrow> stream_wf (hp_stream x) (hc_stream c) \<and> http1_verify x (hc_audit c) = Inr ()"

lemma record_exchange_keeps:
  assumes "record_exchange x c q z before r wire = (c', g)"
  shows "hc_stream c' = hc_stream c" "hc_completed c'" "genesis_anchor (hc_audit c') = genesis_anchor (hc_audit c)"
    "http1_verify x (hc_audit c) = Inr () \<Longrightarrow> http1_verify x (hc_audit c') = Inr ()" "isl g \<Longrightarrow> hc_audit c' = hc_audit c"
proof -
  obtain ev a y where app: "http1_append x (hc_audit c) ev = (a, y)" and a: "hc_audit c' = a" and y: "isl g = isl y"
    and c': "hc_stream c' = hc_stream c" "hc_completed c'"
    using assms by (auto simp: record_exchange_def Let_def split: prod.split_asm sum.split_asm)
  show "hc_stream c' = hc_stream c" "hc_completed c'" by (fact c')+
  show "genesis_anchor (hc_audit c') = genesis_anchor (hc_audit c)" using http1_append_genesis [OF app] a by simp
  show "http1_verify x (hc_audit c) = Inr () \<Longrightarrow> http1_verify x (hc_audit c') = Inr ()"
    using http1_log.extends_append [OF app] a by (simp add: log_extends_def)
  show "isl g \<Longrightarrow> hc_audit c' = hc_audit c" using http1_log.append_fails app a y by (cases y) auto
qed

text \<open>Where an exchange can end: before the stream is used, or after one of its phases.\<close>

lemma exchange_cases:
  assumes "exchange_internal x be c q secrets ctl = (c', lease', r)"
  obtains (refused) "c' = c" "isl r"
  | (failed) s where "c' = c\<lparr>hc_stream := s\<rparr>" "isl r" "\<not> hc_completed c" "keeps (hp_stream x) (hc_stream c) s"
  | (recorded) s z resp wire where "\<not> hc_completed c" "keeps (hp_stream x) (hc_stream c) s"
      "record_exchange x (c\<lparr>hc_stream := s\<rparr>) q z (tail_hash (bs_audit (hc_stream c))) resp wire = (c', r)"
proof (cases "hc_completed c \<or> stream_is_terminal (bs_state (hc_stream c))
    \<or> isl (snd (serialize_request q (sg_http_host (bs_grant (hc_stream c))) (sg_scheme (bs_grant (hc_stream c))) (hc_limits c) secrets))")
  case True
  then show thesis using assms by (intro refused) (auto simp: exchange_internal_def Let_def split: if_split_asm prod.split_asm sum.split_asm)
next
  case False
  obtain le y where y: "serialize_request q (sg_http_host (bs_grant (hc_stream c))) (sg_scheme (bs_grant (hc_stream c))) (hc_limits c) secrets = (le, y)"
    by (rule prod.exhaust)
  with False obtain z where "y = Inr z" by (cases y) auto
  note z = y [unfolded this]
  note e = assms [unfolded exchange_internal_def Let_def z]
  obtain s1 w where w: "write_all (hp_stream x) be (hc_limits c) ctl (hc_stream c) (zr_wire z) 0 = (s1, w)" by fastforce
  obtain s2 rd where rd: "read_response (hp_stream x) be (hc_limits c) ctl (hq_method q) s1 [] False 0 = (s2, rd)" by fastforce
  obtain s3 st where st: "settle_stream x be s2 = (s3, st)" by fastforce
  note k1 = keeps_write_all [OF w] and k2 = keeps_trans [OF keeps_write_all [OF w] keeps_read_response [OF rd]]
  note k3 = keeps_trans [OF k2 keeps_settle [OF st]]
  show thesis
  proof (cases "isl w \<or> isl rd \<or> isl st")
    case True
    then obtain s where "c' = c\<lparr>hc_stream := s\<rparr>" "s \<in> {s1, s2, s3}" "isl r"
      using e False w rd st by (auto split: sum.split_asm prod.split_asm)
    then show thesis using k1 k2 k3 False by (intro failed [of s]) auto
  next
    case ok: False
    then obtain resp wire where "rd = Inr (resp, wire)" by (cases rd) auto
    with ok e False w rd st have "record_exchange x (c\<lparr>hc_stream := s3\<rparr>) q z (tail_hash (bs_audit (hc_stream c))) resp wire = (c', r)"
      by (cases w; cases st) (auto split: prod.split_asm)
    then show thesis using False by (intro recorded [OF _ k3]) auto
  qed
qed

lemma exchange_effect:
  assumes "exchange_internal x be c q secrets ctl = (c', lease', r)" "codec_inv x c"
  shows "codec_inv x c' \<and> bs_grant (hc_stream c') = bs_grant (hc_stream c)
    \<and> genesis_anchor (hc_audit c') = genesis_anchor (hc_audit c)
    \<and> (isl r \<longrightarrow> hc_audit c' = hc_audit c) \<and> (hc_completed c \<longrightarrow> c' = c \<and> isl r)"
  using assms(1)
proof (cases rule: exchange_cases)
  case refused
  then show ?thesis using assms(2) by simp
next
  case (failed s)
  then show ?thesis using assms(2) by (simp add: codec_inv_def keeps_def)
next
  case (recorded s z resp wire)
  then show ?thesis using assms(2) record_exchange_keeps [OF recorded(3)] by (simp add: codec_inv_def keeps_def)
qed

lemma completed_run: "hc_completed c \<Longrightarrow> codec_run x be calls c = (c', rs) \<Longrightarrow> c' = c \<and> successes rs = []"
  by (induction calls arbitrary: rs) (auto simp: exchange_internal_def split: prod.split_asm)

lemma codec_run_facts:
  "codec_run x be calls c = (c', rs) \<Longrightarrow> codec_inv x c \<Longrightarrow>
   codec_inv x c' \<and> bs_grant (hc_stream c') = bs_grant (hc_stream c) \<and> genesis_anchor (hc_audit c') = genesis_anchor (hc_audit c)
   \<and> (successes rs = [] \<and> hc_audit c' = hc_audit c
      \<or> (\<exists>g ev. successes rs = [g] \<and> chain_events (hc_audit c') = chain_events (hc_audit c) @ [ev]
           \<and> xg_receipt g = exchange_receipt ev (tail_hash (hc_audit c')) \<and> hc_completed c'))"
proof (induction calls arbitrary: c rs)
  case (Cons call calls)
  obtain q secrets ctl where call: "call = (q, secrets, ctl)" by (cases call)
  obtain c1 le r rs1 where e: "exchange_internal x be c q secrets ctl = (c1, le, r)" and run: "codec_run x be calls c1 = (c', rs1)"
    and rs: "rs = r # rs1" using Cons.prems(1) by (auto simp: call split: prod.split_asm)
  note eff = exchange_effect [OF e Cons.prems(2)]
  show ?case
  proof (cases r)
    case (Inl err)
    then show ?thesis using Cons.IH [OF run] eff by (auto simp: rs)
  next
    case (Inr g)
    have fin: "hc_completed c1" "\<exists>ev. chain_events (hc_audit c1) = chain_events (hc_audit c) @ [ev]
        \<and> xg_receipt g = exchange_receipt ev (tail_hash (hc_audit c1))"
      using e unfolding Inr by (rule exchange_Inr, use record_exchange_Inr(3,5) in fastforce)+
    then have "c' = c1 \<and> successes rs1 = []" using completed_run [OF fin(1) run] by simp
    then show ?thesis using eff fin by (auto simp: rs Inr)
  qed
qed simp

end
