(* ===== verification/Http1_Conversation.thy ===== *)
theory Http1_Conversation
  imports Http1_Codec
begin

text \<open>
  Exchanges that succeed. Over a conversation fixture, within the budgets of the stream and the limits of
  the codec, an exchange returns the response the fixture serves and the fixture has captured the
  request, whatever the fragments into which the two directions are cut.
\<close>

section \<open>Operations that settle\<close>

definition stream_records :: "stream_ext \<Rightarrow> bool" where
  "stream_records x \<longleftrightarrow> (\<forall>p. \<not> isl (ser_stream x p))"

lemma record_returns:
  assumes "stream_records x"
  shows "\<exists>au. stream_record x s d u m b a =
    (s\<lparr>bs_operation_count := saturating_add (bs_operation_count s) 1, bs_audit := au\<rparr>,
     Inr (operation_receipt (s\<lparr>bs_operation_count := saturating_add (bs_operation_count s) 1\<rparr>) d u m b a))"
proof -
  have "\<exists>h. stream_record_hash x n p e = Inr h" for n p e
  proof -
    have "\<not> isl (ser_stream x (n, p, e))" using assms by (simp add: stream_records_def)
    then show ?thesis by (cases "ser_stream x (n, p, e)") (auto simp: stream_record_hash_def chain_hash_def result_simps)
  qed
  then obtain h where h: "stream_record_hash x (of_nat (length (chain_records (bs_audit s))) + 1) (tail_hash (bs_audit s))
      (operation_event (s\<lparr>bs_operation_count := saturating_add (bs_operation_count s) 1\<rparr>) d u m b a) = Inr h" by blast
  show ?thesis by (simp add: stream_record_def stream_append_def chain_append_def Let_def h) blast
qed

text \<open>What is left of the budgets of a stream.\<close>

definition room :: "'b byte_stream \<Rightarrow> nat \<Rightarrow> nat \<Rightarrow> nat \<Rightarrow> nat \<Rightarrow> bool" where
  "room s operations writes reads time \<longleftrightarrow>
     unat (bs_operation_count s) + operations \<le> unat (sl_maximum_operations (bs_limits s))
     \<and> unat (bs_written_bytes s) + writes \<le> unat (sl_maximum_write_bytes (bs_limits s))
     \<and> unat (bs_read_bytes s) + reads \<le> unat (sl_maximum_read_bytes (bs_limits s))
     \<and> unat (bs_elapsed s) + time \<le> unat (sl_total_deadline (bs_limits s))"

lemma room_add:
  assumes "unat (c :: u64) + unat (k :: u64) \<le> unat (M :: u64)"
  shows "unat (saturating_add c k) = unat c + unat k" "\<not> M < saturating_add c k"
  using assms unat_bounds(4) [of M] by (auto simp: unat_saturating_add word_less_nat_alt)

lemma write_settles:
  assumes x: "stream_records x" and s: "can_write s (of_nat (length bytes))" "control_outcome ctl = None"
    and room: "room s (Suc ops) (length bytes + writes) reads (unat e + time)"
    and b: "be_write be (bs_backend s) bytes (sl_write_deadline (bs_limits s)) = (b, \<lparr>bw_elapsed = e, bw_status = BwWritten k\<rparr>)"
      "0 < unat k" "unat k \<le> length bytes" "e \<le> sl_write_deadline (bs_limits s)"
  shows "\<exists>s' rc. stream_write x be s bytes ctl = (s', Inr rc) \<and> op_outcome rc \<in> {SoWritten, SoPartialWrite}
    \<and> op_transferred_bytes rc = k \<and> bs_backend s' = b \<and> bs_limits s' = bs_limits s \<and> bs_state s' = bs_state s
    \<and> room s' ops (length bytes + writes - unat k) reads time"
proof -
  have len: "unat (of_nat (length bytes) :: u64) = length bytes"
    using room unat_bounds(4) [of "sl_maximum_write_bytes (bs_limits s)"] by (simp add: room_def unat_of_nat)
  have small: "\<not> sl_maximum_operations (bs_limits s) \<le> bs_operation_count s"
    "\<not> saturating_sub (sl_maximum_write_bytes (bs_limits s)) (bs_written_bytes s) < of_nat (length bytes)"
    using room len by (auto simp: room_def word_le_nat_alt word_less_nat_alt unat_saturating_sub)
  have fit: "unat (saturating_add (bs_elapsed s) e) = unat (bs_elapsed s) + unat e"
    "\<not> sl_total_deadline (bs_limits s) < saturating_add (bs_elapsed s) e"
    "unat (saturating_add (bs_written_bytes s) k) = unat (bs_written_bytes s) + unat k"
    "\<not> sl_maximum_write_bytes (bs_limits s) < saturating_add (bs_written_bytes s) k"
    "unat (saturating_add (bs_operation_count s) 1) = unat (bs_operation_count s) + 1"
    using room b(3) room_add [of "bs_elapsed s" e "sl_total_deadline (bs_limits s)"]
      room_add [of "bs_written_bytes s" k "sl_maximum_write_bytes (bs_limits s)"]
      room_add [of "bs_operation_count s" 1 "sl_maximum_operations (bs_limits s)"]
    by (simp_all add: room_def)
  have k: "k \<le> of_nat (length bytes)" using b(3) len by (simp add: word_le_nat_alt)
  let ?u = "if k = of_nat (length bytes) then SoWritten else SoPartialWrite"
  let ?m = "\<lparr>om_requested_bytes = of_nat (length bytes), om_transferred_bytes = k,
    om_payload_sha256 = (if k > 0 then Some (payload_hash x (take (unat k) bytes)) else None), om_elapsed = e\<rparr>"
  let ?s = "s\<lparr>bs_backend := b, bs_elapsed := saturating_add (bs_elapsed s) e,
    bs_written_bytes := saturating_add (bs_written_bytes s) k, bs_state := bs_state s\<rparr>"
  have "stream_write x be s bytes ctl = stream_record x ?s (Some Write) ?u ?m (bs_state s) (bs_state s)"
    using s(1) [folded write_guard] s(2) leD [OF b(4)] k small fit(2,4)
    by (simp add: stream_write_def Let_def b(1) charge_time_def)
  with record_returns [OF x, of ?s "Some Write" ?u ?m "bs_state s" "bs_state s"] obtain au where
    "stream_write x be s bytes ctl = (?s\<lparr>bs_operation_count := saturating_add (bs_operation_count s) 1, bs_audit := au\<rparr>,
       Inr (operation_receipt (?s\<lparr>bs_operation_count := saturating_add (bs_operation_count s) 1\<rparr>) (Some Write) ?u ?m (bs_state s) (bs_state s)))"
    by auto
  then show ?thesis using fit room b(3) by (simp add: operation_receipt_def room_def)
qed

lemma read_settles:
  assumes x: "stream_records x" and s: "can_read s n" "control_outcome ctl = None"
    and room: "room s (Suc ops) writes (unat n + reads) (unat e + time)"
    and b: "be_read be (bs_backend s) n (sl_read_deadline (bs_limits s)) = (b, \<lparr>br_elapsed = e, br_status = st\<rparr>)"
      "classify_read st n (bs_state s) = (bytes, u, state')" "length bytes \<le> unat n" "e \<le> sl_read_deadline (bs_limits s)"
  shows "\<exists>s' rr. stream_read x be s n ctl = (s', Inr rr) \<and> op_outcome (rr_receipt rr) = u \<and> rr_bytes rr = bytes
    \<and> bs_backend s' = b \<and> bs_limits s' = bs_limits s \<and> bs_state s' = state'
    \<and> room s' ops writes (unat n + reads - length bytes) time"
proof -
  have len: "unat (of_nat (length bytes) :: u64) = length bytes"
    using b(3) unat_bounds(4) [of n] by (simp add: unat_of_nat)
  have small: "\<not> sl_maximum_operations (bs_limits s) \<le> bs_operation_count s"
    "\<not> saturating_sub (sl_maximum_read_bytes (bs_limits s)) (bs_read_bytes s) < n"
    using room by (auto simp: room_def word_le_nat_alt word_less_nat_alt unat_saturating_sub)
  have fit: "unat (saturating_add (bs_elapsed s) e) = unat (bs_elapsed s) + unat e"
    "\<not> sl_total_deadline (bs_limits s) < saturating_add (bs_elapsed s) e"
    "unat (saturating_add (bs_read_bytes s) (of_nat (length bytes))) = unat (bs_read_bytes s) + length bytes"
    "\<not> sl_maximum_read_bytes (bs_limits s) < saturating_add (bs_read_bytes s) (of_nat (length bytes))"
    "unat (saturating_add (bs_operation_count s) 1) = unat (bs_operation_count s) + 1"
    using room b(3) len room_add [of "bs_elapsed s" e "sl_total_deadline (bs_limits s)"]
      room_add [of "bs_read_bytes s" "of_nat (length bytes)" "sl_maximum_read_bytes (bs_limits s)"]
      room_add [of "bs_operation_count s" 1 "sl_maximum_operations (bs_limits s)"]
    by (simp_all add: room_def)
  let ?m = "\<lparr>om_requested_bytes = n, om_transferred_bytes = of_nat (length bytes),
    om_payload_sha256 = (if bytes \<noteq> [] then Some (payload_hash x bytes) else None), om_elapsed = e\<rparr>"
  let ?s = "s\<lparr>bs_backend := b, bs_elapsed := saturating_add (bs_elapsed s) e,
    bs_read_bytes := saturating_add (bs_read_bytes s) (of_nat (length bytes)), bs_state := state'\<rparr>"
  have "stream_read x be s n ctl = with_bytes bytes (stream_record x ?s (Some Read) u ?m (bs_state s) state')"
    using s(1) [folded read_guard] s(2) leD [OF b(4)] small fit(2,4)
    by (simp add: stream_read_def Let_def b(1,2) charge_time_def)
  with record_returns [OF x, of ?s "Some Read" u ?m "bs_state s" state'] obtain au where
    "stream_read x be s n ctl = (?s\<lparr>bs_operation_count := saturating_add (bs_operation_count s) 1, bs_audit := au\<rparr>,
       Inr \<lparr>rr_bytes = bytes, rr_receipt = operation_receipt (?s\<lparr>bs_operation_count := saturating_add (bs_operation_count s) 1\<rparr>)
         (Some Read) u ?m (bs_state s) state'\<rparr>)"
    by (auto simp: with_bytes_def result_simps)
  then show ?thesis using fit room b(3) by (simp add: operation_receipt_def room_def)
qed

section \<open>The fixture\<close>

text \<open>A duplex that accepts every write and serves the given events, with positive fragment limits.\<close>

definition fixture_serves :: "in_memory_duplex \<Rightarrow> u64 \<Rightarrow> fixture_read_event list \<Rightarrow> bool" where
  "fixture_serves d t events \<longleftrightarrow>
     \<not> dx_closed d \<and> dx_read_events d = events \<and> dx_write_events d \<in> {[FwAccept (- 1) t]} \<union> (if t = 0 then {[]} else {})
     \<and> dx_read_fragment_limit d \<noteq> Some 0 \<and> dx_write_fragment_limit d \<noteq> Some 0"

lemma fixture_write:
  assumes "fixture_serves d t events" "bytes \<noteq> []" "length bytes < 2 ^ 64"
  shows "\<exists>d' k. duplex_write d bytes deadline = (d', \<lparr>bw_elapsed = t, bw_status = BwWritten k\<rparr>)
    \<and> 0 < unat k \<and> unat k \<le> length bytes \<and> fixture_serves d' 0 events
    \<and> captured_bytes d' = captured_bytes d @ take (unat k) bytes"
proof -
  let ?k = "min (of_nat (length bytes)) (unwrap_or_max (dx_write_fragment_limit d)) :: u64"
  have len: "unat (of_nat (length bytes) :: u64) = length bytes" using assms(3) by (simp add: unat_of_nat)
  have "unwrap_or_max (dx_write_fragment_limit d) \<noteq> 0" using assms(1)
    by (auto simp: fixture_serves_def unwrap_or_max_def split: option.split)
  then have k: "0 < unat ?k" "unat ?k \<le> length bytes"
    using len assms(2) by (auto simp: min_def unat_gt_0 word_le_nat_alt)
  have m: "min (min (of_nat (length bytes)) (- 1)) c = min (of_nat (length bytes)) (c :: u64)" for c
    by (simp add: min_def)
  show ?thesis using assms(1) k
    by (intro exI [of _ "fst (duplex_write d bytes deadline)"] exI [of _ ?k])
      (auto simp: fixture_serves_def duplex_write_def duplex_capture_def Let_def m captured_bytes_def split: if_split_asm)
qed

lemma backend_write: "be_write duplex_backend = duplex_write" and backend_read: "be_read duplex_backend = duplex_read"
  by (simp_all add: duplex_backend_def)

lemma fixture_read:
  assumes "fixture_serves d w (FrBytes rest t # events)" "rest \<noteq> []" "0 < n"
  shows "\<exists>d' k. duplex_read d n deadline = (d', \<lparr>br_elapsed = t, br_status = BrData (take k rest)\<rparr>)
    \<and> 0 < k \<and> k \<le> unat n \<and> k \<le> length rest \<and> captured_bytes d' = captured_bytes d
    \<and> fixture_serves d' w (if k < length rest then FrBytes (drop k rest) 0 # events else events)"
proof -
  let ?k = "min (length rest) (fragment_limit n (dx_read_fragment_limit d))"
  have "unwrap_or_max (dx_read_fragment_limit d) \<noteq> 0" using assms(1)
    by (auto simp: fixture_serves_def unwrap_or_max_def split: option.split)
  then have "0 < fragment_limit n (dx_read_fragment_limit d)" using assms(3)
    by (auto simp: fragment_limit_def min_def unat_gt_0 word_gt_0)
  then have "0 < ?k" "?k \<le> unat n" "?k \<le> length rest" using assms(2) fragment_limit_le [of n "dx_read_fragment_limit d"] by auto
  then show ?thesis using assms(1)
    by (intro exI [of _ "fst (duplex_read d n deadline)"] exI [of _ ?k])
      (auto simp: fixture_serves_def duplex_read_def split_read_bytes_def Let_def captured_bytes_def)
qed

lemma fixture_eof:
  assumes "fixture_serves d w (FrEof t # events)"
  shows "\<exists>d'. duplex_read d n deadline = (d', \<lparr>br_elapsed = t, br_status = BrEof\<rparr>)
    \<and> captured_bytes d' = captured_bytes d \<and> fixture_serves d' w events"
  using assms by (auto simp: fixture_serves_def duplex_read_def Let_def captured_bytes_def)

section \<open>The loops\<close>

text \<open>A stream over the fixture on which the codec's operations are allowed.\<close>

definition ready :: "http1_limits \<Rightarrow> in_memory_duplex byte_stream \<Rightarrow> u64 \<Rightarrow> fixture_read_event list \<Rightarrow> bool" where
  "ready l s t events \<longleftrightarrow> fixture_serves (bs_backend s) t events \<and> bs_state s = SOpen
     \<and> 0 < hm_io_operation_bytes l \<and> hm_io_operation_bytes l \<le> sl_maximum_operation_bytes (bs_limits s)
     \<and> t \<le> sl_write_deadline (bs_limits s)"

lemma fixture_write_all:
  assumes "stream_records x" "control_outcome ctl = None"
  shows "ready l s t events \<Longrightarrow> room s (length bytes + ops) (length bytes) reads (unat t + time) \<Longrightarrow>
    \<exists>s' t'. write_all x duplex_backend l ctl s bytes n = (s', Inr ()) \<and> ready l s' t' events
      \<and> room s' ops 0 reads time \<and> bs_limits s' = bs_limits s
      \<and> captured_bytes (bs_backend s') = captured_bytes (bs_backend s) @ bytes"
proof (induction bytes arbitrary: s t n rule: length_induct)
  case (1 bytes)
  show ?case
  proof (cases "bytes = []")
    case True
    then show ?thesis using 1(2,3) by (subst write_all.simps) (auto simp: room_def)
  next
    case False
    let ?chunk = "take (unat (hm_io_operation_bytes l)) bytes"
    note r = 1(2) [unfolded ready_def]
    have len: "length bytes < 2 ^ 64" using 1(3) unat_bounds(4) [of "sl_maximum_write_bytes (bs_limits s)"] by (simp add: room_def)
    then have len': "length ?chunk < 2 ^ 64" by simp
    have c: "?chunk \<noteq> []" using False r by (simp add: unat_gt_0 word_gt_0)
    from fixture_write [OF conjunct1 [OF r] c len', of "sl_write_deadline (bs_limits s)"] obtain d k where
      d: "duplex_write (bs_backend s) ?chunk (sl_write_deadline (bs_limits s)) = (d, \<lparr>bw_elapsed = t, bw_status = BwWritten k\<rparr>)"
      and k: "0 < unat k" "unat k \<le> length ?chunk" and d': "fixture_serves d 0 events"
      "captured_bytes d = captured_bytes (bs_backend s) @ take (unat k) ?chunk" by blast
    have wl: "unat (of_nat (length ?chunk) :: u64) = length ?chunk" using len' by (simp add: unat_of_nat)
    have "0 < length ?chunk" "length ?chunk \<le> unat (sl_maximum_operation_bytes (bs_limits s))"
      using c r by (auto simp: word_le_nat_alt)
    then have "can_write s (of_nat (length ?chunk))" using r wl
      unfolding can_write_def word_less_nat_alt word_le_nat_alt by simp
    moreover have "room s (Suc (length bytes - unat k + ops)) (length ?chunk + (length bytes - length ?chunk)) reads (unat t + time)"
      using 1(3) k by (auto simp: room_def)
    ultimately obtain s1 rc where w: "stream_write x duplex_backend s ?chunk ctl = (s1, Inr rc)"
      "op_outcome rc \<in> {SoWritten, SoPartialWrite}" "op_transferred_bytes rc = k"
      and s1: "bs_backend s1 = d" "bs_limits s1 = bs_limits s" "bs_state s1 = bs_state s"
        "room s1 (length bytes - unat k + ops) (length ?chunk + (length bytes - length ?chunk) - unat k) reads time"
      using write_settles [OF assms(1) _ assms(2) _ d [folded backend_write] k] r by blast
    have "write_step l (length ?chunk) n rc = Inr (unat k, 0)" using w(2,3) k by (auto simp: write_step_def Let_def)
    then have step: "write_all x duplex_backend l ctl s bytes n = write_all x duplex_backend l ctl s1 (drop (unat k) bytes) 0"
      using False w(1) by (subst write_all.simps) (simp add: Let_def)
    have "ready l s1 0 events" using r s1(1-3) d'(1) by (simp add: ready_def)
    moreover have "room s1 (length (drop (unat k) bytes) + ops) (length (drop (unat k) bytes)) reads (unat 0 + time)"
      using s1(4) by simp
    moreover have "length (drop (unat k) bytes) < length bytes" using k(1) False by (cases bytes) auto
    ultimately obtain s' t' where "write_all x duplex_backend l ctl s1 (drop (unat k) bytes) 0 = (s', Inr ())" "ready l s' t' events"
      "room s' ops 0 reads time" "bs_limits s' = bs_limits s1"
      "captured_bytes (bs_backend s') = captured_bytes (bs_backend s1) @ drop (unat k) bytes"
      using 1(1) by blast
    moreover have "take (unat k) ?chunk = take (unat k) bytes" using k(2) by (simp add: min_absorb1)
    ultimately show ?thesis using step s1(1,2) d'(2) by auto
  qed
qed

text \<open>A wire that is exactly one response, and how the parser sees what has arrived of it.\<close>

definition one_response :: "http1_limits \<Rightarrow> string \<Rightarrow> string \<Rightarrow> http1_response \<Rightarrow> bool" where
  "one_response l m wire r \<longleftrightarrow> (\<exists>eof. parse_response wire eof m l = Inr (Complete r (length wire)))"

lemma one_response_parses:
  assumes "one_response l m wire r"
  shows "k < length wire \<Longrightarrow> parse_response (take k wire) False m l = Inr Incomplete"
    and "parse_response wire False m l \<in> {Inr Incomplete, Inr (Complete r (length wire))}"
    and "parse_response wire True m l = Inr (Complete r (length wire))"
proof -
  obtain eof where e: "parse_response wire eof m l = Inr (Complete r (length wire))" using assms by (auto simp: one_response_def)
  have p: "parse_response (take k wire) False m l = Inr Incomplete \<or>
      length wire \<le> k \<and> parse_response (take k wire) False m l = Inr (Complete r (length wire))" for k
  proof (cases "parse_response (take k wire) False m l")
    case (Inl err)
    then show ?thesis using parse_from_error [of l m "take k wire" 0 0 err eof "drop k wire"] e by (simp add: parse_response_def)
  next
    case (Inr y)
    show ?thesis
    proof (cases y)
      case (Complete r' n)
      then have n: "n \<le> length (take k wire)" and q: "\<And>q eof. parse_response (take n (take k wire) @ q) eof m l = Inr (Complete r' n)"
        using Inr parse_from_local [of l m "take k wire" 0 0 r' n] by (auto simp: parse_response_def)
      from q [of "drop n wire" eof] n e have "r' = r" "n = length wire" by (auto simp: min_def split: if_split_asm)
      then show ?thesis using n Inr Complete by simp
    qed (use Inr in simp)
  qed
  show "k < length wire \<Longrightarrow> parse_response (take k wire) False m l = Inr Incomplete" using p [of k] by simp
  show w: "parse_response wire False m l \<in> {Inr Incomplete, Inr (Complete r (length wire))}" using p [of "length wire"] by simp
  show "parse_response wire True m l = Inr (Complete r (length wire))"
  proof (cases eof)
    case False
    then show ?thesis using e parse_from_local [of l m wire 0 0 r "length wire"] by (auto simp: parse_response_def dest: spec [of _ "[]"])
  qed (use e in simp)
qed

lemma fixture_read_response:
  assumes "stream_records x" "control_outcome ctl = None" "one_response l m (wire @ rest) r"
    "length (wire @ rest) \<le> unat (hm_response_wire_bytes l)"
  shows "ready l s w (if rest = [] then [FrEof 0] else [FrBytes rest t, FrEof 0]) \<Longrightarrow> t \<le> sl_read_deadline (bs_limits s) \<Longrightarrow>
    room s (Suc (length rest)) writes (unat (hm_io_operation_bytes l) + length rest) (unat t) \<Longrightarrow>
    \<exists>s'. read_response x duplex_backend l ctl m s wire False n = (s', Inr (r, wire @ rest))
      \<and> bs_state s' \<in> {SOpen, SReadClosed} \<and> captured_bytes (bs_backend s') = captured_bytes (bs_backend s)"
  using assms(3,4)
proof (induction rest arbitrary: wire s t n rule: length_induct)
  case (1 rest)
  note rd = 1(2) [unfolded ready_def]
  note p = one_response_parses [OF 1(5)]
  have can: "can_read s (hm_io_operation_bytes l)" using rd by (simp add: can_read_def)
  show ?case
  proof (cases "rest = []")
    case True
    show ?thesis
    proof (cases "parse_response wire False m l")
      case (Inr y)
      show ?thesis
      proof (cases y)
        case Incomplete
        from fixture_eof [of "bs_backend s" w 0 "[]" "hm_io_operation_bytes l" "sl_read_deadline (bs_limits s)"] rd True
        obtain d where d: "duplex_read (bs_backend s) (hm_io_operation_bytes l) (sl_read_deadline (bs_limits s)) = (d, \<lparr>br_elapsed = 0, br_status = BrEof\<rparr>)"
          and cap: "captured_bytes d = captured_bytes (bs_backend s)" by auto
        have "classify_read BrEof (hm_io_operation_bytes l) (bs_state s) = ([], SoEof, SReadClosed)" using rd by simp
        from read_settles [OF assms(1) can assms(2) _ d [folded backend_read] this, of 0 writes "length rest" "unat t"] 1(4) True
        obtain s1 rr where s1: "stream_read x duplex_backend s (hm_io_operation_bytes l) ctl = (s1, Inr rr)"
          "op_outcome (rr_receipt rr) = SoEof" "bs_backend s1 = d" "bs_state s1 = SReadClosed" by auto
        have "read_step l wire False n rr = Inr (wire, True, n)" using s1(2) 1(6) True by (simp add: read_step_def result_simps)
        moreover have "read_response x duplex_backend l ctl m s1 wire True n = (s1, Inr (r, wire))"
          using p(3) True by (subst read_response.simps) simp
        ultimately have "read_response x duplex_backend l ctl m s wire False n = (s1, Inr (r, wire))"
          using Inr Incomplete s1(1) by (subst read_response.simps) simp
        then show ?thesis using s1(3,4) cap True by simp
      qed (use p(2) True Inr rd in \<open>subst read_response.simps, simp\<close>)
    qed (use p(2) True in simp)
  next
    case False
    from fixture_read [of "bs_backend s" w rest t "[FrEof 0]" "hm_io_operation_bytes l" "sl_read_deadline (bs_limits s)"] rd False
    obtain d k where d: "duplex_read (bs_backend s) (hm_io_operation_bytes l) (sl_read_deadline (bs_limits s)) = (d, \<lparr>br_elapsed = t, br_status = BrData (take k rest)\<rparr>)"
      and k: "0 < k" "k \<le> unat (hm_io_operation_bytes l)" "k \<le> length rest" and cap: "captured_bytes d = captured_bytes (bs_backend s)"
      and sv: "fixture_serves d w (if k < length rest then [FrBytes (drop k rest) 0, FrEof 0] else [FrEof 0])" by auto
    have c: "classify_read (BrData (take k rest)) (hm_io_operation_bytes l) (bs_state s) = (take k rest, SoData, SOpen)" using rd k by simp
    have room: "room s (Suc (length rest)) writes (unat (hm_io_operation_bytes l) + length rest) (unat t + 0)" using 1(4) by simp
    have len: "length (take k rest) \<le> unat (hm_io_operation_bytes l)" using k by simp
    from read_settles [OF assms(1) can assms(2) room d [folded backend_read] c len 1(3)]
    obtain s1 rr where s1: "stream_read x duplex_backend s (hm_io_operation_bytes l) ctl = (s1, Inr rr)"
      "op_outcome (rr_receipt rr) = SoData" "rr_bytes rr = take k rest" "bs_backend s1 = d" "bs_limits s1 = bs_limits s" "bs_state s1 = SOpen"
      "room s1 (length rest) writes (unat (hm_io_operation_bytes l) + length rest - length (take k rest)) 0" by blast
    have "parse_response wire False m l = Inr Incomplete" using p(1) [of "length wire"] False by simp
    moreover have "read_step l wire False n rr = Inr (wire @ take k rest, False, 0)"
      using s1(2,3) 1(6) k False by (simp add: read_step_def result_simps)
    ultimately have step: "read_response x duplex_backend l ctl m s wire False n
        = read_response x duplex_backend l ctl m s1 (wire @ take k rest) False 0"
      using s1(1) by (subst read_response.simps) simp
    have "ready l s1 w (if drop k rest = [] then [FrEof 0] else [FrBytes (drop k rest) 0, FrEof 0])"
      using rd sv s1(4-6) by (cases "k < length rest") (simp_all add: ready_def)
    moreover have "room s1 (Suc (length (drop k rest))) writes (unat (hm_io_operation_bytes l) + length (drop k rest)) (unat 0)"
      using s1(7) k by (auto simp: room_def)
    moreover have "length (drop k rest) < length rest" using k False by simp
    ultimately obtain s' where "read_response x duplex_backend l ctl m s1 (wire @ take k rest) False 0
        = (s', Inr (r, (wire @ take k rest) @ drop k rest))" "bs_state s' \<in> {SOpen, SReadClosed}"
      "captured_bytes (bs_backend s') = captured_bytes (bs_backend s1)"
      using 1(1) [rule_format, of "drop k rest" s1 0 "wire @ take k rest" 0] 1(5,6) by auto
    then show ?thesis using step s1(4) cap by simp
  qed
qed

section \<open>The exchange\<close>

lemma close_settles:
  assumes "stream_records (hp_stream x)" "stream_wf (hp_stream x) s" "bs_state s \<in> {SOpen, SReadClosed}"
  shows "\<exists>s'. settle_stream x duplex_backend s = (s', Inr ()) \<and> captured_bytes (bs_backend s') = captured_bytes (bs_backend s)"
proof -
  let ?s = "s\<lparr>bs_backend := duplex_close (bs_backend s), bs_state := SClosed\<rparr>"
  have nt: "\<not> stream_is_terminal (bs_state s)" using assms(3) by auto
  from record_returns [OF assms(1), of ?s None SoClosed metrics_default "bs_state s" SClosed] obtain au rc where
    c: "stream_close (hp_stream x) duplex_backend s
      = (?s\<lparr>bs_operation_count := saturating_add (bs_operation_count s) 1, bs_audit := au\<rparr>, Inr rc)"
    using nt by (auto simp: stream_close_def Let_def duplex_backend_def)
  have "stream_verify (hp_stream x) au = Inr ()" using keeps_close [OF c] assms(2) by (simp add: keeps_def stream_wf_def)
  then show ?thesis using nt c by (simp add: settle_stream_def result_simps captured_bytes_def duplex_close_def)
qed

lemma record_exchange_total:
  assumes "\<And>p. \<not> isl (ser_http x p)"
  shows "\<exists>c' g. record_exchange x c q z before r wire = (c', Inr g)"
proof -
  have "\<exists>h. http1_record_hash x n p e = Inr h" for n p e
    using assms [of "(n, p, e)"] by (cases "ser_http x (n, p, e)") (auto simp: http1_record_hash_def chain_hash_def result_simps)
  note tot = this
  have no: "http1_append x a e \<noteq> (au, Inl y)" for a e au y
  proof -
    obtain h where "http1_record_hash x (of_nat (length (chain_records a)) + 1) (tail_hash a) e = Inr h" using tot by blast
    then show ?thesis by (simp add: http1_append_def chain_append_def Let_def)
  qed
  obtain c' g where e: "record_exchange x c q z before r wire = (c', g)" by (rule prod.exhaust)
  then have "\<not> isl g" by (auto simp: record_exchange_def Let_def no split: prod.split_asm sum.split_asm)
  then show ?thesis using e by (cases g) auto
qed

lemma conversation_serves:
  "fixture_serves (conversation_fixture wire config) (fc_write_elapsed config) [FrBytes wire (fc_read_elapsed config), FrEof 0]"
  "captured_bytes (conversation_fixture wire config) = []"
  by (simp_all add: fixture_serves_def conversation_fixture_def with_write_fragment_limit_def with_read_fragment_limit_def
      duplex_new_def captured_bytes_def word_gt_0)

lemma exchange_returns:
  assumes "\<not> hc_completed c" "stream_wf (hp_stream x) (hc_stream c)" "bs_state (hc_stream c) = SOpen"
    "bs_backend (hc_stream c) = conversation_fixture (render_response r chunks) config"
    "serialize_request q (sg_http_host (bs_grant (hc_stream c))) (sg_scheme (bs_grant (hc_stream c))) (hc_limits c) secrets = (lease', Inr z)"
    "writable (hc_limits c) (hq_method q) r chunks"
    "length (render_response r chunks) \<le> unat (hm_response_wire_bytes (hc_limits c))"
    "0 < hm_io_operation_bytes (hc_limits c)" "hm_io_operation_bytes (hc_limits c) \<le> sl_maximum_operation_bytes (bs_limits (hc_stream c))"
    "room (hc_stream c) (length (zr_wire z) + Suc (length (render_response r chunks))) (length (zr_wire z))
       (unat (hm_io_operation_bytes (hc_limits c)) + length (render_response r chunks))
       (unat (fc_write_elapsed config) + unat (fc_read_elapsed config))"
    "fc_write_elapsed config \<le> sl_write_deadline (bs_limits (hc_stream c))"
    "fc_read_elapsed config \<le> sl_read_deadline (bs_limits (hc_stream c))"
    "stream_records (hp_stream x)" "\<And>p. \<not> isl (ser_http x p)" "control_outcome ctl = None"
  shows "\<exists>c' g. exchange_internal x duplex_backend c q secrets ctl = (c', lease', Inr g) \<and> xg_response g = r
    \<and> captured_bytes (bs_backend (hc_stream c')) = zr_wire z"
proof -
  let ?W = "render_response r chunks" and ?s = "hc_stream c" and ?l = "hc_limits c"
  have W: "?W \<noteq> []" by (simp add: render_response_def head_block_def crlf_def)
  have "one_response ?l (hq_method q) ([] @ ?W) r"
    using rendered_response_parsed [OF assms(6), of True "[]"] unfolding one_response_def by auto
  note one = this
  have "ready ?l ?s (fc_write_elapsed config) [FrBytes ?W (fc_read_elapsed config), FrEof 0]"
    using assms(3,4,8,9,11) by (simp add: ready_def conversation_serves)
  from fixture_write_all [OF assms(13,15) this assms(10), of 0] obtain s1 t' where
    w: "write_all (hp_stream x) duplex_backend ?l ctl ?s (zr_wire z) 0 = (s1, Inr ())"
    and s1: "ready ?l s1 t' [FrBytes ?W (fc_read_elapsed config), FrEof 0]"
      "room s1 (Suc (length ?W)) 0 (unat (hm_io_operation_bytes ?l) + length ?W) (unat (fc_read_elapsed config))"
      "bs_limits s1 = bs_limits ?s" "captured_bytes (bs_backend s1) = captured_bytes (bs_backend ?s) @ zr_wire z" by blast
  then have cap: "captured_bytes (bs_backend s1) = zr_wire z" by (simp add: assms(4) conversation_serves)
  obtain s2 where rd: "read_response (hp_stream x) duplex_backend ?l ctl (hq_method q) s1 [] False 0 = (s2, Inr (r, ?W))"
    and s2: "bs_state s2 \<in> {SOpen, SReadClosed}" "captured_bytes (bs_backend s2) = zr_wire z"
    using fixture_read_response [OF assms(13,15) one, of s1 t' "fc_read_elapsed config" 0 0] s1 W assms(7,12) cap by auto
  have "stream_wf (hp_stream x) s2"
    using keeps_trans [OF keeps_write_all [OF w] keeps_read_response [OF rd]] assms(2) by (simp add: keeps_def)
  from close_settles [OF assms(13) this s2(1)] obtain s3 where st: "settle_stream x duplex_backend s2 = (s3, Inr ())"
    and s3: "captured_bytes (bs_backend s3) = zr_wire z" using s2(2) by auto
  obtain c' g where rec: "record_exchange x (c\<lparr>hc_stream := s3\<rparr>) q z (tail_hash (bs_audit ?s)) r ?W = (c', Inr g)"
    using record_exchange_total [OF assms(14)] by blast
  have "exchange_internal x duplex_backend c q secrets ctl = (c', lease', Inr g)"
    using assms(1,3,5) w rd st rec by (simp add: exchange_internal_def Let_def)
  then show ?thesis using record_exchange_Inr(1,4) [OF rec] s3 by simp
qed

text \<open>
  C14: an exchange within its budgets returns. Over a conversation fixture that serves a response written
  within the codec's limits, the exchange returns that response and the fixture has captured exactly the
  serialized request, whatever the fragment limits of the two directions. The budgets are those the
  stream enforces: an operation per byte and one for the end of the stream, the bytes of the request,
  the bytes of the response and one more read, and the time the fixture takes.
\<close>

theorem conversation_returns:
  assumes "\<not> hc_completed c" "stream_wf (hp_stream x) (hc_stream c)" "bs_state (hc_stream c) = SOpen"
    "bs_backend (hc_stream c) = conversation_fixture (render_response r chunks) config"
    "serialize_request q (sg_http_host (bs_grant (hc_stream c))) (sg_scheme (bs_grant (hc_stream c))) (hc_limits c) secrets = (lease', Inr z)"
    "writable (hc_limits c) (hq_method q) r chunks"
    "length (render_response r chunks) \<le> unat (hm_response_wire_bytes (hc_limits c))"
    "0 < hm_io_operation_bytes (hc_limits c)" "hm_io_operation_bytes (hc_limits c) \<le> sl_maximum_operation_bytes (bs_limits (hc_stream c))"
    "room (hc_stream c) (length (zr_wire z) + Suc (length (render_response r chunks))) (length (zr_wire z))
       (unat (hm_io_operation_bytes (hc_limits c)) + length (render_response r chunks))
       (unat (fc_write_elapsed config) + unat (fc_read_elapsed config))"
    "fc_write_elapsed config \<le> sl_write_deadline (bs_limits (hc_stream c))"
    "fc_read_elapsed config \<le> sl_read_deadline (bs_limits (hc_stream c))"
    "stream_records (hp_stream x)" "\<And>p. \<not> isl (ser_http x p)" "control_outcome ctl = None"
  shows "\<exists>c' g. exchange_internal x duplex_backend c q secrets ctl = (c', lease', Inr g) \<and> xg_response g = r
    \<and> captured_bytes (bs_backend (hc_stream c')) = zr_wire z"
  using assms by (rule exchange_returns)

text \<open>
  C9: an exchange is one request out and one response in. When it succeeds, the bytes the stream
  accepted are exactly the serialized request, the bytes it delivered are exactly the wire of the
  response it returns (the parser reads that response off them and nothing is left over), the response
  is within the limits with an unambiguous framing, the stream ends, and the codec refuses every
  further exchange without touching the stream.
\<close>

theorem exchange_is_one_request_one_response:
  assumes "exchange_internal x be c q secrets ctl = (c', lease', Inr g)"
  shows "\<exists>z cs wire eof.
     serialize_request q (sg_http_host (bs_grant (hc_stream c))) (sg_scheme (bs_grant (hc_stream c))) (hc_limits c) secrets = (lease', Inr z)
     \<and> transfers (hp_stream x) be cs (hc_stream c) (zr_wire z) wire (hc_stream c')
     \<and> parse_response wire eof (hq_method q) (hc_limits c) = Inr (Complete (xg_response g) (length wire))
     \<and> length wire \<le> unat (hm_response_wire_bytes (hc_limits c))
     \<and> response_ok (hc_limits c) (hq_method q) eof (xg_response g)
     \<and> stream_is_terminal (bs_state (hc_stream c'))
     \<and> (\<forall>q' secrets' ctl'. exchange_internal x be c' q' secrets' ctl' = (c', map_option fst secrets', Inl ExchangeAlreadyCompleted))"
  using assms
proof (rule exchange_Inr)
  fix z s1 s2 r wire s3
  assume z: "serialize_request q (sg_http_host (bs_grant (hc_stream c))) (sg_scheme (bs_grant (hc_stream c))) (hc_limits c) secrets = (lease', Inr z)"
    and w: "write_all (hp_stream x) be (hc_limits c) ctl (hc_stream c) (zr_wire z) 0 = (s1, Inr ())"
    and rd: "read_response (hp_stream x) be (hc_limits c) ctl (hq_method q) s1 [] False 0 = (s2, Inr (r, wire))"
    and st: "settle_stream x be s2 = (s3, Inr ())"
    and rec: "record_exchange x (c\<lparr>hc_stream := s3\<rparr>) q z (tail_hash (bs_audit (hc_stream c))) r wire = (c', Inr g)"
    and nt: "\<not> stream_is_terminal (bs_state (hc_stream c))"
  obtain cs1 where t1: "transfers (hp_stream x) be cs1 (hc_stream c) (zr_wire z) [] s1" and "bs_state s1 = bs_state (hc_stream c)"
    using write_all_transfers [OF w] by blast
  then have "bs_state s1 \<in> {SOpen, SReadClosed, SWriteClosed, SClosed}" using nt by (cases "bs_state s1") auto
  from read_response_transfers [OF rd _ this] obtain cs2 eof where t2: "transfers (hp_stream x) be cs2 s1 [] wire s2"
    and p: "parse_response wire eof (hq_method q) (hc_limits c) = Inr (Complete r (length wire))"
    and len: "length wire \<le> unat (hm_response_wire_bytes (hc_limits c))" by auto
  obtain cs3 where t3: "transfers (hp_stream x) be cs3 s2 [] [] s3" and s3: "stream_is_terminal (bs_state s3)"
    using settle_stream_transfers [OF st] by blast
  note f = record_exchange_Inr [OF rec]
  have "transfers (hp_stream x) be (cs1 @ cs2 @ cs3) (hc_stream c) (zr_wire z) wire (hc_stream c')"
    using transfers_append [OF t1 transfers_append [OF t2 t3]] f(1) by simp
  moreover have "response_ok (hc_limits c) (hq_method q) eof r"
    using parse_from_ok [of "hc_limits c" eof "hq_method q" wire 0 0 r "length wire"] p by (simp add: parse_response_def)
  moreover have "exchange_internal x be c' q' secrets' ctl' = (c', map_option fst secrets', Inl ExchangeAlreadyCompleted)" for q' secrets' ctl'
    using f(3) by (simp add: exchange_internal_def)
  ultimately show ?thesis using z p len s3 f(1,4) by (intro exI [of _ z] exI [of _ "cs1 @ cs2 @ cs3"] exI [of _ wire] exI [of _ eof]) simp
qed

text \<open>
  C21: the history of a codec. Whatever exchanges are tried on a codec built over a well-formed stream,
  at most one succeeds; the codec's audit chain verifies, starts at the tail of the stream's chain at
  construction, and holds exactly the record of the exchange that succeeded, whose receipt names the
  record; the stream stays within its limits, keeps its grant, and its own chain keeps verifying.
\<close>

theorem codec_history:
  assumes "codec_new x s l = Inr c" "stream_wf (hp_stream x) s" "codec_run x be calls c = (c', rs)"
  shows "http1_verify x (hc_audit c') = Inr () \<and> genesis_anchor (hc_audit c') = tail_hash (bs_audit s)
    \<and> stream_wf (hp_stream x) (hc_stream c') \<and> bs_grant (hc_stream c') = bs_grant s
    \<and> length (successes rs) \<le> 1
    \<and> map xg_receipt (successes rs) = map (\<lambda>ev. exchange_receipt ev (tail_hash (hc_audit c'))) (chain_events (hc_audit c'))"
proof -
  have c: "codec_inv x c" "bs_grant (hc_stream c) = bs_grant s" "genesis_anchor (hc_audit c) = tail_hash (bs_audit s)"
    "chain_events (hc_audit c) = []"
    using assms(1,2) by (auto simp: codec_new_def codec_inv_def http1_audit_new_def http1_verify_def chain_verify_def result_simps
        split: if_split_asm)
  from codec_run_facts [OF assms(3) c(1)] c(2-4) show ?thesis by (auto simp: codec_inv_def)
qed

section \<open>Witnesses\<close>

definition sample_get :: http1_request where
  "sample_get = \<lparr>hq_method = ''GET'', hq_target = ''/'', hq_headers = [], hq_body = []\<rparr>"

definition light_http1_ext :: http1_ext where
  "light_http1_ext = \<lparr>hp_stream = light_stream_ext, ser_http = \<lambda>_. Inr []\<rparr>"

abbreviation sample_chunks :: "string list" where
  "sample_chunks \<equiv> [''hello'', '' world'']"

definition conversation_stream :: "in_memory_duplex byte_stream" where
  "conversation_stream = sample_stream\<lparr>
     bs_backend := conversation_fixture (render_response chunked_response sample_chunks) fixture_conservative_default,
     bs_audit := \<lparr>chain_records = [], tail_hash = replicate 64 (CHR ''a''), genesis_anchor = replicate 64 (CHR ''a'')\<rparr>\<rparr>"

definition conversation_codec :: "in_memory_duplex http1_codec" where
  "conversation_codec =
     \<lparr>hc_stream = conversation_stream, hc_limits = http1_conservative_default,
      hc_audit = \<lparr>chain_records = [], tail_hash = replicate 64 (CHR ''a''), genesis_anchor = replicate 64 (CHR ''a'')\<rparr>,
      hc_next_exchange_id = 1, hc_completed = False\<rparr>"

lemma conversation_stream_wf: "stream_wf light_stream_ext conversation_stream"
  by (simp add: conversation_stream_def sample_stream_def stream_wf_def stream_conservative_default_def validate_stream_limits_def
      MAX_STREAM_DIRECTION_BYTES_def MAX_STREAM_OPERATION_BYTES_def MAX_STREAM_DEADLINE_MILLISECONDS_def MAX_STREAM_OPERATIONS_def
      stream_verify_def chain_verify_def result_simps)

lemma sample_get_eval:
  "(case serialize_request sample_get ''a'' ''http'' http1_conservative_default None of
      (le, Inr z) \<Rightarrow> le = None \<and> length (zr_wire z) \<le> 100 | _ \<Rightarrow> False)"
  by code_simp

lemma sample_reply_eval: "length (render_response chunked_response sample_chunks) \<le> 100"
  by code_simp

lemma sample_get_serialized:
  obtains z where "serialize_request sample_get ''a'' ''http'' http1_conservative_default None = (None, Inr z)" "length (zr_wire z) \<le> 100"
  using sample_get_eval by (auto split: prod.split_asm sum.split_asm)

lemma conversation_facts:
  "\<not> hc_completed conversation_codec" "hc_stream conversation_codec = conversation_stream"
  "hc_limits conversation_codec = http1_conservative_default" "bs_state conversation_stream = SOpen"
  "bs_backend conversation_stream = conversation_fixture (render_response chunked_response sample_chunks) fixture_conservative_default"
  "sg_http_host (bs_grant conversation_stream) = ''a''" "sg_scheme (bs_grant conversation_stream) = ''http''"
  "bs_limits conversation_stream = stream_conservative_default" "hp_stream light_http1_ext = light_stream_ext"
  by (simp_all add: conversation_codec_def conversation_stream_def sample_stream_def light_http1_ext_def)

lemma sample_room:
  assumes "length (zr_wire z) \<le> 100"
  shows "room conversation_stream (length (zr_wire z) + Suc (length (render_response chunked_response sample_chunks))) (length (zr_wire z))
       (unat (hm_io_operation_bytes http1_conservative_default) + length (render_response chunked_response sample_chunks))
       (unat (fc_write_elapsed fixture_conservative_default) + unat (fc_read_elapsed fixture_conservative_default))"
  using assms sample_reply_eval by (simp add: room_def conversation_stream_def sample_stream_def stream_conservative_default_def
      http1_conservative_default_def fixture_conservative_default_def)

lemma sample_get_writable: "writable http1_conservative_default (hq_method sample_get) chunked_response sample_chunks"
  using chunked_response_writable by (simp add: sample_get_def)

lemmas sample_conversation = conversation_facts(1) sample_room sample_get_writable conversation_stream_wf sample_reply_eval

lemmas sample_conversation_defs = http1_conservative_default_def stream_conservative_default_def fixture_conservative_default_def
  stream_records_def light_http1_ext_def light_stream_ext_def control_outcome_def

lemma sample_genesis: "is_lower_hex_sha256 (replicate 64 (CHR ''a''))"
  by code_simp

lemma sample_tail: "tail_hash (bs_audit conversation_stream) = replicate 64 (CHR ''a'')"
  by (simp add: conversation_stream_def)

lemma http1_default_valid: "validate_http1_limits http1_conservative_default = Inr http1_conservative_default"
  by (simp add: validate_http1_limits_def validate_nonzero_cap_def http1_conservative_default_def result_simps MAX_HTTP_HEADER_BYTES_def
      MAX_HTTP_HEADERS_def MAX_HTTP_BODY_BYTES_def MAX_HTTP_CHUNKS_def MAX_HTTP_TRAILER_BYTES_def MAX_HTTP_INTERIM_RESPONSES_def
      MAX_HTTP_OPERATION_BYTES_def MAX_HTTP_BACKPRESSURE_EVENTS_def MAX_HTTP_WIRE_BYTES_def)

theorem conversation_returns_witness:
  "\<exists>c' g. exchange_internal light_http1_ext duplex_backend conversation_codec sample_get None (sample_stream_control False)
      = (c', None, Inr g) \<and> xg_response g = chunked_response"
proof -
  obtain z where z: "serialize_request sample_get ''a'' ''http'' http1_conservative_default None = (None, Inr z)" "length (zr_wire z) \<le> 100"
    by (rule sample_get_serialized)
  have "\<exists>c' g. exchange_internal light_http1_ext duplex_backend conversation_codec sample_get None (sample_stream_control False)
      = (c', None, Inr g) \<and> xg_response g = chunked_response \<and> captured_bytes (bs_backend (hc_stream c')) = zr_wire z"
    by (rule conversation_returns [where chunks = sample_chunks and config = fixture_conservative_default], unfold conversation_facts)
      (use z sample_conversation in \<open>simp_all add: sample_conversation_defs\<close>)
  then show ?thesis by blast
qed

lemma conversation_succeeds:
  obtains c' g where "exchange_internal light_http1_ext duplex_backend conversation_codec sample_get None (sample_stream_control False) = (c', None, Inr g)"
proof -
  obtain z where z: "serialize_request sample_get ''a'' ''http'' http1_conservative_default None = (None, Inr z)" "length (zr_wire z) \<le> 100"
    by (rule sample_get_serialized)
  have "\<exists>c' g. exchange_internal light_http1_ext duplex_backend conversation_codec sample_get None (sample_stream_control False)
      = (c', None, Inr g) \<and> xg_response g = chunked_response \<and> captured_bytes (bs_backend (hc_stream c')) = zr_wire z"
    by (rule exchange_returns [where chunks = sample_chunks and config = fixture_conservative_default], unfold conversation_facts)
      (use z sample_conversation in \<open>simp_all add: sample_conversation_defs\<close>)
  then show thesis using that by blast
qed

theorem exchange_is_one_request_one_response_witness:
  "\<exists>c' g (z :: serialized_request) cs wire.
     exchange_internal light_http1_ext duplex_backend conversation_codec sample_get None (sample_stream_control False) = (c', None, Inr g)
     \<and> transfers light_stream_ext duplex_backend cs conversation_stream (zr_wire z) wire (hc_stream c')
     \<and> length wire \<le> 16777216"
proof -
  obtain c' g where e: "exchange_internal light_http1_ext duplex_backend conversation_codec sample_get None (sample_stream_control False) = (c', None, Inr g)"
    by (rule conversation_succeeds)
  obtain z :: serialized_request and cs wire where "transfers light_stream_ext duplex_backend cs conversation_stream (zr_wire z) wire (hc_stream c')"
    "length wire \<le> unat (hm_response_wire_bytes http1_conservative_default)"
    using exchange_is_one_request_one_response [OF e] unfolding conversation_facts by blast
  then show ?thesis using e by (intro exI conjI) (auto simp: http1_conservative_default_def)
qed

theorem codec_history_witness:
  "\<exists>c' rs. codec_run light_http1_ext duplex_backend [(sample_get, None, sample_stream_control False),
       (sample_get, None, sample_stream_control False)] conversation_codec = (c', rs)
     \<and> length (successes rs) \<le> 1 \<and> http1_verify light_http1_ext (hc_audit c') = Inr ()"
proof -
  have new: "codec_new light_http1_ext conversation_stream http1_conservative_default = Inr conversation_codec"
    using conversation_stream_wf http1_default_valid
    by (simp add: codec_new_def conversation_facts(9) stream_wf_def result_simps http1_audit_new_def conversation_codec_def
        sample_genesis sample_tail)
  obtain c' rs where "codec_run light_http1_ext duplex_backend [(sample_get, None, sample_stream_control False),
       (sample_get, None, sample_stream_control False)] conversation_codec = (c', rs)" by (rule prod.exhaust)
  with codec_history [OF new _ this] conversation_stream_wf conversation_facts(9) show ?thesis by auto
qed

end
