(* ===== verification/Tls.thy ===== *)
theory Tls
  imports Stream
begin

text \<open>
  The TLS peer identity contract of the crate \<open>nxb-tls\<close>: names and subject alternative names
  (\<open>identity.rs\<close>), the checks of a handshake observation and of its certificate chain and the verifier
  with its audit chain (\<open>model.rs\<close>, \<open>verifier.rs\<close>, \<open>audit.rs\<close>), and the binder for sessions a TLS library
  has verified (\<open>preverified.rs\<close>). Certificates are the synthetic metadata the crate works on.
\<close>

section \<open>Data\<close>

datatype tls_protocol_version = Tls10 | Tls11 | Tls12 | Tls13 | TlsOther

fun tls_version_code :: "tls_protocol_version \<Rightarrow> string" where
  "tls_version_code Tls10 = ''tls_1_0''"
| "tls_version_code Tls11 = ''tls_1_1''"
| "tls_version_code Tls12 = ''tls_1_2''"
| "tls_version_code Tls13 = ''tls_1_3''"
| "tls_version_code TlsOther = ''other''"

definition MAX_CERTIFICATE_CHAIN_DEPTH :: nat where
  "MAX_CERTIFICATE_CHAIN_DEPTH = 8"

definition MAX_CERTIFICATE_BYTES :: u64 where
  "MAX_CERTIFICATE_BYTES = 1024 * 1024"

definition MAX_CERTIFICATE_CHAIN_BYTES :: u64 where
  "MAX_CERTIFICATE_CHAIN_BYTES = 4 * 1024 * 1024"

definition MAX_HANDSHAKE_BYTES :: u64 where
  "MAX_HANDSHAKE_BYTES = 2 * 1024 * 1024"

definition MAX_HANDSHAKE_TIMEOUT_MILLISECONDS :: u64 where
  "MAX_HANDSHAKE_TIMEOUT_MILLISECONDS = 30000"

record tls_limits =
  tl_maximum_chain_depth :: nat
  tl_maximum_certificate_bytes :: u64
  tl_maximum_chain_bytes :: u64
  tl_maximum_handshake_read_bytes :: u64
  tl_maximum_handshake_write_bytes :: u64
  tl_handshake_timeout :: u64
  tl_maximum_dns_sans :: nat

definition tls_conservative_default :: tls_limits where
  "tls_conservative_default =
     \<lparr>tl_maximum_chain_depth = 6, tl_maximum_certificate_bytes = 512 * 1024, tl_maximum_chain_bytes = 2 * 1024 * 1024,
      tl_maximum_handshake_read_bytes = 512 * 1024, tl_maximum_handshake_write_bytes = 256 * 1024,
      tl_handshake_timeout = 10000, tl_maximum_dns_sans = 128\<rparr>"

definition validate_tls_limits :: "tls_limits \<Rightarrow> string + unit" where
  "validate_tls_limits l =
     (if tl_maximum_chain_depth l = 0 \<or> tl_maximum_chain_depth l > MAX_CERTIFICATE_CHAIN_DEPTH then
        Inl ''certificate chain depth is outside the supported range''
      else if tl_maximum_certificate_bytes l = 0 \<or> tl_maximum_certificate_bytes l > MAX_CERTIFICATE_BYTES then
        Inl ''per-certificate byte limit is outside the supported range''
      else if tl_maximum_chain_bytes l < tl_maximum_certificate_bytes l
        \<or> tl_maximum_chain_bytes l > MAX_CERTIFICATE_CHAIN_BYTES then
        Inl ''certificate-chain byte limit is outside the supported range''
      else if tl_maximum_handshake_read_bytes l = 0 \<or> tl_maximum_handshake_read_bytes l > MAX_HANDSHAKE_BYTES
        \<or> tl_maximum_handshake_write_bytes l = 0 \<or> tl_maximum_handshake_write_bytes l > MAX_HANDSHAKE_BYTES then
        Inl ''handshake byte limits are outside the supported range''
      else if tl_handshake_timeout l = 0 \<or> tl_handshake_timeout l > MAX_HANDSHAKE_TIMEOUT_MILLISECONDS then
        Inl ''handshake timeout is outside the supported range''
      else if tl_maximum_dns_sans l = 0 \<or> tl_maximum_dns_sans l > 1024 then
        Inl ''DNS SAN count limit is outside the supported range''
      else Inr ())"

record tls_verifier_config =
  vc_verifier_id :: string
  vc_limits :: tls_limits

text \<open>A trust store is the set of the fingerprints it trusts.\<close>

type_synonym tls_trust_store = "string fset"

definition trust_store_new :: "string list \<Rightarrow> string + tls_trust_store" where
  "trust_store_new fingerprints =
     (let s = fset_of_list fingerprints in
      if s = {||} then Inl ''TLS trust store must contain at least one root fingerprint''
      else if fcard s > 4096 \<or> \<not> list_all is_lower_hex_sha256 fingerprints then
        Inl ''TLS trust store contains an invalid root fingerprint''
      else Inr s)"

definition trusts :: "tls_trust_store \<Rightarrow> string \<Rightarrow> bool" where
  "trusts s fingerprint \<longleftrightarrow> fingerprint |\<in>| s"

record synthetic_certificate =
  sc_fingerprint :: string
  sc_subject_spki :: string
  sc_issuer_spki :: string
  sc_encoded_bytes :: u64
  sc_dns_sans :: "string list"
  sc_common_name :: "string option"
  sc_not_before :: i64
  sc_not_after :: i64
  sc_is_ca :: bool
  sc_path_len_constraint :: "u8 option"
  sc_digital_signature :: bool
  sc_cert_sign :: bool
  sc_server_auth :: bool
  sc_signature_valid :: bool
  sc_unsupported_critical_extension :: bool

record tls_handshake_observation =
  th_server_name :: string
  th_protocol_version :: tls_protocol_version
  th_alpn :: "string option"
  th_chain :: "synthetic_certificate list"
  th_read_bytes :: u64
  th_write_bytes :: u64
  th_elapsed :: u64
  th_early_data_accepted :: bool
  th_renegotiation_observed :: bool
  th_session_resumed :: bool

datatype tls_rejection_reason =
  TlsHttpTransport
| TlsMissingSni
| TlsSniMismatch
| TlsInvalidSni
| TlsInvalidHttpAuthority
| TlsUnsupportedProtocolVersion
| TlsMissingAlpn
| TlsUnsupportedAlpn
| TlsEarlyDataRejected
| TlsRenegotiationRejected
| TlsSessionResumptionRejected
| TlsHandshakeTimeout
| TlsHandshakeReadBudgetExceeded
| TlsHandshakeWriteBudgetExceeded
| TlsEmptyCertificateChain
| TlsCertificateChainTooDeep
| TlsCertificateTooLarge nat
| TlsCertificateChainTooLarge
| TlsInvalidCertificateMetadata nat
| TlsCertificateNotYetValid nat
| TlsCertificateExpired nat
| TlsUnsupportedCriticalExtension nat
| TlsLeafIsCertificateAuthority
| TlsLeafMissingServerAuthEku
| TlsLeafMissingDigitalSignatureUsage
| TlsMissingDnsSubjectAlternativeName
| TlsTooManyDnsSubjectAlternativeNames
| TlsInvalidDnsSubjectAlternativeName
| TlsHostnameMismatch
| TlsIntermediateNotCertificateAuthority nat
| TlsIntermediateMissingCertificateSignUsage nat
| TlsIssuerLinkMismatch nat
| TlsInvalidCertificateSignature nat
| TlsRootNotCertificateAuthority
| TlsRootMissingCertificateSignUsage
| TlsRootNotSelfIssued
| TlsPathLengthConstraintExceeded nat
| TlsUntrustedRoot

primrec tls_rejection_code :: "tls_rejection_reason \<Rightarrow> string" where
  "tls_rejection_code TlsHttpTransport = ''http_transport''"
| "tls_rejection_code TlsMissingSni = ''missing_sni''"
| "tls_rejection_code TlsSniMismatch = ''sni_mismatch''"
| "tls_rejection_code TlsInvalidSni = ''invalid_sni''"
| "tls_rejection_code TlsInvalidHttpAuthority = ''invalid_http_authority''"
| "tls_rejection_code TlsUnsupportedProtocolVersion = ''unsupported_protocol_version''"
| "tls_rejection_code TlsMissingAlpn = ''missing_alpn''"
| "tls_rejection_code TlsUnsupportedAlpn = ''unsupported_alpn''"
| "tls_rejection_code TlsEarlyDataRejected = ''early_data_rejected''"
| "tls_rejection_code TlsRenegotiationRejected = ''renegotiation_rejected''"
| "tls_rejection_code TlsSessionResumptionRejected = ''session_resumption_rejected''"
| "tls_rejection_code TlsHandshakeTimeout = ''handshake_timeout''"
| "tls_rejection_code TlsHandshakeReadBudgetExceeded = ''handshake_read_budget_exceeded''"
| "tls_rejection_code TlsHandshakeWriteBudgetExceeded = ''handshake_write_budget_exceeded''"
| "tls_rejection_code TlsEmptyCertificateChain = ''empty_certificate_chain''"
| "tls_rejection_code TlsCertificateChainTooDeep = ''certificate_chain_too_deep''"
| "tls_rejection_code (TlsCertificateTooLarge _) = ''certificate_too_large''"
| "tls_rejection_code TlsCertificateChainTooLarge = ''certificate_chain_too_large''"
| "tls_rejection_code (TlsInvalidCertificateMetadata _) = ''invalid_certificate_metadata''"
| "tls_rejection_code (TlsCertificateNotYetValid _) = ''certificate_not_yet_valid''"
| "tls_rejection_code (TlsCertificateExpired _) = ''certificate_expired''"
| "tls_rejection_code (TlsUnsupportedCriticalExtension _) = ''unsupported_critical_extension''"
| "tls_rejection_code TlsLeafIsCertificateAuthority = ''leaf_is_certificate_authority''"
| "tls_rejection_code TlsLeafMissingServerAuthEku = ''leaf_missing_server_auth_eku''"
| "tls_rejection_code TlsLeafMissingDigitalSignatureUsage = ''leaf_missing_digital_signature_usage''"
| "tls_rejection_code TlsMissingDnsSubjectAlternativeName = ''missing_dns_subject_alternative_name''"
| "tls_rejection_code TlsTooManyDnsSubjectAlternativeNames = ''too_many_dns_subject_alternative_names''"
| "tls_rejection_code TlsInvalidDnsSubjectAlternativeName = ''invalid_dns_subject_alternative_name''"
| "tls_rejection_code TlsHostnameMismatch = ''hostname_mismatch''"
| "tls_rejection_code (TlsIntermediateNotCertificateAuthority _) = ''intermediate_not_certificate_authority''"
| "tls_rejection_code (TlsIntermediateMissingCertificateSignUsage _) = ''intermediate_missing_certificate_sign_usage''"
| "tls_rejection_code (TlsIssuerLinkMismatch _) = ''issuer_link_mismatch''"
| "tls_rejection_code (TlsInvalidCertificateSignature _) = ''invalid_certificate_signature''"
| "tls_rejection_code TlsRootNotCertificateAuthority = ''root_not_certificate_authority''"
| "tls_rejection_code TlsRootMissingCertificateSignUsage = ''root_missing_certificate_sign_usage''"
| "tls_rejection_code TlsRootNotSelfIssued = ''root_not_self_issued''"
| "tls_rejection_code (TlsPathLengthConstraintExceeded _) = ''path_length_constraint_exceeded''"
| "tls_rejection_code TlsUntrustedRoot = ''untrusted_root''"

text \<open>The positions a reason names, and the details of its audit event.\<close>

primrec rejection_index :: "tls_rejection_reason \<Rightarrow> nat option" where
  "rejection_index TlsHttpTransport = None"
| "rejection_index TlsMissingSni = None"
| "rejection_index TlsSniMismatch = None"
| "rejection_index TlsInvalidSni = None"
| "rejection_index TlsInvalidHttpAuthority = None"
| "rejection_index TlsUnsupportedProtocolVersion = None"
| "rejection_index TlsMissingAlpn = None"
| "rejection_index TlsUnsupportedAlpn = None"
| "rejection_index TlsEarlyDataRejected = None"
| "rejection_index TlsRenegotiationRejected = None"
| "rejection_index TlsSessionResumptionRejected = None"
| "rejection_index TlsHandshakeTimeout = None"
| "rejection_index TlsHandshakeReadBudgetExceeded = None"
| "rejection_index TlsHandshakeWriteBudgetExceeded = None"
| "rejection_index TlsEmptyCertificateChain = None"
| "rejection_index TlsCertificateChainTooDeep = None"
| "rejection_index (TlsCertificateTooLarge i) = Some i"
| "rejection_index TlsCertificateChainTooLarge = None"
| "rejection_index (TlsInvalidCertificateMetadata i) = Some i"
| "rejection_index (TlsCertificateNotYetValid i) = Some i"
| "rejection_index (TlsCertificateExpired i) = Some i"
| "rejection_index (TlsUnsupportedCriticalExtension i) = Some i"
| "rejection_index TlsLeafIsCertificateAuthority = None"
| "rejection_index TlsLeafMissingServerAuthEku = None"
| "rejection_index TlsLeafMissingDigitalSignatureUsage = None"
| "rejection_index TlsMissingDnsSubjectAlternativeName = None"
| "rejection_index TlsTooManyDnsSubjectAlternativeNames = None"
| "rejection_index TlsInvalidDnsSubjectAlternativeName = None"
| "rejection_index TlsHostnameMismatch = None"
| "rejection_index (TlsIntermediateNotCertificateAuthority i) = Some i"
| "rejection_index (TlsIntermediateMissingCertificateSignUsage i) = Some i"
| "rejection_index (TlsIssuerLinkMismatch i) = Some i"
| "rejection_index (TlsInvalidCertificateSignature i) = Some i"
| "rejection_index TlsRootNotCertificateAuthority = None"
| "rejection_index TlsRootMissingCertificateSignUsage = None"
| "rejection_index TlsRootNotSelfIssued = None"
| "rejection_index (TlsPathLengthConstraintExceeded i) = Some i"
| "rejection_index TlsUntrustedRoot = None"

definition rejection_details :: "tls_rejection_reason \<Rightarrow> (string \<times> string) list" where
  "rejection_details reason =
     (case rejection_index reason of None \<Rightarrow> [] | Some i \<Rightarrow> [(''certificate_index'', decimal i)])"

datatype tls_verification_outcome = TlsVerified | TlsRejected tls_rejection_reason

fun tls_outcome_code :: "tls_verification_outcome \<Rightarrow> string" where
  "tls_outcome_code TlsVerified = ''verified''"
| "tls_outcome_code (TlsRejected _) = ''rejected''"

record tls_session_grant =
  tg_tls_session_id :: string
  tg_stream_id :: string
  tg_execution_id :: string
  tg_ticket_id :: string
  tg_binding_hash :: string
  tg_stream_audit_anchor :: string
  tg_sni :: string
  tg_http_host :: string
  tg_port :: u16
  tg_redirect_depth :: u8
  tg_protocol_version :: tls_protocol_version
  tg_alpn :: string
  tg_leaf_fingerprint :: string
  tg_root_fingerprint :: string
  tg_matched_san :: string
  tg_tls_audit_anchor :: string

record tls_verification_decision =
  td_outcome :: tls_verification_outcome
  td_grant :: "tls_session_grant option"

definition is_verified :: "tls_verification_decision \<Rightarrow> bool" where
  "is_verified d \<longleftrightarrow> td_outcome d = TlsVerified \<and> td_grant d \<noteq> None"

section \<open>Names\<close>

text \<open>
  \<open>value.parse::<IpAddr>()\<close> of the standard library, on IPv4: four decimal numbers up to 255 without
  leading zeros. An IPv6 literal has a colon, which the rule on labels refuses with the same error.
\<close>

definition ipv4_part :: "string \<Rightarrow> bool" where
  "ipv4_part p \<longleftrightarrow> p \<noteq> [] \<and> length p \<le> 3 \<and> list_all is_ascii_digit p \<and> (hd p = CHR ''0'' \<longrightarrow> length p = 1)
     \<and> read_decimal p \<le> 255"

definition is_ipv4_literal :: "string \<Rightarrow> bool" where
  "is_ipv4_literal value = (let parts = split_on (CHR ''.'') value in length parts = 4 \<and> list_all ipv4_part parts)"

definition is_ascii_text :: "string \<Rightarrow> bool" where
  "is_ascii_text = list_all (\<lambda>c. byte c < 128)"

definition tls_normalize_dns_name :: "string \<Rightarrow> tls_rejection_reason + string" where
  "tls_normalize_dns_name value =
     (let normalized = normalize_host value in
      if normalized = [] \<or> length normalized > 253 \<or> \<not> is_ascii_text normalized \<or> is_ipv4_literal normalized then
        Inl TlsInvalidSni
      else
        let labels = split_on (CHR ''.'') normalized in
        if length labels < 2 \<or> \<not> list_all is_valid_label labels then Inl TlsInvalidSni else Inr normalized)"

definition expected_http_authority :: "string \<Rightarrow> u16 \<Rightarrow> string" where
  "expected_http_authority sni port = (if port = 443 then sni else sni @ '':'' @ decimal (unat port))"

definition valid_dns_name :: "string \<Rightarrow> bool" where
  "valid_dns_name value =
     (let labels = split_on (CHR ''.'') value in 2 \<le> length labels \<and> list_all is_valid_label labels)"

definition wildcard_base_is_too_broad :: "string \<Rightarrow> bool" where
  "wildcard_base_is_too_broad base \<longleftrightarrow>
     base \<in> set [''com'', ''net'', ''org'', ''edu'', ''gov'', ''mil'', ''int'', ''io'', ''dev'', ''app'', ''co.uk'', ''org.uk'',
       ''ac.uk'', ''co.jp'', ''com.tr'', ''com.au'', ''co.nz'']"

definition strip_prefix :: "string \<Rightarrow> string \<Rightarrow> string option" where
  "strip_prefix p s = (if prefix p s then Some (drop (length p) s) else None)"

definition normalize_san_pattern :: "string \<Rightarrow> tls_rejection_reason + string" where
  "normalize_san_pattern value =
     (let normalized = normalize_host value in
      if normalized = [] \<or> length normalized > 253 \<or> \<not> is_ascii_text normalized then
        Inl TlsInvalidDnsSubjectAlternativeName
      else
        (case strip_prefix ''*.'' normalized of
           Some base \<Rightarrow>
             if CHR ''*'' \<in> set base \<or> \<not> valid_dns_name base \<or> wildcard_base_is_too_broad base then
               Inl TlsInvalidDnsSubjectAlternativeName
             else Inr normalized
         | None \<Rightarrow>
             if CHR ''*'' \<in> set normalized \<or> \<not> valid_dns_name normalized then
               Inl TlsInvalidDnsSubjectAlternativeName
             else Inr normalized))"

definition san_matches :: "string \<Rightarrow> string \<Rightarrow> bool" where
  "san_matches expected san =
     (case strip_prefix ''*.'' san of
        None \<Rightarrow> expected = san
      | Some base \<Rightarrow>
          let expected_labels = split_on (CHR ''.'') expected; base_labels = split_on (CHR ''.'') base in
          length expected_labels = length base_labels + 1 \<and> suffix (''.'' @ base) expected \<and> hd expected_labels \<noteq> [])"

text \<open>The loop of \<open>match_dns_san\<close>: the first name that matches, if those before it are well-formed.\<close>

fun first_matching_san :: "string \<Rightarrow> string list \<Rightarrow> tls_rejection_reason + string" where
  "first_matching_san expected [] = Inl TlsHostnameMismatch"
| "first_matching_san expected (san # sans) =
     bind_r (normalize_san_pattern san) (\<lambda>normalized.
     if san_matches expected normalized then Inr normalized else first_matching_san expected sans)"

definition match_dns_san :: "(string \<Rightarrow> string) \<Rightarrow> string \<Rightarrow> string list \<Rightarrow> nat \<Rightarrow> tls_rejection_reason + string \<times> string" where
  "match_dns_san hex_sha256 expected_sni sans maximum_dns_sans =
     (if sans = [] then Inl TlsMissingDnsSubjectAlternativeName
      else if length sans > maximum_dns_sans then Inl TlsTooManyDnsSubjectAlternativeNames
      else bind_r (first_matching_san expected_sni sans) (\<lambda>normalized. Inr (expected_sni, hex_sha256 normalized)))"

section \<open>Audit\<close>

record tls_audit_event =
  te_verification_id :: string
  te_tls_session_id :: "string option"
  te_verifier_id :: string
  te_status :: string
  te_reason :: string
  te_stream_id :: string
  te_execution_id :: string
  te_ticket_id :: string
  te_binding_hash :: string
  te_stream_audit_anchor :: string
  te_sni :: string
  te_http_host :: string
  te_port :: u16
  te_redirect_depth :: u8
  te_protocol_version :: string
  te_alpn :: string
  te_read_bytes :: u64
  te_write_bytes :: u64
  te_elapsed :: u64
  te_chain_depth :: nat
  te_chain_fingerprint :: string
  te_leaf_fingerprint :: "string option"
  te_root_fingerprint :: "string option"
  te_matched_san :: "string option"
  te_early_data_accepted :: bool
  te_renegotiation_observed :: bool
  te_session_resumed :: bool
  te_details :: "(string \<times> string) list"

type_synonym tls_audit_chain = "tls_audit_event chain"

text \<open>What is not under \<open>src/\<close>: SHA-256 (with the stream) and the serializer.\<close>

record tls_ext =
  tx_stream :: stream_ext
  ser_tls :: "u64 \<times> string \<times> tls_audit_event \<Rightarrow> string + string"

definition tls_hex_sha256 :: "tls_ext \<Rightarrow> string \<Rightarrow> string" where
  "tls_hex_sha256 x bytes = to_lower_hex (sx_sha256 (tx_stream x) bytes)"

definition TLS_AUDIT_GENESIS_HASH :: string where
  "TLS_AUDIT_GENESIS_HASH = replicate 64 (CHR ''0'')"

definition tls_audit_new :: tls_audit_chain where
  "tls_audit_new = \<lparr>chain_records = [], tail_hash = TLS_AUDIT_GENESIS_HASH\<rparr>"

definition tls_record_hash :: "tls_ext \<Rightarrow> tls_audit_event record_hash" where
  "tls_record_hash x = chain_hash (ser_tls x) (sx_sha256 (tx_stream x))"

definition tls_append ::
  "tls_ext \<Rightarrow> tls_audit_chain \<Rightarrow> tls_audit_event \<Rightarrow> tls_audit_chain \<times> (chain_error + tls_audit_event chain_record)" where
  "tls_append x = chain_append (tls_record_hash x)"

definition tls_audit_verify :: "tls_ext \<Rightarrow> tls_audit_chain \<Rightarrow> chain_error + unit" where
  "tls_audit_verify x = chain_verify (tls_record_hash x) TLS_AUDIT_GENESIS_HASH"

interpretation tls_log: audit_log "tls_append x" "tls_audit_verify x" chain_events
  for x
  by unfold_locales
    (auto simp: tls_append_def tls_audit_verify_def chain_append_Inr dest: chain_append_Inl intro: chain_append_verify)

section \<open>The certificate chain\<close>

definition validate_certificate_metadata :: "synthetic_certificate \<Rightarrow> nat \<Rightarrow> tls_rejection_reason + unit" where
  "validate_certificate_metadata c index =
     (if \<not> is_lower_hex_sha256 (sc_fingerprint c) \<or> \<not> is_lower_hex_sha256 (sc_subject_spki c)
        \<or> \<not> is_lower_hex_sha256 (sc_issuer_spki c) \<or> sc_encoded_bytes c = 0 \<or> sc_not_before c > sc_not_after c then
        Inl (TlsInvalidCertificateMetadata index)
      else Inr ())"

text \<open>The first loop of \<open>verify_chain\<close>, from a position and with the bytes so far.\<close>

fun check_certificates ::
  "tls_limits \<Rightarrow> i64 \<Rightarrow> nat \<Rightarrow> u64 \<Rightarrow> synthetic_certificate list \<Rightarrow> tls_rejection_reason + unit" where
  "check_certificates l now index chain_bytes [] = Inr ()"
| "check_certificates l now index chain_bytes (c # cs) =
     bind_r (validate_certificate_metadata c index) (\<lambda>_.
     if sc_encoded_bytes c > tl_maximum_certificate_bytes l then Inl (TlsCertificateTooLarge index)
     else
       let chain_bytes = saturating_add chain_bytes (sc_encoded_bytes c) in
       if chain_bytes > tl_maximum_chain_bytes l then Inl TlsCertificateChainTooLarge
       else if now < sc_not_before c then Inl (TlsCertificateNotYetValid index)
       else if now > sc_not_after c then Inl (TlsCertificateExpired index)
       else if sc_unsupported_critical_extension c then Inl (TlsUnsupportedCriticalExtension index)
       else check_certificates l now (Suc index) chain_bytes cs)"

definition check_leaf :: "synthetic_certificate \<Rightarrow> tls_rejection_reason + unit" where
  "check_leaf leaf =
     (if sc_is_ca leaf then Inl TlsLeafIsCertificateAuthority
      else if \<not> sc_server_auth leaf then Inl TlsLeafMissingServerAuthEku
      else if \<not> sc_digital_signature leaf then Inl TlsLeafMissingDigitalSignatureUsage
      else Inr ())"

fun check_links :: "nat \<Rightarrow> synthetic_certificate list \<Rightarrow> tls_rejection_reason + unit" where
  "check_links index (c # issuer # cs) =
     (if sc_issuer_spki c \<noteq> sc_subject_spki issuer then Inl (TlsIssuerLinkMismatch index)
      else if \<not> sc_signature_valid c then Inl (TlsInvalidCertificateSignature index)
      else check_links (Suc index) (issuer # cs))"
| "check_links index _ = Inr ()"

text \<open>\<open>index.saturating_sub(1)\<close> subordinate authorities against the constraint.\<close>

definition check_path_length :: "nat \<Rightarrow> synthetic_certificate \<Rightarrow> tls_rejection_reason + unit" where
  "check_path_length index c =
     (case sc_path_len_constraint c of
        Some limit \<Rightarrow> if index - 1 > unat limit then Inl (TlsPathLengthConstraintExceeded index) else Inr ()
      | None \<Rightarrow> Inr ())"

fun check_intermediates :: "nat \<Rightarrow> synthetic_certificate list \<Rightarrow> tls_rejection_reason + unit" where
  "check_intermediates index [] = Inr ()"
| "check_intermediates index (c # cs) =
     (if \<not> sc_is_ca c then Inl (TlsIntermediateNotCertificateAuthority index)
      else if \<not> sc_cert_sign c then Inl (TlsIntermediateMissingCertificateSignUsage index)
      else bind_r (check_path_length index c) (\<lambda>_. check_intermediates (Suc index) cs))"

definition check_root :: "tls_trust_store \<Rightarrow> nat \<Rightarrow> synthetic_certificate \<Rightarrow> tls_rejection_reason + unit" where
  "check_root store root_index c =
     (if \<not> sc_is_ca c then Inl TlsRootNotCertificateAuthority
      else if \<not> sc_cert_sign c then Inl TlsRootMissingCertificateSignUsage
      else if sc_subject_spki c \<noteq> sc_issuer_spki c then Inl TlsRootNotSelfIssued
      else if \<not> sc_signature_valid c then Inl (TlsInvalidCertificateSignature root_index)
      else bind_r (check_path_length root_index c) (\<lambda>_.
        if \<not> trusts store (sc_fingerprint c) then Inl TlsUntrustedRoot else Inr ()))"

record verified_material =
  vm_normalized_sni :: string
  vm_matched_san :: string
  vm_leaf_fingerprint :: string
  vm_root_fingerprint :: string

definition verify_chain ::
  "tls_ext \<Rightarrow> tls_limits \<Rightarrow> tls_trust_store \<Rightarrow> string \<Rightarrow> synthetic_certificate list \<Rightarrow> i64
     \<Rightarrow> tls_rejection_reason + verified_material" where
  "verify_chain x l store expected_sni chain now =
     (if chain = [] then Inl TlsEmptyCertificateChain
      else if length chain > tl_maximum_chain_depth l then Inl TlsCertificateChainTooDeep
      else
        bind_r (check_certificates l now 0 0 chain) (\<lambda>_.
        let leaf = hd chain in
        bind_r (check_leaf leaf) (\<lambda>_.
        bind_r (match_dns_san (tls_hex_sha256 x) expected_sni (sc_dns_sans leaf) (tl_maximum_dns_sans l)) (\<lambda>(sni, san).
        bind_r (check_links 0 chain) (\<lambda>_.
        bind_r (check_intermediates 1 (take (length chain - 2) (tl chain))) (\<lambda>_.
        let anchor = last chain in
        bind_r (check_root store (length chain - 1) anchor) (\<lambda>_.
        Inr \<lparr>vm_normalized_sni = sni, vm_matched_san = san, vm_leaf_fingerprint = sc_fingerprint leaf,
             vm_root_fingerprint = sc_fingerprint anchor\<rparr>)))))))"

section \<open>The verifier\<close>

record tls_peer_verifier =
  tv_config :: tls_verifier_config
  tv_trust_store :: tls_trust_store
  tv_audit :: tls_audit_chain
  tv_next_verification_id :: u64
  tv_next_session_id :: u64

datatype tls_verifier_error =
  TlsInvalidConfiguration string
| TlsAuditFailure chain_error

definition is_verifier_byte :: "char \<Rightarrow> bool" where
  "is_verifier_byte c \<longleftrightarrow> is_ascii_alphanumeric c \<or> c \<in> set ''-_.''"

definition tls_verifier_new :: "tls_verifier_config \<Rightarrow> tls_trust_store \<Rightarrow> tls_verifier_error + tls_peer_verifier" where
  "tls_verifier_new config store =
     (if vc_verifier_id config = [] \<or> length (vc_verifier_id config) > 128
        \<or> \<not> list_all is_verifier_byte (vc_verifier_id config) then
        Inl (TlsInvalidConfiguration ''verifier_id is invalid'')
      else
        bind_r (map_err TlsInvalidConfiguration (validate_tls_limits (vc_limits config))) (\<lambda>_.
        if store = {||} then Inl (TlsInvalidConfiguration ''trust store is empty'')
        else Inr
          \<lparr>tv_config = config, tv_trust_store = store, tv_audit = tls_audit_new, tv_next_verification_id = 1,
           tv_next_session_id = 1\<rparr>))"

definition tls_evaluate ::
  "tls_ext \<Rightarrow> tls_peer_verifier \<Rightarrow> 'b byte_stream \<Rightarrow> tls_handshake_observation \<Rightarrow> i64
     \<Rightarrow> tls_rejection_reason + verified_material" where
  "tls_evaluate x v stream ob now =
     (let g = bs_grant stream; l = vc_limits (tv_config v) in
      if sg_scheme g \<noteq> ''https'' then Inl TlsHttpTransport
      else
        bind_r (ok_or (sg_sni g) TlsMissingSni) (\<lambda>sni.
        bind_r (tls_normalize_dns_name sni) (\<lambda>expected_sni.
        bind_r (tls_normalize_dns_name (th_server_name ob)) (\<lambda>observed_sni.
        if expected_sni \<noteq> observed_sni then Inl TlsSniMismatch
        else if to_ascii_lowercase (sg_http_host g) \<noteq> expected_http_authority expected_sni (sg_port g) then
          Inl TlsInvalidHttpAuthority
        else if th_protocol_version ob \<notin> {Tls12, Tls13} then Inl TlsUnsupportedProtocolVersion
        else
          bind_r (ok_or (th_alpn ob) TlsMissingAlpn) (\<lambda>alpn.
          if alpn \<noteq> ''http/1.1'' then Inl TlsUnsupportedAlpn
          else if th_early_data_accepted ob then Inl TlsEarlyDataRejected
          else if th_renegotiation_observed ob then Inl TlsRenegotiationRejected
          else if th_session_resumed ob then Inl TlsSessionResumptionRejected
          else if th_elapsed ob > tl_handshake_timeout l then Inl TlsHandshakeTimeout
          else if th_read_bytes ob > tl_maximum_handshake_read_bytes l then Inl TlsHandshakeReadBudgetExceeded
          else if th_write_bytes ob > tl_maximum_handshake_write_bytes l then Inl TlsHandshakeWriteBudgetExceeded
          else verify_chain x l (tv_trust_store v) expected_sni (th_chain ob) now)))))"

text \<open>\<open>chars().take(n)\<close> of a UTF-8 text: a byte of the form 10xxxxxx continues the character before it.\<close>

fun take_chars :: "nat \<Rightarrow> string \<Rightarrow> string" where
  "take_chars n [] = []"
| "take_chars n (c # s) =
     (if 128 \<le> byte c \<and> byte c < 192 then c # take_chars n s
      else case n of 0 \<Rightarrow> [] | Suc m \<Rightarrow> c # take_chars m s)"

definition chain_fingerprint_digest :: "tls_ext \<Rightarrow> synthetic_certificate list \<Rightarrow> string" where
  "chain_fingerprint_digest x chain = tls_hex_sha256 x (join_with [CHR 0x0A] (map sc_fingerprint chain))"

text \<open>The fingerprint of an end of the chain, when it is one.\<close>

definition well_formed_fingerprint :: "synthetic_certificate option \<Rightarrow> string option" where
  "well_formed_fingerprint c =
     (case c of None \<Rightarrow> None | Some c \<Rightarrow> if is_lower_hex_sha256 (sc_fingerprint c) then Some (sc_fingerprint c) else None)"

definition first_of :: "'a list \<Rightarrow> 'a option" where
  "first_of xs = (if xs = [] then None else Some (hd xs))"

definition last_of :: "'a list \<Rightarrow> 'a option" where
  "last_of xs = (if xs = [] then None else Some (last xs))"

definition tls_event ::
  "tls_ext \<Rightarrow> tls_peer_verifier \<Rightarrow> 'b byte_stream \<Rightarrow> tls_handshake_observation \<Rightarrow> string \<Rightarrow> string option
     \<Rightarrow> tls_rejection_reason + verified_material \<Rightarrow> tls_audit_event" where
  "tls_event x v stream ob verification_id session_id evaluation =
     (let g = bs_grant stream in
     \<lparr>te_verification_id = verification_id, te_tls_session_id = session_id,
      te_verifier_id = vc_verifier_id (tv_config v),
      te_status = (case evaluation of Inr _ \<Rightarrow> tls_outcome_code TlsVerified | Inl e \<Rightarrow> tls_outcome_code (TlsRejected e)),
      te_reason = (case evaluation of Inr _ \<Rightarrow> ''verified'' | Inl e \<Rightarrow> tls_rejection_code e),
      te_stream_id = sg_stream_id g, te_execution_id = sg_execution_id g, te_ticket_id = sg_ticket_id g,
      te_binding_hash = sg_binding_hash g, te_stream_audit_anchor = tail_hash (bs_audit stream),
      te_sni = to_ascii_lowercase (case sg_sni g of None \<Rightarrow> ''[missing]'' | Some sni \<Rightarrow> sni),
      te_http_host = to_ascii_lowercase (sg_http_host g), te_port = sg_port g, te_redirect_depth = sg_redirect_depth g,
      te_protocol_version = tls_version_code (th_protocol_version ob),
      te_alpn = take_chars 64 (case th_alpn ob of None \<Rightarrow> ''[missing]'' | Some alpn \<Rightarrow> alpn),
      te_read_bytes = th_read_bytes ob, te_write_bytes = th_write_bytes ob, te_elapsed = th_elapsed ob,
      te_chain_depth = length (th_chain ob), te_chain_fingerprint = chain_fingerprint_digest x (th_chain ob),
      te_leaf_fingerprint = well_formed_fingerprint (first_of (th_chain ob)),
      te_root_fingerprint = well_formed_fingerprint (last_of (th_chain ob)),
      te_matched_san = (case evaluation of Inr m \<Rightarrow> Some (vm_matched_san m) | Inl _ \<Rightarrow> None),
      te_early_data_accepted = th_early_data_accepted ob, te_renegotiation_observed = th_renegotiation_observed ob,
      te_session_resumed = th_session_resumed ob,
      te_details = (case evaluation of Inr _ \<Rightarrow> [] | Inl e \<Rightarrow> rejection_details e)\<rparr>)"

definition tls_session_grant_of ::
  "'b byte_stream \<Rightarrow> tls_handshake_observation \<Rightarrow> string \<Rightarrow> verified_material \<Rightarrow> string \<Rightarrow> tls_session_grant" where
  "tls_session_grant_of stream ob session_id m anchor =
     (let g = bs_grant stream in
     \<lparr>tg_tls_session_id = session_id, tg_stream_id = sg_stream_id g, tg_execution_id = sg_execution_id g,
      tg_ticket_id = sg_ticket_id g, tg_binding_hash = sg_binding_hash g, tg_stream_audit_anchor = tail_hash (bs_audit stream),
      tg_sni = vm_normalized_sni m, tg_http_host = sg_http_host g, tg_port = sg_port g,
      tg_redirect_depth = sg_redirect_depth g, tg_protocol_version = th_protocol_version ob, tg_alpn = ''http/1.1'',
      tg_leaf_fingerprint = vm_leaf_fingerprint m, tg_root_fingerprint = vm_root_fingerprint m,
      tg_matched_san = vm_matched_san m, tg_tls_audit_anchor = anchor\<rparr>)"

definition tls_verification_name :: "u64 \<Rightarrow> string" where
  "tls_verification_name n = ''tls-verification-'' @ decimal_pad 20 (unat n)"

definition tls_session_name :: "u64 \<Rightarrow> string" where
  "tls_session_name n = ''tls-session-'' @ decimal_pad 20 (unat n)"

definition tls_verify ::
  "tls_ext \<Rightarrow> tls_peer_verifier \<Rightarrow> 'b byte_stream \<Rightarrow> tls_handshake_observation \<Rightarrow> i64
     \<Rightarrow> tls_peer_verifier \<times> (tls_verifier_error + tls_verification_decision)" where
  "tls_verify x v stream ob now =
     (let verification_id = tls_verification_name (tv_next_verification_id v);
          v = v\<lparr>tv_next_verification_id := saturating_add (tv_next_verification_id v) 1\<rparr>;
          evaluation = tls_evaluate x v stream ob now;
          (v, session_id) =
            (case evaluation of
               Inr _ \<Rightarrow> (v\<lparr>tv_next_session_id := saturating_add (tv_next_session_id v) 1\<rparr>,
                         Some (tls_session_name (tv_next_session_id v)))
             | Inl _ \<Rightarrow> (v, None)) in
      case tls_append x (tv_audit v) (tls_event x v stream ob verification_id session_id evaluation) of
        (a, Inl err) \<Rightarrow> (v\<lparr>tv_audit := a\<rparr>, Inl (TlsAuditFailure err))
      | (a, Inr rec) \<Rightarrow>
          (v\<lparr>tv_audit := a\<rparr>,
           Inr (case (evaluation, session_id) of
                  (Inr m, Some session_id) \<Rightarrow>
                    \<lparr>td_outcome = TlsVerified, td_grant = Some (tls_session_grant_of stream ob session_id m (rec_hash rec))\<rparr>
                | (Inr _, None) \<Rightarrow> \<lparr>td_outcome = TlsVerified, td_grant = None\<rparr>
                | (Inl e, _) \<Rightarrow> \<lparr>td_outcome = TlsRejected e, td_grant = None\<rparr>)))"

section \<open>Sessions verified by a library\<close>

record library_tls_observation =
  lo_verifier_id :: string
  lo_server_name :: string
  lo_protocol_version :: tls_protocol_version
  lo_alpn :: string
  lo_read_bytes :: u64
  lo_write_bytes :: u64
  lo_elapsed :: u64
  lo_chain_depth :: nat
  lo_chain_fingerprint :: string
  lo_leaf_fingerprint :: string
  lo_trust_anchor :: string
  lo_early_data_accepted :: bool
  lo_renegotiation_observed :: bool
  lo_session_resumed :: bool

record library_tls_binder =
  lb_audit :: tls_audit_chain
  lb_next_verification_id :: u64
  lb_next_session_id :: u64

datatype library_tls_error =
  TlsInvalidObservation string
| TlsLibraryAudit chain_error

definition library_binder_new :: library_tls_binder where
  "library_binder_new = \<lparr>lb_audit = tls_audit_new, lb_next_verification_id = 1, lb_next_session_id = 1\<rparr>"

text \<open>The server name of a stream: its SNI, normalized.\<close>

definition stream_server_name :: "'b byte_stream \<Rightarrow> library_tls_error + string" where
  "stream_server_name stream =
     bind_r (ok_or (sg_sni (bs_grant stream)) (TlsInvalidObservation ''missing SNI'')) (\<lambda>sni.
     map_err (\<lambda>reason. TlsInvalidObservation (tls_rejection_code reason)) (tls_normalize_dns_name sni))"

fun check_fingerprints :: "(string \<times> string) list \<Rightarrow> library_tls_error + unit" where
  "check_fingerprints [] = Inr ()"
| "check_fingerprints ((value, name) # rest) =
     (if \<not> is_lower_hex_sha256 value then Inl (TlsInvalidObservation (name @ '' fingerprint is invalid''))
      else check_fingerprints rest)"

definition validate_observation :: "'b byte_stream \<Rightarrow> library_tls_observation \<Rightarrow> library_tls_error + unit" where
  "validate_observation stream ob =
     (let g = bs_grant stream in
      bind_r (stream_server_name stream) (\<lambda>expected_sni.
      bind_r (map_err (\<lambda>reason. TlsInvalidObservation (tls_rejection_code reason))
                (tls_normalize_dns_name (lo_server_name ob))) (\<lambda>observed_sni.
      if sg_scheme g \<noteq> ''https'' then Inl (TlsInvalidObservation ''library-verified binding requires HTTPS'')
      else if expected_sni \<noteq> observed_sni then
        Inl (TlsInvalidObservation ''verified server name does not match stream SNI'')
      else if to_ascii_lowercase (sg_http_host g) \<noteq> expected_http_authority expected_sni (sg_port g) then
        Inl (TlsInvalidObservation ''HTTP authority does not match verified SNI'')
      else if lo_verifier_id ob = [] \<or> length (lo_verifier_id ob) > 128
        \<or> \<not> list_all is_identifier_byte (lo_verifier_id ob) then
        Inl (TlsInvalidObservation ''TLS library verifier identifier is invalid'')
      else if lo_protocol_version ob \<notin> {Tls12, Tls13} \<or> lo_alpn ob \<noteq> ''http/1.1'' then
        Inl (TlsInvalidObservation ''TLS version or ALPN is outside the verified HTTP/1.1 boundary'')
      else if lo_chain_depth ob = 0 \<or> lo_chain_depth ob > 16 then
        Inl (TlsInvalidObservation ''certificate chain depth is outside the bridge limit'')
      else
        bind_r (check_fingerprints
          [(lo_chain_fingerprint ob, ''certificate chain''), (lo_leaf_fingerprint ob, ''leaf certificate''),
           (lo_trust_anchor ob, ''trust anchor snapshot'')]) (\<lambda>_.
        if lo_early_data_accepted ob \<or> lo_renegotiation_observed ob \<or> lo_session_resumed ob then
          Inl (TlsInvalidObservation ''early data, renegotiation and resumed sessions are rejected'')
        else Inr ()))))"

definition library_tls_event ::
  "tls_ext \<Rightarrow> 'b byte_stream \<Rightarrow> library_tls_observation \<Rightarrow> string \<Rightarrow> string \<Rightarrow> string \<Rightarrow> tls_audit_event" where
  "library_tls_event x stream ob verification_id session_id sni =
     (let g = bs_grant stream in
     \<lparr>te_verification_id = verification_id, te_tls_session_id = Some session_id, te_verifier_id = lo_verifier_id ob,
      te_status = ''verified'', te_reason = ''library_verified_and_stream_bound'',
      te_stream_id = sg_stream_id g, te_execution_id = sg_execution_id g, te_ticket_id = sg_ticket_id g,
      te_binding_hash = sg_binding_hash g, te_stream_audit_anchor = tail_hash (bs_audit stream), te_sni = sni,
      te_http_host = to_ascii_lowercase (sg_http_host g), te_port = sg_port g, te_redirect_depth = sg_redirect_depth g,
      te_protocol_version = tls_version_code (lo_protocol_version ob), te_alpn = lo_alpn ob,
      te_read_bytes = lo_read_bytes ob, te_write_bytes = lo_write_bytes ob, te_elapsed = lo_elapsed ob,
      te_chain_depth = lo_chain_depth ob, te_chain_fingerprint = lo_chain_fingerprint ob,
      te_leaf_fingerprint = Some (lo_leaf_fingerprint ob), te_root_fingerprint = Some (lo_trust_anchor ob),
      te_matched_san = Some (tls_hex_sha256 x sni), te_early_data_accepted = lo_early_data_accepted ob,
      te_renegotiation_observed = lo_renegotiation_observed ob, te_session_resumed = lo_session_resumed ob,
      te_details = [(''trust_anchor_kind'', ''configured_root_store_snapshot''), (''verification_source'', ''tls_library'')]\<rparr>)"

definition library_tls_grant ::
  "tls_ext \<Rightarrow> 'b byte_stream \<Rightarrow> library_tls_observation \<Rightarrow> string \<Rightarrow> string \<Rightarrow> string \<Rightarrow> tls_session_grant" where
  "library_tls_grant x stream ob session_id sni anchor =
     (let g = bs_grant stream in
     \<lparr>tg_tls_session_id = session_id, tg_stream_id = sg_stream_id g, tg_execution_id = sg_execution_id g,
      tg_ticket_id = sg_ticket_id g, tg_binding_hash = sg_binding_hash g, tg_stream_audit_anchor = tail_hash (bs_audit stream),
      tg_sni = sni, tg_http_host = sg_http_host g, tg_port = sg_port g, tg_redirect_depth = sg_redirect_depth g,
      tg_protocol_version = lo_protocol_version ob, tg_alpn = lo_alpn ob, tg_leaf_fingerprint = lo_leaf_fingerprint ob,
      tg_root_fingerprint = lo_trust_anchor ob, tg_matched_san = tls_hex_sha256 x sni, tg_tls_audit_anchor = anchor\<rparr>)"

definition library_bind ::
  "tls_ext \<Rightarrow> library_tls_binder \<Rightarrow> 'b byte_stream \<Rightarrow> library_tls_observation
     \<Rightarrow> library_tls_binder \<times> (library_tls_error + tls_session_grant)" where
  "library_bind x b stream ob =
     (case bind_r (map_err (\<lambda>err. TlsInvalidObservation (stream_audit_error_message err))
                     (stream_verify (tx_stream x) (bs_audit stream))) (\<lambda>_. validate_observation stream ob) of
        Inl err \<Rightarrow> (b, Inl err)
      | Inr _ \<Rightarrow>
          let verification_id = ''tls-library-verification-'' @ decimal_pad 20 (unat (lb_next_verification_id b));
              session_id = ''tls-library-session-'' @ decimal_pad 20 (unat (lb_next_session_id b));
              b = b\<lparr>lb_next_verification_id := saturating_add (lb_next_verification_id b) 1,
                    lb_next_session_id := saturating_add (lb_next_session_id b) 1\<rparr> in
          (case stream_server_name stream of
             Inl err \<Rightarrow> (b, Inl err)
           | Inr sni \<Rightarrow>
               (case tls_append x (lb_audit b) (library_tls_event x stream ob verification_id session_id sni) of
                  (a, Inl err) \<Rightarrow> (b\<lparr>lb_audit := a\<rparr>, Inl (TlsLibraryAudit err))
                | (a, Inr rec) \<Rightarrow>
                    (b\<lparr>lb_audit := a\<rparr>,
                     bind_r (map_err TlsLibraryAudit (tls_audit_verify x a)) (\<lambda>_.
                     Inr (library_tls_grant x stream ob session_id sni (rec_hash rec)))))))"

section \<open>What a name matches\<close>

lemma prefix_drop: "prefix p s \<Longrightarrow> s = p @ drop (length p) s"
  by (auto simp: prefix_def)

lemma strip_prefix_Some: "strip_prefix p s = Some t \<longleftrightarrow> s = p @ t"
  by (auto simp: strip_prefix_def prefix_def)

lemma strip_prefix_None: "strip_prefix p s = None \<longleftrightarrow> \<not> prefix p s"
  by (auto simp: strip_prefix_def)

lemma split_on_join_append: "split_on d (u @ d # s) = split_on d u @ split_on d s"
  by (induction u) (auto split: list.split)

lemma split_on_eq_single: "split_on d u = [p] \<Longrightarrow> p = u"
  by (induction u arbitrary: p) (auto split: if_split_asm list.split_asm)

lemma split_on_inject: "split_on d s = split_on d t \<Longrightarrow> s = t"
proof (induction s arbitrary: t)
  case Nil
  then show ?case using split_on_single_Nil [of d t] by simp
next
  case (Cons c s)
  show ?case
  proof (cases t)
    case Nil
    then show ?thesis using Cons.prems split_on_single_Nil [of d "c # s"] by simp
  next
    case (Cons c' t')
    then show ?thesis using Cons.prems Cons.IH [of t']
      by (cases "split_on d s"; cases "split_on d t'") (auto split: if_split_asm)
  qed
qed

lemma split_on_Cons: "split_on d s = l # ps \<Longrightarrow> ps \<noteq> [] \<Longrightarrow> \<exists>t. s = l @ d # t \<and> split_on d t = ps"
proof (induction s arbitrary: l)
  case (Cons c s)
  show ?case
  proof (cases "c = d")
    case False
    then obtain p where p: "split_on d s = p # ps" "l = c # p" using Cons.prems(1) by (auto split: list.split_asm)
    then show ?thesis using Cons.IH [OF p(1) Cons.prems(2)] by auto
  qed (use Cons.prems in auto)
qed simp

text \<open>
  C40: host name matching by labels. A subject alternative name without a wildcard matches exactly
  itself; a wildcard stands for exactly one nonempty label in front of the labels of its base.
\<close>

theorem san_matches_labels:
  assumes "normalize_san_pattern san = Inr pattern"
  shows "san_matches expected pattern \<longleftrightarrow>
    (case split_on (CHR ''.'') pattern of
       wildcard # base \<Rightarrow>
         if wildcard = ''*'' then \<exists>l. l \<noteq> [] \<and> split_on (CHR ''.'') expected = l # base
         else expected = pattern)"
proof (cases "strip_prefix ''*.'' pattern")
  case None
  have p: "CHR ''*'' \<notin> set pattern"
    using assms None by (auto simp: normalize_san_pattern_def Let_def split: if_split_asm option.split_asm)
  obtain l ls where s: "split_on (CHR ''.'') pattern = l # ls" by (cases "split_on (CHR ''.'') pattern") simp_all
  then have "set l \<subseteq> set pattern" using set_split_on [of l "CHR ''.''" pattern] by simp
  then have "l \<noteq> ''*''" using p by auto
  then show ?thesis by (simp add: san_matches_def None s)
next
  case (Some base)
  let ?e = "split_on (CHR ''.'') expected" and ?b = "split_on (CHR ''.'') base"
  have "pattern = ''*'' @ CHR ''.'' # base" using Some by (simp add: strip_prefix_Some)
  then have s: "split_on (CHR ''.'') pattern = ''*'' # ?b" using split_on_join_append [of "CHR ''.''" "''*''" base] by simp
  have "(length ?e = length ?b + 1 \<and> suffix (''.'' @ base) expected \<and> hd ?e \<noteq> []) \<longleftrightarrow> (\<exists>l. l \<noteq> [] \<and> ?e = l # ?b)"
  proof
    assume m: "length ?e = length ?b + 1 \<and> suffix (''.'' @ base) expected \<and> hd ?e \<noteq> []"
    then obtain u where u: "expected = u @ CHR ''.'' # base" by (auto simp: suffix_def)
    have e: "?e = split_on (CHR ''.'') u @ ?b" unfolding u by (rule split_on_join_append)
    then have "length (split_on (CHR ''.'') u) = 1" using m by simp
    then obtain l where "split_on (CHR ''.'') u = [l]" by (auto simp: length_Suc_conv)
    then show "\<exists>l. l \<noteq> [] \<and> ?e = l # ?b" using e m by simp
  next
    assume "\<exists>l. l \<noteq> [] \<and> ?e = l # ?b"
    then obtain l where l: "l \<noteq> []" "?e = l # ?b" by blast
    from split_on_Cons [OF l(2)] obtain t where "expected = l @ CHR ''.'' # t" "split_on (CHR ''.'') t = ?b" by auto
    then have "expected = l @ CHR ''.'' # base" using split_on_inject by auto
    then show "length ?e = length ?b + 1 \<and> suffix (''.'' @ base) expected \<and> hd ?e \<noteq> []" using l by (auto simp: suffix_def)
  qed
  then show ?thesis by (simp add: san_matches_def Some s Let_def)
qed

section \<open>What the verifier accepts\<close>

definition certificate_current :: "tls_limits \<Rightarrow> i64 \<Rightarrow> synthetic_certificate \<Rightarrow> bool" where
  "certificate_current l now c \<longleftrightarrow>
     is_lower_hex_sha256 (sc_fingerprint c) \<and> is_lower_hex_sha256 (sc_subject_spki c) \<and> is_lower_hex_sha256 (sc_issuer_spki c)
     \<and> 0 < sc_encoded_bytes c \<and> sc_encoded_bytes c \<le> tl_maximum_certificate_bytes l
     \<and> sc_not_before c \<le> now \<and> now \<le> sc_not_after c \<and> \<not> sc_unsupported_critical_extension c"

definition issued_by :: "synthetic_certificate \<Rightarrow> synthetic_certificate \<Rightarrow> bool" where
  "issued_by c issuer \<longleftrightarrow> sc_issuer_spki c = sc_subject_spki issuer \<and> sc_signature_valid c"

text \<open>An authority at a position of the chain: at most as many authorities below it as it allows.\<close>

definition authority_at :: "nat \<Rightarrow> synthetic_certificate \<Rightarrow> bool" where
  "authority_at i c \<longleftrightarrow> sc_is_ca c \<and> sc_cert_sign c
     \<and> (\<forall>limit. sc_path_len_constraint c = Some limit \<longrightarrow> i - 1 \<le> unat limit)"

text \<open>Some name of the certificate matches, and it and those before it are well-formed.\<close>

definition names_host :: "tls_limits \<Rightarrow> string \<Rightarrow> string list \<Rightarrow> bool" where
  "names_host l host sans \<longleftrightarrow> length sans \<le> tl_maximum_dns_sans l
     \<and> (\<exists>before san after pattern. sans = before @ san # after \<and> list_all (\<lambda>s. \<not> isl (normalize_san_pattern s)) before
          \<and> normalize_san_pattern san = Inr pattern \<and> san_matches host pattern)"

definition chain_acceptable :: "tls_limits \<Rightarrow> tls_trust_store \<Rightarrow> string \<Rightarrow> i64 \<Rightarrow> synthetic_certificate list \<Rightarrow> bool" where
  "chain_acceptable l store host now chain \<longleftrightarrow>
     2 \<le> length chain \<and> length chain \<le> tl_maximum_chain_depth l
     \<and> list_all (certificate_current l now) chain
     \<and> (\<Sum>c\<leftarrow>chain. unat (sc_encoded_bytes c)) \<le> unat (tl_maximum_chain_bytes l)
     \<and> \<not> sc_is_ca (hd chain) \<and> sc_server_auth (hd chain) \<and> sc_digital_signature (hd chain)
     \<and> names_host l host (sc_dns_sans (hd chain))
     \<and> (\<forall>i. Suc i < length chain \<longrightarrow> issued_by (chain ! i) (chain ! Suc i))
     \<and> (\<forall>i. 0 < i \<and> i < length chain \<longrightarrow> authority_at i (chain ! i))
     \<and> issued_by (last chain) (last chain) \<and> trusts store (sc_fingerprint (last chain))"

lemma check_certificates_ok:
  assumes "unat (tl_maximum_chain_bytes l) < 2 ^ 64 - 1"
  shows "unat b \<le> unat (tl_maximum_chain_bytes l) \<Longrightarrow> check_certificates l now i b chain = Inr () \<longleftrightarrow>
    list_all (certificate_current l now) chain
    \<and> unat b + (\<Sum>c\<leftarrow>chain. unat (sc_encoded_bytes c)) \<le> unat (tl_maximum_chain_bytes l)"
proof (induction chain arbitrary: i b)
  case (Cons c chain)
  let ?b = "saturating_add b (sc_encoded_bytes c)"
  have sat: "unat ?b = min (unat b + unat (sc_encoded_bytes c)) (2 ^ 64 - 1)" by (simp add: unat_saturating_add)
  show ?case
  proof (cases "unat b + unat (sc_encoded_bytes c) \<le> unat (tl_maximum_chain_bytes l)")
    case True
    then have s: "unat ?b = unat b + unat (sc_encoded_bytes c)" using sat assms by simp
    then have "\<not> tl_maximum_chain_bytes l < ?b" using True by (simp add: word_less_nat_alt)
    with Cons.IH [of ?b "Suc i"] s True show ?thesis
      by (auto simp: Let_def validate_certificate_metadata_def certificate_current_def bind_r_Inr word_gt_0 not_less split: if_split_asm)
  next
    case False
    then have "tl_maximum_chain_bytes l < ?b" using sat assms by (simp add: word_less_nat_alt)
    then show ?thesis using False
      by (auto simp: Let_def validate_certificate_metadata_def bind_r_Inr split: if_split_asm)
  qed
qed simp

lemma check_links_ok: "check_links i chain = Inr () \<longleftrightarrow> (\<forall>j. Suc j < length chain \<longrightarrow> issued_by (chain ! j) (chain ! Suc j))"
proof (induction i chain rule: check_links.induct)
  case (1 i c issuer cs)
  then show ?case by (auto simp: issued_by_def nth_Cons split: nat.splits)
qed simp_all

lemma check_path_length_ok:
  "check_path_length i c = Inr () \<longleftrightarrow> (\<forall>limit. sc_path_len_constraint c = Some limit \<longrightarrow> i - 1 \<le> unat limit)"
  by (auto simp: check_path_length_def split: option.split)

lemma check_intermediates_ok:
  "check_intermediates i cs = Inr () \<longleftrightarrow> (\<forall>j < length cs. authority_at (i + j) (cs ! j))"
proof (induction cs arbitrary: i)
  case (Cons c cs)
  have "(\<forall>j < length (c # cs). authority_at (i + j) ((c # cs) ! j)) \<longleftrightarrow>
    authority_at i c \<and> (\<forall>j < length cs. authority_at (Suc i + j) (cs ! j))"
    by (auto simp: nth_Cons less_Suc_eq_0_disj split: nat.split)
  then show ?case using Cons.IH [of "Suc i"]
    by (auto simp: authority_at_def bind_r_Inr check_path_length_ok)
qed simp

lemma check_root_ok:
  "check_root store i c = Inr () \<longleftrightarrow> authority_at i c \<and> issued_by c c \<and> trusts store (sc_fingerprint c)"
  by (auto simp: check_root_def authority_at_def issued_by_def bind_r_Inr check_path_length_ok)

lemma first_matching_san_ok:
  "(\<exists>p. first_matching_san host sans = Inr p) \<longleftrightarrow>
   (\<exists>before san after pattern. sans = before @ san # after \<and> list_all (\<lambda>s. \<not> isl (normalize_san_pattern s)) before
      \<and> normalize_san_pattern san = Inr pattern \<and> san_matches host pattern)" (is "?l sans \<longleftrightarrow> ?r sans")
proof (induction sans)
  case (Cons san sans)
  have r: "?r (san # sans) \<longleftrightarrow> (\<exists>pattern. normalize_san_pattern san = Inr pattern \<and> san_matches host pattern)
      \<or> \<not> isl (normalize_san_pattern san) \<and> ?r sans"
    (is "_ \<longleftrightarrow> ?h \<or> ?t")
  proof
    assume "?r (san # sans)"
    then obtain before s after pattern where e: "san # sans = before @ s # after" "list_all (\<lambda>s. \<not> isl (normalize_san_pattern s)) before"
      "normalize_san_pattern s = Inr pattern" "san_matches host pattern" by blast
    then show "?h \<or> ?t" by (cases before) auto
  next
    assume "?h \<or> ?t"
    then show "?r (san # sans)"
    proof
      assume ?h
      then obtain pattern where "san # sans = [] @ san # sans \<and> list_all (\<lambda>s. \<not> isl (normalize_san_pattern s)) []
        \<and> normalize_san_pattern san = Inr pattern \<and> san_matches host pattern" by auto
      then show ?thesis by blast
    next
      assume t: ?t
      then obtain before s after pattern where "sans = before @ s # after" "list_all (\<lambda>s. \<not> isl (normalize_san_pattern s)) before"
        "normalize_san_pattern s = Inr pattern" "san_matches host pattern" by blast
      then show ?thesis using t by (intro exI [of _ "san # before"]) auto
    qed
  qed
  show ?case unfolding r Cons.IH [symmetric] by (cases "normalize_san_pattern san") auto
qed simp

lemma authorities_above:
  assumes "2 \<le> length chain"
  shows "(\<forall>j < length (take (length chain - 2) (tl chain)). authority_at (1 + j) (take (length chain - 2) (tl chain) ! j))
      \<and> authority_at (length chain - 1) (last chain) \<longleftrightarrow>
    (\<forall>i. 0 < i \<and> i < length chain \<longrightarrow> authority_at i (chain ! i))" (is "?a \<longleftrightarrow> ?b")
proof -
  let ?mid = "take (length chain - 2) (tl chain)"
  have mid: "length ?mid = length chain - 2" "\<And>j. j < length chain - 2 \<Longrightarrow> ?mid ! j = chain ! Suc j"
    using assms by (auto simp: nth_tl)
  have l: "last chain = chain ! (length chain - 1)" using assms by (intro last_conv_nth) auto
  show ?thesis
  proof
    assume a: ?a
    show ?b
    proof (intro allI impI)
      fix i assume i: "0 < i \<and> i < length chain"
      show "authority_at i (chain ! i)"
      proof (cases "i = length chain - 1")
        case True
        then show ?thesis using a l by simp
      next
        case False
        then have "i - 1 < length ?mid" "?mid ! (i - 1) = chain ! i" using i mid(1) mid(2) [of "i - 1"] by auto
        moreover have "1 + (i - 1) = i" using i by simp
        ultimately show ?thesis using a by metis
      qed
    qed
  next
    assume ?b
    then show ?a using l mid assms by auto
  qed
qed

lemma verify_chain_Inr:
  "(\<exists>m. verify_chain x l store host chain now = Inr m) \<longleftrightarrow>
   chain \<noteq> [] \<and> length chain \<le> tl_maximum_chain_depth l \<and> check_certificates l now 0 0 chain = Inr ()
   \<and> check_leaf (hd chain) = Inr () \<and> sc_dns_sans (hd chain) \<noteq> []
   \<and> length (sc_dns_sans (hd chain)) \<le> tl_maximum_dns_sans l \<and> (\<exists>p. first_matching_san host (sc_dns_sans (hd chain)) = Inr p)
   \<and> check_links 0 chain = Inr () \<and> check_intermediates 1 (take (length chain - 2) (tl chain)) = Inr ()
   \<and> check_root store (length chain - 1) (last chain) = Inr ()"
  by (auto simp: verify_chain_def Let_def bind_r_Inr match_dns_san_def)

lemma verify_chain_ok:
  assumes "unat (tl_maximum_chain_bytes l) < 2 ^ 64 - 1"
  shows "(\<exists>m. verify_chain x l store host chain now = Inr m) \<longleftrightarrow> chain_acceptable l store host now chain"
proof (cases "2 \<le> length chain")
  case False
  then consider "chain = []" | c where "chain = [c]" by (cases chain; cases "tl chain") auto
  then show ?thesis unfolding verify_chain_Inr
    by cases (auto simp: chain_acceptable_def check_leaf_def check_root_def split: if_split_asm)
next
  case True
  have names: "sc_dns_sans (hd chain) \<noteq> [] \<and> length (sc_dns_sans (hd chain)) \<le> tl_maximum_dns_sans l
      \<and> (\<exists>p. first_matching_san host (sc_dns_sans (hd chain)) = Inr p) \<longleftrightarrow> names_host l host (sc_dns_sans (hd chain))"
    unfolding names_host_def first_matching_san_ok by auto
  have leaf: "check_leaf c = Inr () \<longleftrightarrow> \<not> sc_is_ca c \<and> sc_server_auth c \<and> sc_digital_signature c" for c
    by (auto simp: check_leaf_def)
  have sum: "check_certificates l now 0 0 chain = Inr () \<longleftrightarrow> list_all (certificate_current l now) chain
      \<and> (\<Sum>c\<leftarrow>chain. unat (sc_encoded_bytes c)) \<le> unat (tl_maximum_chain_bytes l)"
    using check_certificates_ok [OF assms, of 0 now 0 chain] by simp
  show ?thesis unfolding verify_chain_Inr chain_acceptable_def sum leaf check_links_ok check_intermediates_ok check_root_ok
    using True names authorities_above [OF True] by (cases chain) (simp, blast)
qed

definition peer_acceptable :: "tls_peer_verifier \<Rightarrow> 'b byte_stream \<Rightarrow> tls_handshake_observation \<Rightarrow> i64 \<Rightarrow> bool" where
  "peer_acceptable v stream ob now \<longleftrightarrow>
     (let g = bs_grant stream; l = vc_limits (tv_config v) in
      sg_scheme g = ''https''
      \<and> (\<exists>sni host. sg_sni g = Some sni \<and> tls_normalize_dns_name sni = Inr host
           \<and> tls_normalize_dns_name (th_server_name ob) = Inr host
           \<and> to_ascii_lowercase (sg_http_host g) = expected_http_authority host (sg_port g)
           \<and> chain_acceptable l (tv_trust_store v) host now (th_chain ob))
      \<and> th_protocol_version ob \<in> {Tls12, Tls13} \<and> th_alpn ob = Some ''http/1.1''
      \<and> \<not> th_early_data_accepted ob \<and> \<not> th_renegotiation_observed ob \<and> \<not> th_session_resumed ob
      \<and> th_elapsed ob \<le> tl_handshake_timeout l \<and> th_read_bytes ob \<le> tl_maximum_handshake_read_bytes l
      \<and> th_write_bytes ob \<le> tl_maximum_handshake_write_bytes l)"

lemma guard_Inr: "(if b then Inl e else r) = Inr m \<longleftrightarrow> \<not> b \<and> r = Inr m"
  by simp

lemma tls_evaluate_iff:
  "tls_evaluate x v stream ob now = Inr m \<longleftrightarrow>
   sg_scheme (bs_grant stream) = ''https''
   \<and> (\<exists>sni. sg_sni (bs_grant stream) = Some sni
     \<and> (\<exists>host. tls_normalize_dns_name sni = Inr host
       \<and> (\<exists>observed. tls_normalize_dns_name (th_server_name ob) = Inr observed \<and> host = observed
         \<and> to_ascii_lowercase (sg_http_host (bs_grant stream)) = expected_http_authority host (sg_port (bs_grant stream))
         \<and> th_protocol_version ob \<in> {Tls12, Tls13}
         \<and> (\<exists>alpn. th_alpn ob = Some alpn \<and> alpn = ''http/1.1''
           \<and> \<not> th_early_data_accepted ob \<and> \<not> th_renegotiation_observed ob \<and> \<not> th_session_resumed ob
           \<and> \<not> tl_handshake_timeout (vc_limits (tv_config v)) < th_elapsed ob
           \<and> \<not> tl_maximum_handshake_read_bytes (vc_limits (tv_config v)) < th_read_bytes ob
           \<and> \<not> tl_maximum_handshake_write_bytes (vc_limits (tv_config v)) < th_write_bytes ob
           \<and> verify_chain x (vc_limits (tv_config v)) (tv_trust_store v) host (th_chain ob) now = Inr m))))"
  unfolding tls_evaluate_def Let_def guard_Inr bind_r_Inr ok_or_Inr not_not by (rule refl)

lemma tls_evaluate_ok:
  assumes "validate_tls_limits (vc_limits (tv_config v)) = Inr ()"
  shows "(\<exists>m. tls_evaluate x v stream ob now = Inr m) \<longleftrightarrow> peer_acceptable v stream ob now"
proof -
  have "tl_maximum_chain_bytes (vc_limits (tv_config v)) \<le> 4194304"
    using assms by (auto simp: validate_tls_limits_def MAX_CERTIFICATE_CHAIN_BYTES_def not_less split: if_split_asm)
  then have "unat (tl_maximum_chain_bytes (vc_limits (tv_config v))) < 2 ^ 64 - 1" by (simp add: word_le_nat_alt)
  note ok = verify_chain_ok [OF this, where x = x]
  show ?thesis unfolding peer_acceptable_def Let_def ok [symmetric] tls_evaluate_iff not_less by blast
qed

lemma verify_chain_sni: "verify_chain x l store host chain now = Inr m \<Longrightarrow> vm_normalized_sni m = host"
  by (auto simp: verify_chain_def match_dns_san_def Let_def bind_r_Inr split: if_split_asm)

lemma tls_evaluate_Inr:
  assumes "tls_evaluate x v stream ob now = Inr m"
  shows "sg_scheme (bs_grant stream) = ''https''" "th_protocol_version ob \<in> {Tls12, Tls13}"
    "\<exists>sni. sg_sni (bs_grant stream) = Some sni \<and> tls_normalize_dns_name sni = Inr (vm_normalized_sni m)"
    "to_ascii_lowercase (sg_http_host (bs_grant stream)) = expected_http_authority (vm_normalized_sni m) (sg_port (bs_grant stream))"
  using assms [unfolded tls_evaluate_iff] verify_chain_sni by blast+

text \<open>One verification: the record it appends and the decision it returns.\<close>

lemma tls_evaluate_config:
  "tls_evaluate x (v\<lparr>tv_next_verification_id := n\<rparr>) stream ob now = tls_evaluate x v stream ob now"
  by (simp add: tls_evaluate_def cong: if_cong)

lemma tls_verify_cases:
  assumes "tls_verify x v stream ob now = (v', r)"
  obtains (rejected) e ev q where "tls_evaluate x v stream ob now = Inl e"
      "tls_append x (tv_audit v) ev = (tv_audit v', q)" "te_status ev = ''rejected''" "te_tls_session_id ev = None"
      "tv_next_session_id v' = tv_next_session_id v" "tv_config v' = tv_config v" "tv_trust_store v' = tv_trust_store v"
      "\<And>rec. q = Inr rec \<Longrightarrow> r = Inr \<lparr>td_outcome = TlsRejected e, td_grant = None\<rparr>" "\<And>y. q = Inl y \<Longrightarrow> isl r"
  | (verified) m ev q where "tls_evaluate x v stream ob now = Inr m"
      "tls_append x (tv_audit v) ev = (tv_audit v', q)" "te_status ev = ''verified''"
      "te_tls_session_id ev = Some (tls_session_name (tv_next_session_id v))"
      "te_stream_id ev = sg_stream_id (bs_grant stream)" "te_stream_audit_anchor ev = tail_hash (bs_audit stream)"
      "tv_next_session_id v' = saturating_add (tv_next_session_id v) 1"
      "tv_config v' = tv_config v" "tv_trust_store v' = tv_trust_store v"
      "\<And>rec. q = Inr rec \<Longrightarrow> r = Inr \<lparr>td_outcome = TlsVerified, td_grant =
         Some (tls_session_grant_of stream ob (tls_session_name (tv_next_session_id v)) m (rec_hash rec))\<rparr>"
      "\<And>y. q = Inl y \<Longrightarrow> isl r"
proof (cases "tls_evaluate x v stream ob now")
  case (Inl e)
  let ?v = "v\<lparr>tv_next_verification_id := saturating_add (tv_next_verification_id v) 1\<rparr>"
  let ?ev = "tls_event x ?v stream ob (tls_verification_name (tv_next_verification_id v)) None (Inl e)"
  obtain a q where ap: "tls_append x (tv_audit v) ?ev = (a, q)" by (rule prod.exhaust)
  show thesis by (rule rejected [of e ?ev q])
      (use assms Inl ap in \<open>auto simp: tls_verify_def tls_evaluate_config Let_def tls_event_def split: sum.split_asm\<close>)
next
  case (Inr m)
  let ?v = "v\<lparr>tv_next_verification_id := saturating_add (tv_next_verification_id v) 1,
    tv_next_session_id := saturating_add (tv_next_session_id v) 1\<rparr>"
  let ?ev = "tls_event x ?v stream ob (tls_verification_name (tv_next_verification_id v)) (Some (tls_session_name (tv_next_session_id v))) (Inr m)"
  obtain a q where ap: "tls_append x (tv_audit v) ?ev = (a, q)" by (rule prod.exhaust)
  show thesis by (rule verified [of m ?ev q])
      (use assms Inr ap in \<open>auto simp: tls_verify_def tls_evaluate_config Let_def tls_event_def split: sum.split_asm\<close>)
qed

text \<open>A grant that speaks for a stream: every field the stream carries, and its normalized server name.\<close>

definition grant_for :: "tls_session_grant \<Rightarrow> 'b byte_stream \<Rightarrow> bool" where
  "grant_for g stream \<longleftrightarrow>
     tg_stream_id g = sg_stream_id (bs_grant stream) \<and> tg_execution_id g = sg_execution_id (bs_grant stream)
     \<and> tg_ticket_id g = sg_ticket_id (bs_grant stream) \<and> tg_binding_hash g = sg_binding_hash (bs_grant stream)
     \<and> tg_stream_audit_anchor g = tail_hash (bs_audit stream) \<and> tg_http_host g = sg_http_host (bs_grant stream)
     \<and> tg_port g = sg_port (bs_grant stream) \<and> tg_redirect_depth g = sg_redirect_depth (bs_grant stream)
     \<and> sg_scheme (bs_grant stream) = ''https''
     \<and> (\<exists>sni. sg_sni (bs_grant stream) = Some sni \<and> tls_normalize_dns_name sni = Inr (tg_sni g))
     \<and> to_ascii_lowercase (tg_http_host g) = expected_http_authority (tg_sni g) (tg_port g)
     \<and> tg_protocol_version g \<in> {Tls12, Tls13} \<and> tg_alpn g = ''http/1.1''"

lemma tls_session_grant_for:
  assumes "tls_evaluate x v stream ob now = Inr m"
  shows "grant_for (tls_session_grant_of stream ob s m a) stream"
  using tls_evaluate_Inr [OF assms] by (simp add: grant_for_def tls_session_grant_of_def Let_def)

text \<open>
  C13: the peer verifier decides by the contract. A decision is positive exactly when the stream is an
  HTTPS stream whose SNI, authority and port name the observed server, the protocol, the application
  protocol and the budgets of the handshake are as required, and the certificate chain is acceptable for
  that name: at least a leaf and a root, all current and within the size limits, each issued by the
  next up to a trusted self-issued root, authorities above the leaf within their path lengths, and a
  leaf for servers that names the host. A positive decision carries a grant for exactly this stream,
  anchored in the record the decision left at the end of the audit chain.
\<close>

theorem tls_verified_iff:
  assumes "tls_verify x v stream ob now = (v', Inr d)" "validate_tls_limits (vc_limits (tv_config v)) = Inr ()"
  shows "(is_verified d \<longleftrightarrow> peer_acceptable v stream ob now)
    \<and> (case td_grant d of
         None \<Rightarrow> td_outcome d \<noteq> TlsVerified
       | Some g \<Rightarrow> grant_for g stream \<and> tg_tls_audit_anchor g = tail_hash (tv_audit v')
           \<and> (\<exists>ev. chain_events (tv_audit v') = chain_events (tv_audit v) @ [ev] \<and> te_status ev = ''verified''
                \<and> te_stream_id ev = sg_stream_id (bs_grant stream) \<and> te_tls_session_id ev = Some (tg_tls_session_id g)))"
  using assms(1)
proof (cases rule: tls_verify_cases)
  case (rejected e ev q)
  have "\<not> peer_acceptable v stream ob now" using tls_evaluate_ok [OF assms(2), of x stream ob now] rejected(1) by auto
  moreover obtain rec where "q = Inr rec" using rejected(9) by (cases q) auto
  then have "d = \<lparr>td_outcome = TlsRejected e, td_grant = None\<rparr>" using rejected(8) by simp
  ultimately show ?thesis by (simp add: is_verified_def)
next
  case (verified m ev q)
  have p: "peer_acceptable v stream ob now" using tls_evaluate_ok [OF assms(2), of x stream ob now] verified(1) by blast
  obtain rec where q: "q = Inr rec" using verified(11) by (cases q) auto
  have ap: "tls_append x (tv_audit v) ev = (tv_audit v', Inr rec)" using verified(2) q by simp
  have t: "tail_hash (tv_audit v') = rec_hash rec" using chain_append_Inr(2) [OF ap [unfolded tls_append_def]] .
  have d: "d = \<lparr>td_outcome = TlsVerified, td_grant =
      Some (tls_session_grant_of stream ob (tls_session_name (tv_next_session_id v)) m (rec_hash rec))\<rparr>"
    using verified(10) [OF q] by simp
  show ?thesis using p t tls_log.append_adds [OF ap] verified(3-5) tls_session_grant_for [OF verified(1)]
    by (auto simp: d is_verified_def tls_session_grant_of_def Let_def)
qed

section \<open>Histories of a verifier\<close>

fun tls_run ::
  "tls_ext \<Rightarrow> ('b byte_stream \<times> tls_handshake_observation \<times> i64) list \<Rightarrow> tls_peer_verifier
     \<Rightarrow> tls_peer_verifier \<times> (tls_verifier_error + tls_verification_decision) list" where
  "tls_run x [] v = (v, [])"
| "tls_run x ((stream, ob, now) # calls) v =
     (let (v1, r) = tls_verify x v stream ob now; (v2, rs) = tls_run x calls v1 in (v2, r # rs))"

definition reply_grants :: "(tls_verifier_error + tls_verification_decision) list \<Rightarrow> tls_session_grant list" where
  "reply_grants rs = concat (map (\<lambda>r. case r of Inl _ \<Rightarrow> [] | Inr d \<Rightarrow> (case td_grant d of None \<Rightarrow> [] | Some g \<Rightarrow> [g])) rs)"

lemma reply_grants_simps [simp]:
  "reply_grants [] = []" "reply_grants (Inl e # rs) = reply_grants rs"
  "reply_grants (Inr d # rs) = (case td_grant d of None \<Rightarrow> reply_grants rs | Some g \<Rightarrow> g # reply_grants rs)"
  by (simp_all add: reply_grants_def split: option.split)

text \<open>A record of the chain that a grant is anchored in.\<close>

definition anchored_in :: "tls_audit_chain \<Rightarrow> tls_session_grant \<Rightarrow> bool" where
  "anchored_in c g \<longleftrightarrow> (\<exists>r \<in> set (chain_records c). rec_hash r = tg_tls_audit_anchor g \<and> te_status (rec_event r) = ''verified''
     \<and> te_tls_session_id (rec_event r) = Some (tg_tls_session_id g) \<and> te_stream_id (rec_event r) = tg_stream_id g)"

lemma tls_session_name_inject: "tls_session_name m = tls_session_name n \<longleftrightarrow> m = n"
  by (auto simp: tls_session_name_def decimal_pad_inject dest: unsigned_word_eqI)

lemma tls_append_records: "tls_append x c ev = (c', q) \<Longrightarrow> prefix (chain_records c) (chain_records c')"
  by (cases q) (auto simp: tls_append_def dest: chain_append_Inr(1) chain_append_Inl)

lemma tls_verify_step:
  assumes "tls_verify x v stream ob now = (v', r)"
  shows "prefix (chain_records (tv_audit v)) (chain_records (tv_audit v'))"
    and "tls_audit_verify x (tv_audit v) = Inr () \<Longrightarrow> tls_audit_verify x (tv_audit v') = Inr ()"
    and "reply_grants [r] = [] \<and> tv_next_session_id v' \<in> {tv_next_session_id v, saturating_add (tv_next_session_id v) 1}
      \<or> (\<exists>g. reply_grants [r] = [g] \<and> tg_tls_session_id g = tls_session_name (tv_next_session_id v)
          \<and> tv_next_session_id v' = saturating_add (tv_next_session_id v) 1 \<and> anchored_in (tv_audit v') g)"
proof -
  obtain ev q where ap: "tls_append x (tv_audit v) ev = (tv_audit v', q)" using assms by (cases rule: tls_verify_cases) auto
  show "prefix (chain_records (tv_audit v)) (chain_records (tv_audit v'))" by (rule tls_append_records [OF ap])
  show "tls_audit_verify x (tv_audit v) = Inr () \<Longrightarrow> tls_audit_verify x (tv_audit v') = Inr ()"
    using tls_log.extends_append [OF ap] by (simp add: log_extends_def)
  show "reply_grants [r] = [] \<and> tv_next_session_id v' \<in> {tv_next_session_id v, saturating_add (tv_next_session_id v) 1}
      \<or> (\<exists>g. reply_grants [r] = [g] \<and> tg_tls_session_id g = tls_session_name (tv_next_session_id v)
          \<and> tv_next_session_id v' = saturating_add (tv_next_session_id v) 1 \<and> anchored_in (tv_audit v') g)"
    using assms
  proof (cases rule: tls_verify_cases)
    case (rejected e ev q)
    then show ?thesis by (cases q; cases r) auto
  next
    case (verified m ev q)
    show ?thesis
    proof (cases q)
      case (Inl y)
      then show ?thesis using verified(7,11) by (cases r) auto
    next
      case (Inr rec)
      then have ap: "chain_append (tls_record_hash x) (tv_audit v) ev = (tv_audit v', Inr rec)"
        using verified(2) by (simp add: tls_append_def)
      let ?g = "tls_session_grant_of stream ob (tls_session_name (tv_next_session_id v)) m (rec_hash rec)"
      have "anchored_in (tv_audit v') ?g"
        using chain_append_Inr(1,3) [OF ap] verified(3-5) by (auto simp: anchored_in_def tls_session_grant_of_def Let_def)
      then show ?thesis using verified(7) verified(10) [OF Inr] by (simp add: tls_session_grant_of_def Let_def)
    qed
  qed
qed

lemma anchored_in_mono: "anchored_in c g \<Longrightarrow> prefix (chain_records c) (chain_records c') \<Longrightarrow> anchored_in c' g"
  unfolding anchored_in_def by (meson set_mono_prefix subsetD)

lemma reply_grants_Cons: "reply_grants (r # rs) = reply_grants [r] @ reply_grants rs"
  by (simp add: reply_grants_def)

lemma tls_run_facts:
  "tls_run x calls v = (v', rs) \<Longrightarrow> unat (tv_next_session_id v) + length calls < 2 ^ 64 \<Longrightarrow>
   prefix (chain_records (tv_audit v)) (chain_records (tv_audit v'))
   \<and> (tls_audit_verify x (tv_audit v) = Inr () \<longrightarrow> tls_audit_verify x (tv_audit v') = Inr ())
   \<and> distinct (map tg_tls_session_id (reply_grants rs))
   \<and> (\<forall>g \<in> set (reply_grants rs). anchored_in (tv_audit v') g
        \<and> (\<exists>n. tg_tls_session_id g = tls_session_name n \<and> unat (tv_next_session_id v) \<le> unat n))"
proof (induction calls arbitrary: v rs)
  case (Cons call calls)
  obtain stream ob now where call: "call = (stream, ob, now)" by (cases call)
  obtain v1 r rs1 where v1: "tls_verify x v stream ob now = (v1, r)" and run: "tls_run x calls v1 = (v', rs1)" and rs: "rs = r # rs1"
    using Cons.prems(1) by (auto simp: call split: prod.split_asm)
  note st = tls_verify_step [OF v1]
  let ?n = "tv_next_session_id v" and ?n1 = "tv_next_session_id v1"
  have all: "reply_grants rs = reply_grants [r] @ reply_grants rs1" unfolding rs by (rule reply_grants_Cons)
  have sat: "unat (saturating_add ?n 1) = unat ?n + 1" using Cons.prems(2) by (simp add: unat_saturating_add)
  then have n1: "unat ?n \<le> unat ?n1" "unat ?n1 \<le> unat ?n + 1" using st(3) by auto
  have ih: "prefix (chain_records (tv_audit v1)) (chain_records (tv_audit v'))"
    "tls_audit_verify x (tv_audit v1) = Inr () \<longrightarrow> tls_audit_verify x (tv_audit v') = Inr ()"
    "distinct (map tg_tls_session_id (reply_grants rs1))"
    "\<forall>g \<in> set (reply_grants rs1). anchored_in (tv_audit v') g \<and> (\<exists>n. tg_tls_session_id g = tls_session_name n \<and> unat ?n1 \<le> unat n)"
    using Cons.IH [OF run] Cons.prems(2) n1 by auto
  have old: "\<exists>n. tg_tls_session_id g = tls_session_name n \<and> unat ?n \<le> unat n" if mem: "g \<in> set (reply_grants rs1)" for g
  proof -
    obtain n where n: "tg_tls_session_id g = tls_session_name n" "unat ?n1 \<le> unat n"
      using bspec [OF ih(4) mem] by blast
    show ?thesis using n(1) le_trans [OF n1(1) n(2)] by (intro exI conjI)
  qed
  have "prefix (chain_records (tv_audit v)) (chain_records (tv_audit v'))" using st(1) ih(1) by (rule prefix_order.trans)
  moreover have "distinct (map tg_tls_session_id (reply_grants rs)) \<and> (\<forall>g \<in> set (reply_grants rs). anchored_in (tv_audit v') g
        \<and> (\<exists>n. tg_tls_session_id g = tls_session_name n \<and> unat ?n \<le> unat n))"
    using st(3)
  proof
    assume "reply_grants [r] = [] \<and> ?n1 \<in> {?n, saturating_add ?n 1}"
    then have "reply_grants rs = reply_grants rs1" using all by simp
    then show ?thesis using ih(3,4) old by simp
  next
    assume "\<exists>g. reply_grants [r] = [g] \<and> tg_tls_session_id g = tls_session_name ?n \<and> ?n1 = saturating_add ?n 1 \<and> anchored_in (tv_audit v1) g"
    then obtain g where g: "reply_grants [r] = [g]" "tg_tls_session_id g = tls_session_name ?n" "?n1 = saturating_add ?n 1"
      "anchored_in (tv_audit v1) g" by blast
    have "tg_tls_session_id h \<noteq> tls_session_name ?n" if mem: "h \<in> set (reply_grants rs1)" for h
    proof -
      obtain n where n: "tg_tls_session_id h = tls_session_name n" "unat ?n1 \<le> unat n"
        using bspec [OF ih(4) mem] by blast
      then have "n \<noteq> ?n" using g(3) sat by auto
      then show ?thesis using n(1) tls_session_name_inject by simp
    qed
    then have "tls_session_name ?n \<notin> tg_tls_session_id ` set (reply_grants rs1)" unfolding image_iff by metis
    moreover have "reply_grants rs = g # reply_grants rs1" using g(1) all by simp
    ultimately show ?thesis using ih(3,4) old g(2) anchored_in_mono [OF g(4) ih(1)] by auto
  qed
  ultimately show ?case using st(2) ih(2) by blast
qed simp

text \<open>
  C39: the history of a peer verifier. Over any verifications by a new verifier the audit chain verifies
  from its genesis, no two sessions share an identifier, and every session grant is anchored in a
  record of the chain that says that its stream was verified under its session identifier.
\<close>

theorem tls_history:
  assumes "tls_verifier_new config store = Inr v" "tls_run x calls v = (v', rs)" "length calls < 2 ^ 64 - 1"
  shows "tls_audit_verify x (tv_audit v') = Inr () \<and> distinct (map tg_tls_session_id (reply_grants rs))
    \<and> list_all (anchored_in (tv_audit v')) (reply_grants rs)"
proof -
  have v: "tv_audit v = tls_audit_new" "tv_next_session_id v = 1"
    using assms(1) by (auto simp: tls_verifier_new_def result_simps split: if_split_asm)
  have "tls_audit_verify x tls_audit_new = Inr ()" by (simp add: tls_audit_verify_def chain_verify_def tls_audit_new_def)
  then show ?thesis using tls_run_facts [OF assms(2)] v assms(3) by (auto simp: list_all_iff)
qed

section \<open>Witnesses\<close>

theorem san_matches_labels_witness:
  "san_matches ''api.example.com'' ''*.example.com'' \<and> \<not> san_matches ''a.api.example.com'' ''*.example.com''"
proof -
  have n: "normalize_san_pattern ''*.Example.com'' = Inr ''*.example.com''" by code_simp
  have l: "split_on (CHR ''.'') ''*.example.com'' = [''*'', ''example'', ''com'']"
    "split_on (CHR ''.'') ''api.example.com'' = [''api'', ''example'', ''com'']"
    "split_on (CHR ''.'') ''a.api.example.com'' = [''a'', ''api'', ''example'', ''com'']" by code_simp+
  show ?thesis using san_matches_labels [OF n, of "''api.example.com''"] san_matches_labels [OF n, of "''a.api.example.com''"]
    by (simp add: l)
qed

definition sample_leaf :: synthetic_certificate where
  "sample_leaf =
     \<lparr>sc_fingerprint = replicate 64 (CHR ''a''), sc_subject_spki = replicate 64 (CHR ''b''), sc_issuer_spki = replicate 64 (CHR ''c''),
      sc_encoded_bytes = 900, sc_dns_sans = [''*.example.com''], sc_common_name = None, sc_not_before = 0, sc_not_after = 100,
      sc_is_ca = False, sc_path_len_constraint = None, sc_digital_signature = True, sc_cert_sign = False, sc_server_auth = True,
      sc_signature_valid = True, sc_unsupported_critical_extension = False\<rparr>"

definition sample_root :: synthetic_certificate where
  "sample_root =
     \<lparr>sc_fingerprint = replicate 64 (CHR ''d''), sc_subject_spki = replicate 64 (CHR ''c''), sc_issuer_spki = replicate 64 (CHR ''c''),
      sc_encoded_bytes = 900, sc_dns_sans = [], sc_common_name = None, sc_not_before = 0, sc_not_after = 100,
      sc_is_ca = True, sc_path_len_constraint = Some 0, sc_digital_signature = False, sc_cert_sign = True, sc_server_auth = False,
      sc_signature_valid = True, sc_unsupported_critical_extension = False\<rparr>"

definition sample_handshake :: tls_handshake_observation where
  "sample_handshake =
     \<lparr>th_server_name = ''api.example.com'', th_protocol_version = Tls13, th_alpn = Some ''http/1.1'',
      th_chain = [sample_leaf, sample_root], th_read_bytes = 3000, th_write_bytes = 500, th_elapsed = 20,
      th_early_data_accepted = False, th_renegotiation_observed = False, th_session_resumed = False\<rparr>"

definition https_stream :: "unit byte_stream" where
  "https_stream =
     \<lparr>bs_grant =
        \<lparr>sg_stream_id = ''s'', sg_execution_id = ''e'', sg_executor_id = ''x'', sg_ticket_id = ''t'', sg_decision_id = ''d'',
         sg_dns_context_id = ''c'', sg_binding_hash = [], sg_endpoint_fingerprint = [], sg_executor_audit_anchor = [],
         sg_remote_ip = [], sg_port = 443, sg_scheme = ''https'', sg_sni = Some ''api.example.com'', sg_http_host = ''api.example.com'',
         sg_redirect_depth = 0\<rparr>,
      bs_limits = stream_conservative_default, bs_backend = (), bs_state = SOpen, bs_read_bytes = 0,
      bs_written_bytes = 0, bs_elapsed = 0, bs_operation_count = 1,
      bs_audit = \<lparr>chain_records = [], tail_hash = replicate 64 (CHR ''a''), genesis_anchor = replicate 64 (CHR ''a'')\<rparr>\<rparr>"

definition sample_tls_ext :: tls_ext where
  "sample_tls_ext = \<lparr>tx_stream = sample_stream_ext, ser_tls = \<lambda>_. Inr []\<rparr>"

definition sample_verifier :: tls_peer_verifier where
  "sample_verifier =
     \<lparr>tv_config = \<lparr>vc_verifier_id = ''v'', vc_limits = tls_conservative_default\<rparr>, tv_trust_store = {|replicate 64 (CHR ''d'')|},
      tv_audit = tls_audit_new, tv_next_verification_id = 1, tv_next_session_id = 1\<rparr>"

lemma sample_tls_limits: "validate_tls_limits tls_conservative_default = Inr ()"
  by (simp add: validate_tls_limits_def tls_conservative_default_def MAX_CERTIFICATE_CHAIN_DEPTH_def MAX_CERTIFICATE_BYTES_def
      MAX_CERTIFICATE_CHAIN_BYTES_def MAX_HANDSHAKE_BYTES_def MAX_HANDSHAKE_TIMEOUT_MILLISECONDS_def)

lemma sample_verifier_new: "tls_verifier_new \<lparr>vc_verifier_id = ''v'', vc_limits = tls_conservative_default\<rparr> {|replicate 64 (CHR ''d'')|} = Inr sample_verifier"
  by (simp add: tls_verifier_new_def sample_tls_limits sample_verifier_def is_verifier_byte_def byte_class_defs byte_def)

lemma sample_tls_eval:
  "(case tls_verify sample_tls_ext sample_verifier https_stream sample_handshake 50 of (_, Inr d) \<Rightarrow> is_verified d | _ \<Rightarrow> False)"
  by code_simp

theorem tls_verified_iff_witness:
  "\<exists>v' d. tls_verify sample_tls_ext sample_verifier https_stream sample_handshake 50 = (v', Inr d)
     \<and> is_verified d \<and> peer_acceptable sample_verifier https_stream sample_handshake 50"
proof -
  obtain v' d where e: "tls_verify sample_tls_ext sample_verifier https_stream sample_handshake 50 = (v', Inr d)" "is_verified d"
    using sample_tls_eval by (auto split: prod.split_asm sum.split_asm)
  have "validate_tls_limits (vc_limits (tv_config sample_verifier)) = Inr ()" using sample_tls_limits by (simp add: sample_verifier_def)
  from tls_verified_iff [OF e(1) this] e show ?thesis by blast
qed

theorem tls_history_witness:
  "\<exists>v' rs. tls_run sample_tls_ext [(https_stream, sample_handshake, 50), (https_stream, sample_handshake, 51)] sample_verifier = (v', rs)
     \<and> tls_audit_verify sample_tls_ext (tv_audit v') = Inr () \<and> distinct (map tg_tls_session_id (reply_grants rs))"
proof -
  obtain v' rs where r: "tls_run sample_tls_ext [(https_stream, sample_handshake, 50), (https_stream, sample_handshake, 51)] sample_verifier = (v', rs)"
    by (rule prod.exhaust)
  from tls_history [OF sample_verifier_new r] show ?thesis using r by auto
qed

end
