(* ===== verification/Spec2Isabelle.thy ===== *)
theory Spec2Isabelle
  imports Local_Executor Http1_Conversation Tls
begin

text \<open>
  Verification of the BoundSeal request path (crates \<open>nxb-*\<close> under \<open>src/crates\<close>).

  \<^bold>\<open>The program.\<close> A request is decided by the scope gateway against a compiled policy, a DNS pin set
  and a budget, and the decision is written to a hash chain. An allowed request is turned into a
  one-use connection ticket bound to the decision and to one resolved address. A use of the ticket that
  matches its binding yields a permit; the executor runs a backend for a permit and classifies its
  report; the local pipeline composes the two and returns the budget slot. A completed execution is
  opened as a bounded byte stream; the HTTP/1 codec sends one request over it, with secret headers
  leased from the vault, and parses the response. Every part writes its own audit chain, most of them anchored
  in the chain before. The TLS peer verifier decides whether the peer of an HTTPS stream is the server the
  stream was opened for, and hands out a grant bound to that stream.

  \<^bold>\<open>Theories.\<close>
  \<^item> \<open>Rust_Prelude\<close>: machine integers, results, panics (\<open>run\<close>), bytes and strings (UTF-8 bytes as
    \<open>string\<close>), trimming, decimal and hexadecimal printing. \<open>Float64\<close>: IEEE doubles as rationals with
    rounding, and \<open>Duration::from_secs_f64\<close>. \<open>Ip_Addr\<close>: addresses, the std predicates on them and their
    printed form; \<open>Ip_Text\<close>: the printed form determines the address. \<open>Identifiers\<close>: the identifier and host rules the crates share.
  \<^item> \<open>Destination\<close> (\<open>nxb-destination\<close>): the address classifier, against a reference table of address
    blocks.
  \<^item> \<open>Policy\<close> (\<open>nxb-policy\<close>): validation, compilation, request tests, narrowing.
  \<^item> \<open>Dns\<close> (\<open>nxb-dns\<close>): the pin set; the locale \<open>pin_store\<close> is its contract.
  \<^item> \<open>Budget\<close> (\<open>nxb-budget\<close>): the token bucket with its total and concurrency limits.
  \<^item> \<open>Hash_Chain\<close>: the append-only chain that the crates each carry over their own event type; the locale
    \<open>audit_log\<close> is its contract, interpreted in \<open>Gateway_Audit\<close>, \<open>Pinned_Transport\<close>, \<open>Executor\<close>, \<open>Stream\<close>,
    \<open>Vault\<close>, \<open>Http1_Codec\<close> and \<open>Tls\<close>. \<open>Gateway_Audit\<close> (\<open>nxb-audit\<close>): the events of the gateway and tamper
    evidence.
  \<^item> \<open>Gateway\<close> (\<open>nxb-gateway\<close>): the decision, its audit event, the state of the gateway, histories.
  \<^item> \<open>Transport\<close> (\<open>nxb-transport\<close>): the ticket authority, histories of it, the binding hash.
  \<^item> \<open>Pinned_Transport\<close> (\<open>nxb-pinned-transport\<close>): the coordinator of gateway and tickets, histories with
    the permits they hand out, and the step relation \<open>slot_step\<close> that counts open connections.
  \<^item> \<open>Executor\<close> (\<open>nxb-executor\<close>): limits, permit check, classification, execution; the locale
    \<open>recording_backend\<close> is the contract of a backend that logs its endpoints, interpreted on the crate's
    synthetic backend.
  \<^item> \<open>Local_Executor\<close> (\<open>nxb-local-executor\<close>): the pipeline.
  \<^item> \<open>Stream\<close> (\<open>nxb-stream\<close>): opening a stream for a recorded execution, read, write and close for any
    backend, the budgets and deadlines, the state model as the relation \<open>stream_edge\<close>, histories.
    \<open>Stream_Fixture\<close> (\<open>nxb-stream-fixture\<close>): the in-memory duplex, which interprets the contract of a
    backend that transports bytes faithfully.
  \<^item> \<open>Vault\<close> (\<open>nxb-vault\<close>): secrets, identities, leases, the headers a lease materialises, histories.
  \<^item> \<open>Http1_Parser\<close>, \<open>Http1_Response\<close>, \<open>Http1_Round_Trip\<close> (\<open>parser.rs\<close> and \<open>model.rs\<close> of \<open>nxb-http1\<close>): the
    response parser, what a parsed response guarantees, and reading back what a server writes.
    \<open>Http1_Request\<close> (\<open>codec.rs\<close>): the request serializer. \<open>Http1_Codec\<close> (\<open>codec.rs\<close>, \<open>audit.rs\<close>): the loops
    over the stream, the exchange, its chain. \<open>Http1_Fixture\<close> (\<open>nxb-http1-fixture\<close>) and
    \<open>Http1_Conversation\<close>: the conversation fixtures and the exchanges over them.

  \<^item> \<open>Tls\<close> (\<open>nxb-tls\<close>): names and subject alternative names, the checks of a handshake and of its
    certificate chain against the specification \<open>peer_acceptable\<close>, the verifier and its histories, and the
    binder for sessions a TLS library has verified.

  \<^bold>\<open>Correspondence.\<close> A struct is a record, an enum a datatype with the source's constructors (prefixed
  where two enums share a name), a method a definition that takes the state and returns it updated. A
  \<open>Result\<close> is a sum with the error on the left; a panic is the value \<open>Panic\<close> of \<open>run\<close>. \<open>u8\<close> to \<open>u128\<close> are
  words, \<open>usize\<close> is \<open>nat\<close>; a \<open>BTreeSet\<close> is an \<open>fset\<close>, a \<open>BTreeMap\<close> an association list; a \<open>Duration\<close> is
  a number of nanoseconds. Loops over finite collections are structural recursion. The loops of the
  HTTP parser end because each turn consumes input, the loops of the codec because each turn takes one
  operation of the stream's budget; both are total functions with termination proofs, so nothing needs
  fuel.

  \<^bold>\<open>Parameters.\<close> The JSON serializer, SHA-256, the printing of a \<open>Url\<close> and its parsed parts, and the
  backends of the executor and of the stream are not under \<open>src/\<close> or are traits; they are arguments (the
  records \<open>gateway_ext\<close>, \<open>transport_ext\<close>, \<open>executor_ext\<close>, \<open>stream_ext\<close>, \<open>http1_ext\<close>, \<open>tls_ext\<close>, \<open>stream_backend\<close>).
  Where a property relies on them it says so: that SHA-256 yields 32 bytes, that a serializer succeeds,
  that a hash does not collide on two given texts.

  \<^bold>\<open>What the theorems show.\<close> The gateway allows a request exactly when every test passes and never panics
  for a reasonable rate; its allowed requests, concurrency and addresses stay within the policy over any
  history; narrowing never widens. A ticket is used at most once and only within its binding and time;
  every permit goes back to the ticket issued for an allowed request, with its public address, host, scheme
  and port; the binding hash determines the ticket. Live tickets and open connections fit the concurrency
  limit; the pipeline returns the slot of a live ticket exactly once whenever the use could be recorded
  (if it could not, the ticket is spent and the slot is kept). Receipts follow the documented state
  machine and a completed execution is within its limits. The chains verify and are tamper evident. A
  stream belongs to a recorded execution and stays within its budgets (the record that ends it may be
  one beyond the operation limit); an admitted call under a stop ends it for good. Secrets reach
  only requests their binding admits, a lease is materialised once, a revoked secret is gone, and audit
  trails do not depend on secret bytes. A serialized request and a parsed response have an unambiguous
  framing; the parser does not depend on how its input was split and reads back every response written
  within the limits; an exchange sends exactly one request and returns exactly one response, and within
  its budgets it succeeds. The TLS verifier accepts exactly the peers its contract admits, a wildcard
  name covers exactly one label, and every grant is anchored in the record of its verification.

  \<^bold>\<open>Not modelled.\<close> Parsing of policies (TOML, RFC 3339) and of URLs, \<open>Debug\<close> and error texts, erasing of
  freed memory, the gate that
  chooses the kind of an HTTP channel (\<open>gated_codec.rs\<close>), X.509 and the TLS protocol itself (the crate works
  on certificate metadata), and the crates outside this path (sessions, cookies, operators, analyzers).
\<close>

end
